(* ===== verification/Bertha_Prelude.thy ===== *)
theory Bertha_Prelude
  imports
    "HOL-Library.Word"
    "HOL-Library.List_Lexorder"
    "HOL-Library.Product_Lexorder"
begin

section \<open>Shared types, results, bytes and list operations\<close>

text \<open>
  What the components share: the machine integers and byte strings of the Rust code, the
  \<open>Result\<close> type as a sum, big-endian encodings, and the list operations of the
  standard library the source calls (\<open>Vec::remove\<close>, \<open>Vec::insert\<close>,
  \<open>binary_search_by\<close>, \<open>chunks_exact\<close>, \<open>collect::<Result<Vec<_>, _>>\<close>).
  Integer arithmetic is that of a release build, the way the README runs the program:
  \<open>+\<close> and \<open>-\<close> on \<open>u64\<close> wrap around.
\<close>

subsection \<open>Machine types\<close>

type_synonym u8 = "8 word"
type_synonym u16 = "16 word"
type_synonym u32 = "32 word"
type_synonym u64 = "64 word"
type_synonym u256 = "256 word"
type_synonym bytes = "u8 list"

abbreviation u64_max :: u64 where
  "u64_max \<equiv> - 1"

lemma u64_max_le_iff [simp]: "u64_max \<le> x \<longleftrightarrow> x = u64_max"
  by (metis antisym word_n1_ge)

lemma unat_u64_max [simp]: "unat u64_max = 18446744073709551615"
  by (simp add: unsigned_minus_1_eq_mask mask_eq_exp_minus_1)

named_theorems byte_simps \<open>rewriting big-endian encodings\<close>
named_theorems range_simps \<open>set semantics of block ranges\<close>
named_theorems key_simps \<open>layout of database keys\<close>

subsection \<open>Results\<close>

text \<open>\<open>Result<T, E>\<close> is \<open>'e + 'a\<close>: \<open>Inl\<close> is \<open>Err\<close>, \<open>Inr\<close> is \<open>Ok\<close>. The
  question mark operator is \<open>res_bind\<close>.\<close>

definition res_bind :: "'e + 'a \<Rightarrow> ('a \<Rightarrow> 'e + 'b) \<Rightarrow> 'e + 'b" where
  "res_bind r f = (case r of Inl e \<Rightarrow> Inl e | Inr x \<Rightarrow> f x)"

definition map_err :: "('e \<Rightarrow> 'f) \<Rightarrow> 'e + 'a \<Rightarrow> 'f + 'a" where
  "map_err g r = (case r of Inl e \<Rightarrow> Inl (g e) | Inr x \<Rightarrow> Inr x)"

definition map_ok :: "('a \<Rightarrow> 'b) \<Rightarrow> 'e + 'a \<Rightarrow> 'e + 'b" where
  "map_ok g r = (case r of Inl e \<Rightarrow> Inl e | Inr x \<Rightarrow> Inr (g x))"

fun opt_transpose :: "('e + 'a) option \<Rightarrow> 'e + 'a option" where
  "opt_transpose None = Inr None"
| "opt_transpose (Some (Inl e)) = Inl e"
| "opt_transpose (Some (Inr x)) = Inr (Some x)"

fun collect_results :: "('e + 'a) list \<Rightarrow> 'e + 'a list" where
  "collect_results [] = Inr []"
| "collect_results (r # rs) =
     (case r of
        Inl e \<Rightarrow> Inl e
      | Inr x \<Rightarrow> (case collect_results rs of Inl e \<Rightarrow> Inl e | Inr xs \<Rightarrow> Inr (x # xs)))"

lemma res_bind_simps [simp]:
  "res_bind (Inl e) f = Inl e"
  "res_bind (Inr x) f = f x"
  by (simp_all add: res_bind_def)

lemma res_bind_Inr_iff [simp]: "res_bind r f = Inr y \<longleftrightarrow> (\<exists>x. r = Inr x \<and> f x = Inr y)"
  by (cases r) simp_all

lemma map_err_simps [simp]:
  "map_err g (Inl e) = Inl (g e)"
  "map_err g (Inr x) = Inr x"
  by (simp_all add: map_err_def)

lemma map_err_Inr_iff [simp]: "map_err g r = Inr y \<longleftrightarrow> r = Inr y"
  by (cases r) simp_all

lemma map_ok_simps [simp]:
  "map_ok g (Inl e) = Inl e"
  "map_ok g (Inr x) = Inr (g x)"
  by (simp_all add: map_ok_def)

lemma map_ok_Inr_iff [simp]: "map_ok g r = Inr y \<longleftrightarrow> (\<exists>x. r = Inr x \<and> y = g x)"
  by (cases r) auto

lemma opt_transpose_map_Inr [simp]: "opt_transpose (map_option Inr x) = Inr x"
  by (cases x) simp_all

lemma opt_transpose_Inr_iff:
  "opt_transpose r = Inr y \<longleftrightarrow> (r = None \<and> y = None) \<or> (\<exists>x. r = Some (Inr x) \<and> y = Some x)"
  by (cases r rule: opt_transpose.cases) auto

lemma collect_results_map_Inr:
  "(\<And>x. x \<in> set xs \<Longrightarrow> f x = Inr (g x)) \<Longrightarrow> collect_results (map f xs) = Inr (map g xs)"
  by (induction xs) auto

lemma collect_results_Inr_iff: "collect_results rs = Inr xs \<longleftrightarrow> rs = map Inr xs"
proof (induction rs arbitrary: xs)
  case Nil
  then show ?case by auto
next
  case (Cons r rs)
  then show ?case
    by (cases r; cases "collect_results rs") (auto simp: Cons_eq_map_conv)
qed

lemma collect_results_Inl_iff:
  "collect_results rs = Inl e \<longleftrightarrow> (\<exists>xs ys. rs = map Inr xs @ Inl e # ys)"
proof (induction rs)
  case Nil
  then show ?case by auto
next
  case (Cons r rs)
  show ?case
  proof (cases r)
    case (Inl f)
    then show ?thesis by (auto simp: Cons_eq_append_conv map_eq_Cons_conv)
  next
    case (Inr x)
    have "collect_results (r # rs) = Inl e \<longleftrightarrow> collect_results rs = Inl e"
      using Inr by (simp split: sum.split)
    also have "\<dots> \<longleftrightarrow> (\<exists>xs ys. rs = map Inr xs @ Inl e # ys)"
      by (rule Cons)
    also have "\<dots> \<longleftrightarrow> (\<exists>xs ys. r # rs = map Inr xs @ Inl e # ys)"
    proof
      assume "\<exists>xs ys. rs = map Inr xs @ Inl e # ys"
      then obtain xs ys where "r # rs = map Inr (x # xs) @ Inl e # ys" using Inr by auto
      then show "\<exists>xs ys. r # rs = map Inr xs @ Inl e # ys" by blast
    next
      assume "\<exists>xs ys. r # rs = map Inr xs @ Inl e # ys"
      then obtain xs ys where eq: "r # rs = map Inr xs @ Inl e # ys" by blast
      with Inr obtain z zs where "xs = z # zs" by (cases xs) auto
      with eq show "\<exists>xs ys. rs = map Inr xs @ Inl e # ys" by auto
    qed
    finally show ?thesis .
  qed
qed

subsection \<open>Vectors\<close>

text \<open>\<open>Vec::remove(i)\<close> and \<open>Vec::insert(i, x)\<close> at an index in range.\<close>

definition vec_remove :: "nat \<Rightarrow> 'a list \<Rightarrow> 'a list" where
  "vec_remove i xs = take i xs @ drop (Suc i) xs"

definition vec_insert :: "nat \<Rightarrow> 'a \<Rightarrow> 'a list \<Rightarrow> 'a list" where
  "vec_insert i x xs = take i xs @ x # drop i xs"

lemma length_vec_remove [simp]: "i < length xs \<Longrightarrow> length (vec_remove i xs) = length xs - 1"
  by (simp add: vec_remove_def)

lemma length_vec_insert [simp]: "i \<le> length xs \<Longrightarrow> length (vec_insert i x xs) = Suc (length xs)"
  by (simp add: vec_insert_def)

lemma vec_remove_append [simp]: "vec_remove (length ps) (ps @ x # xs) = ps @ xs"
  by (simp add: vec_remove_def)

lemma vec_remove_Suc_append [simp]: "vec_remove (Suc (length ps)) (ps @ x # y # xs) = ps @ x # xs"
  by (simp add: vec_remove_def)

lemma vec_insert_Suc_append [simp]:
  "vec_insert (Suc (length ps)) y (ps @ x # xs) = ps @ x # y # xs"
  by (simp add: vec_insert_def)

lemma set_vec_insert [simp]: "set (vec_insert i x xs) = insert x (set xs)"
  by (metis Un_insert_right append_take_drop_id list.simps(15) set_append vec_insert_def)

text \<open>\<open>chunks_exact(n)\<close> on a length that is a multiple of \<open>n\<close>.\<close>

fun chunks :: "nat \<Rightarrow> 'a list \<Rightarrow> 'a list list" where
  "chunks 0 xs = []"
| "chunks (Suc n) xs =
     (if length xs < Suc n then [] else take (Suc n) xs # chunks (Suc n) (drop (Suc n) xs))"

declare chunks.simps [simp del]

lemma chunks_concat:
  assumes "0 < n" and "\<forall>x \<in> set xss. length x = n"
  shows "chunks n (concat xss) = xss"
  using assms(2)
proof (induction xss)
  case Nil
  from assms(1) show ?case by (cases n) (simp_all add: chunks.simps)
next
  case (Cons x xss)
  from assms(1) obtain m where m: "n = Suc m" by (cases n) auto
  from Cons have "length x = Suc m" and "chunks (Suc m) (concat xss) = xss"
    using m by simp_all
  then show ?case using m by (simp add: chunks.simps)
qed

lemma concat_chunks:
  assumes "0 < n" and "n dvd length xs"
  shows "concat (chunks n xs) = xs \<and> (\<forall>x \<in> set (chunks n xs). length x = n)"
  using assms
proof (induction n xs rule: chunks.induct)
  case (2 n xs)
  show ?case
  proof (cases "length xs < Suc n")
    case True
    with "2.prems" have "xs = []" using nat_dvd_not_less [of "length xs" "Suc n"] by auto
    then show ?thesis by (simp add: chunks.simps)
  next
    case False
    moreover from False "2.prems" have "Suc n dvd length (drop (Suc n) xs)" by simp
    ultimately have "concat (chunks (Suc n) (drop (Suc n) xs)) = drop (Suc n) xs \<and>
        (\<forall>x \<in> set (chunks (Suc n) (drop (Suc n) xs)). length x = Suc n)"
      using "2.IH" by blast
    moreover have "chunks (Suc n) xs = take (Suc n) xs # chunks (Suc n) (drop (Suc n) xs)"
      using False by (subst chunks.simps) simp
    ultimately show ?thesis using False by (metis append_take_drop_id concat.simps(2) length_take
        min.absorb2 not_less set_ConsD)
  qed
qed simp

lemma length_concat_const:
  "\<forall>x \<in> set xss. length x = n \<Longrightarrow> length (concat xss) = n * length xss"
  by (induction xss) auto

subsection \<open>Binary search\<close>

text \<open>\<open>slice::binary_search_by\<close> as the standard library implements it: \<open>Inr i\<close> is
  \<open>Ok(i)\<close> and \<open>Inl i\<close> is \<open>Err(i)\<close>.\<close>

datatype ordering = Less | Equal | Greater

definition cmp :: "'a::linorder \<Rightarrow> 'a \<Rightarrow> ordering" where
  "cmp x y = (if x < y then Less else if x = y then Equal else Greater)"

function bs_loop :: "('a \<Rightarrow> ordering) \<Rightarrow> 'a list \<Rightarrow> nat \<Rightarrow> nat \<Rightarrow> nat" where
  "bs_loop f xs base len =
     (if 1 < len then
        let half = len div 2; mid = base + half
        in bs_loop f xs (if f (xs ! mid) = Greater then base else mid) (len - half)
      else base)"
  by pat_completeness auto
termination
  by (relation "measure (\<lambda>(f, xs, base, len). len)") auto

declare bs_loop.simps [simp del]

definition binary_search_by :: "('a \<Rightarrow> ordering) \<Rightarrow> 'a list \<Rightarrow> nat + nat" where
  "binary_search_by f xs =
     (if xs = [] then Inl 0
      else
        let base = bs_loop f xs 0 (length xs)
        in case f (xs ! base) of
             Equal \<Rightarrow> Inr base
           | Less \<Rightarrow> Inl (Suc base)
           | Greater \<Rightarrow> Inl base)"

definition binary_search :: "'a::linorder \<Rightarrow> 'a list \<Rightarrow> nat + nat" where
  "binary_search x xs = binary_search_by (\<lambda>y. cmp y x) xs"

lemma bs_loop_bounds:
  "0 < len \<Longrightarrow> base \<le> bs_loop f xs base len \<and> bs_loop f xs base len < base + len"
proof (induction f xs base len rule: bs_loop.induct)
  case (1 f xs base len)
  show ?case
  proof (cases "1 < len")
    case True
    define half where "half = len div 2"
    define b' where "b' = (if f (xs ! (base + half)) = Greater then base else base + half)"
    have "0 < len - half" using True half_def by simp
    then have "b' \<le> bs_loop f xs b' (len - half) \<and> bs_loop f xs b' (len - half) < b' + (len - half)"
      using "1.IH" [OF True half_def refl] b'_def by blast
    moreover have "bs_loop f xs base len = bs_loop f xs b' (len - half)"
      using True by (subst bs_loop.simps) (simp add: Let_def half_def b'_def)
    moreover have "base \<le> b'" and "b' + (len - half) \<le> base + len"
      using True by (auto simp: b'_def half_def)
    ultimately show ?thesis by linarith
  next
    case False
    then show ?thesis using "1.prems" by (subst (1 2) bs_loop.simps) simp
  qed
qed

text \<open>A hit is a hit, whatever the order of the slice.\<close>

lemma binary_search_by_Inr:
  "binary_search_by f xs = Inr i \<Longrightarrow> i < length xs \<and> f (xs ! i) = Equal"
  using bs_loop_bounds [of "length xs" 0 f xs]
  by (auto simp: binary_search_by_def Let_def split: if_splits ordering.splits)

text \<open>On a slice the comparator partitions (below, hit, above), the search decides
  membership and \<open>Err(i)\<close> is the insertion point.\<close>

definition partitioned :: "('a \<Rightarrow> ordering) \<Rightarrow> 'a list \<Rightarrow> bool" where
  "partitioned f xs \<longleftrightarrow>
     (\<forall>i j. i < j \<and> j < length xs \<longrightarrow>
        (f (xs ! i) = Less \<or> f (xs ! j) = Greater))"

lemma bs_loop_inv:
  assumes "partitioned f xs"
  shows "0 < len \<Longrightarrow> base + len \<le> length xs \<Longrightarrow>
     (\<forall>i < base. f (xs ! i) = Less) \<Longrightarrow>
     (\<forall>i. base + len \<le> i \<and> i < length xs \<longrightarrow> f (xs ! i) = Greater) \<Longrightarrow>
     (\<forall>i < bs_loop f xs base len. f (xs ! i) = Less) \<and>
     (\<forall>i. bs_loop f xs base len < i \<and> i < length xs \<longrightarrow> f (xs ! i) = Greater)"
proof (induction len arbitrary: base rule: less_induct)
  case (less len)
  show ?case
  proof (cases "1 < len")
    case False
    then show ?thesis using less.prems by (subst (1 2) bs_loop.simps) auto
  next
    case True
    define half where "half = len div 2"
    define mid where "mid = base + half"
    have half: "0 < half" "half < len" "mid < length xs"
      using True less.prems by (auto simp: half_def mid_def)
    have step: "bs_loop f xs base len =
        bs_loop f xs (if f (xs ! mid) = Greater then base else mid) (len - half)"
      using True by (subst bs_loop.simps) (simp add: Let_def half_def mid_def)
    show ?thesis
    proof (cases "f (xs ! mid) = Greater")
      case G: True
      have "f (xs ! i) = Greater" if "base + (len - half) \<le> i" "i < length xs" for i
      proof -
        have "mid \<le> i" using that half True unfolding mid_def half_def by linarith
        moreover have "f (xs ! mid) = Less \<or> f (xs ! i) = Greater" if "mid < i"
          using assms \<open>i < length xs\<close> that unfolding partitioned_def by blast
        ultimately show ?thesis using G by (cases "i = mid") auto
      qed
      then have "\<forall>i. base + (len - half) \<le> i \<and> i < length xs \<longrightarrow> f (xs ! i) = Greater"
        by blast
      then show ?thesis
        unfolding step if_P [OF G]
        by (intro less.IH) (use less.prems half in auto)
    next
      case nG: False
      have "f (xs ! i) = Less" if "i < mid" for i
        using that nG assms half unfolding partitioned_def by blast
      then have "\<forall>i < mid. f (xs ! i) = Less" by blast
      then show ?thesis
        unfolding step if_not_P [OF nG]
        by (intro less.IH) (use less.prems half in \<open>auto simp: mid_def\<close>)
    qed
  qed
qed

lemma partitioned_binary_search_by:
  assumes "partitioned f xs"
  shows "case binary_search_by f xs of
           Inr i \<Rightarrow> i < length xs \<and> f (xs ! i) = Equal
         | Inl i \<Rightarrow> i \<le> length xs \<and> (\<forall>j < i. f (xs ! j) = Less)
             \<and> (\<forall>j. i \<le> j \<and> j < length xs \<longrightarrow> f (xs ! j) = Greater)"
proof (cases "xs = []")
  case True
  then show ?thesis by (simp add: binary_search_by_def)
next
  case False
  define b where "b = bs_loop f xs 0 (length xs)"
  have lt: "b < length xs" using False bs_loop_bounds [of "length xs" 0 f xs] by (simp add: b_def)
  have "(\<forall>i < b. f (xs ! i) = Less) \<and> (\<forall>i. b < i \<and> i < length xs \<longrightarrow> f (xs ! i) = Greater)"
    unfolding b_def by (rule bs_loop_inv [OF assms]) (use False in auto)
  then have inv: "\<forall>i < b. f (xs ! i) = Less" "\<forall>i. b < i \<and> i < length xs \<longrightarrow> f (xs ! i) = Greater"
    by blast+
  have inv': "\<forall>i < Suc b. f (xs ! i) = Less" if "f (xs ! b) = Less"
    using inv(1) that less_Suc_eq by metis
  have inv'': "\<forall>i. b \<le> i \<and> i < length xs \<longrightarrow> f (xs ! i) = Greater" if "f (xs ! b) = Greater"
    using inv(2) that le_less by metis
  have "binary_search_by f xs =
      (case f (xs ! b) of Equal \<Rightarrow> Inr b | Less \<Rightarrow> Inl (Suc b) | Greater \<Rightarrow> Inl b)"
    unfolding binary_search_by_def b_def using False by (simp add: Let_def)
  with lt inv' inv'' inv show ?thesis
    by (cases "f (xs ! b)") (simp_all add: Suc_le_eq del: All_less_Suc)
qed

lemma partitioned_cmp: "sorted_wrt (<) xs \<Longrightarrow> partitioned (\<lambda>y. cmp y x) xs"
  by (fastforce simp: partitioned_def cmp_def sorted_wrt_iff_nth_less split: if_splits)

text \<open>Inserting at the miss index of a strictly sorted vector: the idiom the database uses
  for its list of chain IDs.\<close>

definition insert_sorted :: "'a::linorder \<Rightarrow> 'a list \<Rightarrow> 'a list" where
  "insert_sorted x xs = (case binary_search x xs of Inl idx \<Rightarrow> vec_insert idx x xs | Inr _ \<Rightarrow> xs)"

lemma sorted_wrt_vec_insert:
  assumes "sorted_wrt (<) xs" and "\<forall>j < i. xs ! j < x"
    and "\<forall>j. i \<le> j \<and> j < length xs \<longrightarrow> x < xs ! j" and "i \<le> length xs"
  shows "sorted_wrt (<) (vec_insert i (x :: 'a::linorder) xs)"
proof -
  have "\<forall>y \<in> set (take i xs). y < x" and "\<forall>y \<in> set (drop i xs). x < y"
    using assms by (auto simp: in_set_conv_nth)
  moreover have "sorted_wrt (<) (take i xs @ drop i xs)" using assms by simp
  ultimately show ?thesis unfolding vec_insert_def by (auto simp: sorted_wrt_append simp del: append_take_drop_id)
qed

lemma insert_sorted_correct:
  assumes "sorted_wrt (<) xs"
  shows "sorted_wrt (<) (insert_sorted x xs) \<and> set (insert_sorted x xs) = insert x (set xs)"
proof -
  note bs = partitioned_binary_search_by [OF partitioned_cmp [OF assms], of x]
  show ?thesis
  proof (cases "binary_search x xs")
    case (Inr i)
    with bs have "x \<in> set xs"
      by (auto simp: binary_search_def cmp_def split: if_splits)
    with Inr assms show ?thesis by (auto simp: insert_sorted_def)
  next
    case (Inl i)
    have less_iff: "cmp y x = Less \<longleftrightarrow> y < x" and gr_iff: "cmp y x = Greater \<longleftrightarrow> x < y" for y
      by (auto simp: cmp_def)
    from Inl bs have "i \<le> length xs" "\<forall>j < i. xs ! j < x"
        "\<forall>j. i \<le> j \<and> j < length xs \<longrightarrow> x < xs ! j"
      by (simp_all add: binary_search_def less_iff gr_iff)
    then show ?thesis using Inl sorted_wrt_vec_insert [OF assms] by (simp add: insert_sorted_def)
  qed
qed

subsection \<open>Big-endian encodings\<close>

text \<open>\<open>nat_be n v\<close> are the \<open>n\<close> low bytes of \<open>v\<close>, most significant first;
  \<open>be_val\<close> reads a byte string back.\<close>

fun nat_be :: "nat \<Rightarrow> nat \<Rightarrow> bytes" where
  "nat_be 0 v = []"
| "nat_be (Suc n) v = nat_be n (v div 256) @ [of_nat (v mod 256)]"

definition be_val :: "bytes \<Rightarrow> nat" where
  "be_val bs = foldl (\<lambda>acc b. acc * 256 + unat b) 0 bs"

definition u32_to_be_bytes :: "u32 \<Rightarrow> bytes" where
  "u32_to_be_bytes w = nat_be 4 (unat w)"

definition u32_from_be_bytes :: "bytes \<Rightarrow> u32" where
  "u32_from_be_bytes bs = of_nat (be_val bs)"

definition u64_to_be_bytes :: "u64 \<Rightarrow> bytes" where
  "u64_to_be_bytes w = nat_be 8 (unat w)"

definition u64_from_be_bytes :: "bytes \<Rightarrow> u64" where
  "u64_from_be_bytes bs = of_nat (be_val bs)"

definition u256_to_be_bytes :: "u256 \<Rightarrow> bytes" where
  "u256_to_be_bytes w = nat_be 32 (unat w)"

definition u256_from_be_bytes :: "bytes \<Rightarrow> u256" where
  "u256_from_be_bytes bs = of_nat (be_val bs)"

lemma length_nat_be [simp, byte_simps]: "length (nat_be n v) = n"
  by (induction n arbitrary: v) auto

lemma be_val_Nil [simp]: "be_val [] = 0"
  by (simp add: be_val_def)

lemma be_val_snoc [simp]: "be_val (bs @ [b]) = be_val bs * 256 + unat b"
  by (simp add: be_val_def)

lemma unat_byte: "unat (of_nat (v mod 256) :: u8) = v mod 256"
  by (simp add: unat_of_nat)

lemma be_val_nat_be: "be_val (nat_be n v) = v mod 256 ^ n"
proof (induction n arbitrary: v)
  case 0
  then show ?case by simp
next
  case (Suc n)
  have "v mod (256 * 256 ^ n) = 256 * (v div 256 mod 256 ^ n) + v mod 256"
    by (rule mod_mult2_eq)
  then show ?case by (simp add: Suc unat_byte algebra_simps)
qed

lemma nat_be_be_val: "nat_be (length bs) (be_val bs) = bs"
proof (induction bs rule: rev_induct)
  case Nil
  then show ?case by simp
next
  case (snoc b bs)
  have "unat b < 256" using unsigned_less [of b, where ?'a = nat] by simp
  then have "(be_val bs * 256 + unat b) div 256 = be_val bs"
    and "(be_val bs * 256 + unat b) mod 256 = unat b" by simp_all
  with snoc show ?case by simp
qed

lemma be_val_bound: "be_val bs < 256 ^ length bs"
proof -
  have "be_val bs = be_val bs mod 256 ^ length bs"
    using be_val_nat_be [of "length bs" "be_val bs"] by (simp add: nat_be_be_val)
  moreover have "\<dots> < 256 ^ length bs" by simp
  ultimately show ?thesis by linarith
qed

lemma be_val_Cons: "be_val (b # bs) = unat b * 256 ^ length bs + be_val bs"
  by (induction bs rule: rev_induct) (simp_all flip: append_Cons, simp_all add: be_val_def algebra_simps)

lemma be_val_inj: "length xs = length ys \<Longrightarrow> be_val xs = be_val ys \<Longrightarrow> xs = ys"
  by (metis nat_be_be_val)

text \<open>On strings of the same length, the lexicographic order is the numeric order.\<close>

lemma be_val_less: "length xs = length ys \<Longrightarrow> xs < ys \<longleftrightarrow> be_val xs < be_val ys"
proof (induction xs ys rule: list_induct2)
  case Nil
  then show ?case by simp
next
  case (Cons x xs y ys)
  have b: "be_val xs < 256 ^ length ys" "be_val ys < 256 ^ length ys"
    using be_val_bound [of xs] be_val_bound [of ys] Cons.hyps by simp_all
  consider "x < y" | "x = y" | "y < x" by fastforce
  then show ?case
  proof cases
    case 1
    then have "Suc (unat x) * 256 ^ length ys \<le> unat y * 256 ^ length ys"
      by (intro mult_right_mono) (simp_all add: word_less_nat_alt)
    with 1 b Cons show ?thesis by (simp add: be_val_Cons)
  next
    case 2
    with Cons show ?thesis by (simp add: be_val_Cons)
  next
    case 3
    then have "Suc (unat y) * 256 ^ length ys \<le> unat x * 256 ^ length ys"
      by (intro mult_right_mono) (simp_all add: word_less_nat_alt)
    with 3 b Cons show ?thesis by (auto simp: be_val_Cons)
  qed
qed

lemma length_to_be_bytes [simp, byte_simps]:
  "length (u32_to_be_bytes w) = 4"
  "length (u64_to_be_bytes x) = 8"
  "length (u256_to_be_bytes y) = 32"
  by (simp_all add: u32_to_be_bytes_def u64_to_be_bytes_def u256_to_be_bytes_def)

lemma from_to_be_bytes [simp, byte_simps]:
  "u32_from_be_bytes (u32_to_be_bytes w) = w"
  "u64_from_be_bytes (u64_to_be_bytes x) = x"
  "u256_from_be_bytes (u256_to_be_bytes y) = y"
  using unsigned_less [of w, where ?'a = nat] unsigned_less [of x, where ?'a = nat]
    unsigned_less [of y, where ?'a = nat]
  by (simp_all add: u32_to_be_bytes_def u32_from_be_bytes_def u64_to_be_bytes_def
      u64_from_be_bytes_def u256_to_be_bytes_def u256_from_be_bytes_def be_val_nat_be)

lemma unat_of_nat_be_val:
  "length bs = 4 \<Longrightarrow> unat (of_nat (be_val bs) :: u32) = be_val bs"
  "length bs = 8 \<Longrightarrow> unat (of_nat (be_val bs) :: u64) = be_val bs"
  "length bs = 32 \<Longrightarrow> unat (of_nat (be_val bs) :: u256) = be_val bs"
  using be_val_bound [of bs] by (simp_all add: unat_of_nat)

lemma to_from_be_bytes [byte_simps]:
  "length bs = 4 \<Longrightarrow> u32_to_be_bytes (u32_from_be_bytes bs) = bs"
  "length bs = 8 \<Longrightarrow> u64_to_be_bytes (u64_from_be_bytes bs) = bs"
  "length bs = 32 \<Longrightarrow> u256_to_be_bytes (u256_from_be_bytes bs) = bs"
  using nat_be_be_val [of bs]
  by (simp_all add: u32_to_be_bytes_def u32_from_be_bytes_def u64_to_be_bytes_def
      u64_from_be_bytes_def u256_to_be_bytes_def u256_from_be_bytes_def unat_of_nat_be_val)

lemma u64_to_be_bytes_inj [simp]: "u64_to_be_bytes x = u64_to_be_bytes y \<longleftrightarrow> x = y"
  by (metis from_to_be_bytes(2))

lemma u64_to_be_bytes_less [byte_simps]: "u64_to_be_bytes x < u64_to_be_bytes y \<longleftrightarrow> x < y"
proof -
  have "be_val (u64_to_be_bytes z) = unat z" for z
    using unsigned_less [of z, where ?'a = nat] by (simp add: u64_to_be_bytes_def be_val_nat_be)
  then show ?thesis by (simp add: be_val_less word_less_nat_alt)
qed

subsection \<open>Decimal text\<close>

definition digit_char :: "nat \<Rightarrow> char" where
  "digit_char k = ''0123456789'' ! k"

fun nat_to_string :: "nat \<Rightarrow> string" where
  "nat_to_string n = (if n < 10 then [digit_char n] else nat_to_string (n div 10) @ [digit_char (n mod 10)])"

declare nat_to_string.simps [simp del]

end
