(* ===== verification/Ranges.thy ===== *)
theory Ranges
  imports Bertha_Prelude
begin

section \<open>Block ranges (blockservice/src/utils/ranges.rs)\<close>

text \<open>
  The sorted vectors of inclusive block ranges that the metadata of the block database and the
  fetch, purge and import commands work on. The loops of \<open>canonicalize\<close> and
  \<open>subtract_range\<close> mutate the vector in place at an index; the model keeps the index
  and the vector operations. Shown: termination, the set each operation denotes, the three
  postconditions the trait documents (non-empty, non-overlapping, sorted), and that the
  result is the unique canonical representation of its set.
\<close>

datatype block_range = BlockRange (range_start: u64) (range_end: u64)

definition range_is_empty :: "block_range \<Rightarrow> bool" where
  "range_is_empty r \<longleftrightarrow> \<not> range_start r \<le> range_end r"

definition range_key :: "block_range \<Rightarrow> u64 \<times> u64" where
  "range_key r = (range_start r, range_end r)"

subsection \<open>Operations\<close>

function canonicalize_loop :: "block_range list \<Rightarrow> nat \<Rightarrow> block_range list" where
  "canonicalize_loop rs i =
     (if i < length rs then
        if range_is_empty (rs ! i) then canonicalize_loop (vec_remove i rs) i
        else
          let start = range_start (rs ! i); end' = range_end (rs ! i) in
          if i + 1 < length rs \<and> end' + 1 \<ge> range_start (rs ! (i + 1)) then
            canonicalize_loop
              (vec_remove (i + 1) (rs[i := BlockRange start (max end' (range_end (rs ! (i + 1))))])) i
          else canonicalize_loop rs (i + 1)
      else rs)"
  by pat_completeness auto
termination
  by (relation "measure (\<lambda>(rs, i). length rs - i)") auto

declare canonicalize_loop.simps [simp del]

definition canonicalize :: "block_range list \<Rightarrow> block_range list" where
  "canonicalize rs = canonicalize_loop (sort_key range_key rs) 0"

definition add_range :: "block_range list \<Rightarrow> block_range \<Rightarrow> block_range list" where
  "add_range rs new = canonicalize (rs @ [new])"

function subtract_loop :: "block_range list \<Rightarrow> nat \<Rightarrow> u64 \<Rightarrow> u64 \<Rightarrow> block_range list" where
  "subtract_loop rs i del_start del_end =
     (if i < length rs then
        let start = range_start (rs ! i); end' = range_end (rs ! i);
            c1 = cmp del_end start; c2 = cmp del_start end';
            c3 = cmp del_start start; c4 = cmp del_end end' in
        if c1 = Less \<or> c2 = Greater then subtract_loop rs (i + 1) del_start del_end
        else if (c3 = Less \<or> c3 = Equal) \<and> (c4 = Greater \<or> c4 = Equal) then
          subtract_loop (vec_remove i rs) i del_start del_end
        else if c3 = Greater \<and> (c4 = Greater \<or> c4 = Equal) then
          subtract_loop (rs[i := BlockRange start (del_start - 1)]) (i + 1) del_start del_end
        else if (c3 = Less \<or> c3 = Equal) \<and> c4 = Less then
          subtract_loop (rs[i := BlockRange (del_end + 1) end']) (i + 1) del_start del_end
        else
          subtract_loop
            (vec_insert (i + 1) (BlockRange (del_end + 1) end') (rs[i := BlockRange start (del_start - 1)]))
            (i + 2) del_start del_end
      else rs)"
  by pat_completeness auto
termination
  by (relation "measure (\<lambda>(rs, i, ds, de). length rs - i)") auto

declare subtract_loop.simps [simp del]

definition subtract_range :: "block_range list \<Rightarrow> block_range \<Rightarrow> block_range list" where
  "subtract_range rs del = subtract_loop (canonicalize rs) 0 (range_start del) (range_end del)"

fun intersect_segments :: "block_range \<Rightarrow> block_range list \<Rightarrow> block_range list \<Rightarrow> block_range list" where
  "intersect_segments target [] segments = segments"
| "intersect_segments target (c # cs) segments =
     (if range_start c \<le> range_end target \<and> range_end c \<ge> range_start target then
        intersect_segments target cs
          (segments @ [BlockRange (max (range_start c) (range_start target))
                                  (min (range_end c) (range_end target))])
      else intersect_segments target cs segments)"

definition intersect_ranges :: "block_range \<Rightarrow> block_range list \<Rightarrow> block_range list" where
  "intersect_ranges target candidates = canonicalize (intersect_segments target candidates [])"

definition subtract_ranges :: "block_range \<Rightarrow> block_range list \<Rightarrow> block_range list" where
  "subtract_ranges minuend subtrahend = foldl subtract_range [minuend] subtrahend"

subsection \<open>Set semantics and the documented postconditions\<close>

definition range_set :: "block_range \<Rightarrow> u64 set" where
  "range_set r = {range_start r .. range_end r}"

definition ranges_set :: "block_range list \<Rightarrow> u64 set" where
  "ranges_set rs = (\<Union>r \<in> set rs. range_set r)"

text \<open>Sorted, non-empty, non-overlapping and with a gap between neighbours.\<close>

definition canonical :: "block_range list \<Rightarrow> bool" where
  "canonical rs \<longleftrightarrow>
     (\<forall>r \<in> set rs. range_start r \<le> range_end r) \<and>
     sorted_wrt (\<lambda>r q. unat (range_end r) + 1 < unat (range_start q)) rs"

lemma ranges_set_simps [simp, range_simps]:
  "ranges_set [] = {}"
  "ranges_set (r # rs) = range_set r \<union> ranges_set rs"
  "ranges_set (rs @ qs) = ranges_set rs \<union> ranges_set qs"
  by (auto simp: ranges_set_def)

lemma range_set_BlockRange [simp, range_simps]: "range_set (BlockRange s e) = {s .. e}"
  by (simp add: range_set_def)

lemma range_set_empty_iff [simp]: "range_set r = {} \<longleftrightarrow> range_is_empty r"
  by (auto simp: range_set_def range_is_empty_def)

lemma ranges_set_sort [simp]: "ranges_set (sort_key f rs) = ranges_set rs"
  by (simp add: ranges_set_def)

lemma canonical_Nil [simp]: "canonical []"
  by (simp add: canonical_def)

lemma canonical_Cons:
  "canonical (r # rs) \<longleftrightarrow> range_start r \<le> range_end r \<and> canonical rs \<and>
     (\<forall>q \<in> set rs. unat (range_end r) + 1 < unat (range_start q))"
  by (auto simp: canonical_def)

lemma unat_Suc_word: "(x :: 'a::len word) \<noteq> - 1 \<Longrightarrow> unat (x + 1) = Suc (unat x)"
  using unatSuc [of x] by (simp add: add.commute eq_neg_iff_add_eq_0)

lemma unat_pred_word: "0 < (x :: 'a::len word) \<Longrightarrow> unat (x - 1) = unat x - 1"
  by (metis unat_minus_one word_not_simps(1))

lemmas word_nat_order = word_le_nat_alt word_less_nat_alt

subsection \<open>The merge loop of canonicalize\<close>

text \<open>What the loop computes on the part of the vector at and after its index.\<close>

fun merge_ranges :: "block_range list \<Rightarrow> block_range list" where
  "merge_ranges [] = []"
| "merge_ranges [r] = (if range_is_empty r then [] else [r])"
| "merge_ranges (r # q # rs) =
     (if range_is_empty r then merge_ranges (q # rs)
      else if range_end r + 1 \<ge> range_start q then
        merge_ranges (BlockRange (range_start r) (max (range_end r) (range_end q)) # rs)
      else r # merge_ranges (q # rs))"

lemma canonicalize_loop_eq: "canonicalize_loop (ps @ rs) (length ps) = ps @ merge_ranges rs"
proof (induction rs arbitrary: ps rule: merge_ranges.induct)
  case 1
  then show ?case by (subst canonicalize_loop.simps) simp
next
  case (2 r)
  have "canonicalize_loop (ps @ [r]) (Suc (length ps)) = ps @ [r]"
    by (subst canonicalize_loop.simps) simp
  moreover have "canonicalize_loop ps (length ps) = ps"
    by (subst canonicalize_loop.simps) simp
  ultimately show ?case by (subst canonicalize_loop.simps) (simp add: Let_def)
next
  case (3 r q rs)
  have "canonicalize_loop ((ps @ [r]) @ q # rs) (length (ps @ [r])) = (ps @ [r]) @ merge_ranges (q # rs)"
    if "\<not> range_is_empty r" "\<not> range_end r + 1 \<ge> range_start q"
    using 3(3) [OF that] .
  with 3(1,2) show ?case
    by (subst canonicalize_loop.simps) (simp add: Let_def nth_append list_update_append)
qed

lemma canonicalize_eq: "canonicalize rs = merge_ranges (sort_key range_key rs)"
  using canonicalize_loop_eq [of "[]"] by (simp add: canonicalize_def)

lemma merge_pair_set:
  assumes "range_start r \<le> range_start q" and "\<not> range_is_empty r"
    and "range_end r + 1 \<ge> range_start q"
  shows "{range_start r .. max (range_end r) (range_end q)} = range_set r \<union> range_set q"
proof (cases "range_end r = - 1")
  case True
  with assms show ?thesis by (auto simp: range_set_def)
next
  case False
  have "x \<in> {range_start r .. max (range_end r) (range_end q)} \<longleftrightarrow> x \<in> range_set r \<union> range_set q" for x
    using assms unfolding range_set_def range_is_empty_def word_nat_order unat_Suc_word [OF False]
    by (auto simp: max_def word_nat_order split: if_splits)
  then show ?thesis by blast
qed

lemma merge_ranges_set:
  "sorted (map range_start rs) \<Longrightarrow> ranges_set (merge_ranges rs) = ranges_set rs"
proof (induction rs rule: merge_ranges.induct)
  case (3 r q rs)
  then show ?case
    using merge_pair_set [of r q] by (auto simp flip: range_set_empty_iff)
qed (auto simp flip: range_set_empty_iff)

lemma merge_ranges_sorted:
  "sorted (map range_start rs) \<Longrightarrow>
     (\<forall>x \<in> set (merge_ranges rs). range_start x \<le> range_end x \<and> range_start x \<in> range_start ` set rs) \<and>
     sorted (map range_start (merge_ranges rs))"
proof (induction rs rule: merge_ranges.induct)
  case (3 r q rs)
  consider (empty) "range_is_empty r" | (merge) "\<not> range_is_empty r" "range_end r + 1 \<ge> range_start q"
    | (skip) "\<not> range_is_empty r" "\<not> range_end r + 1 \<ge> range_start q" by blast
  then show ?case
  proof cases
    case empty
    then show ?thesis using "3.IH"(1) "3.prems" by auto
  next
    case merge
    then show ?thesis using "3.IH"(2) "3.prems" by auto
  next
    case skip
    then have IH: "\<forall>x \<in> set (merge_ranges (q # rs)). range_start x \<le> range_end x \<and>
        range_start x \<in> range_start ` set (q # rs)" "sorted (map range_start (merge_ranges (q # rs)))"
      using "3.IH"(3) "3.prems" by auto
    then have "\<forall>x \<in> set (merge_ranges (q # rs)). range_start r \<le> range_start x"
      using "3.prems" by auto
    with IH skip show ?thesis by (auto simp: range_is_empty_def)
  qed
qed (auto simp: range_is_empty_def)

lemma merge_ranges_canonical:
  "sorted (map range_start rs) \<Longrightarrow> \<forall>r \<in> set rs. range_end r \<noteq> u64_max \<Longrightarrow> canonical (merge_ranges rs)"
proof (induction rs rule: merge_ranges.induct)
  case (3 r q rs)
  consider (empty) "range_is_empty r" | (merge) "\<not> range_is_empty r" "range_end r + 1 \<ge> range_start q"
    | (skip) "\<not> range_is_empty r" "\<not> range_end r + 1 \<ge> range_start q" by blast
  then show ?case
  proof cases
    case empty
    then show ?thesis using 3 by simp
  next
    case merge
    then show ?thesis using 3 by (simp add: max_def)
  next
    case skip
    have "unat (range_end r) + 1 < unat (range_start x)" if "x \<in> set (merge_ranges (q # rs))" for x
    proof -
      have "sorted (map range_start (q # rs))" using "3.prems"(1) by simp
      then have "range_start x \<in> range_start ` set (q # rs)"
        using merge_ranges_sorted that by blast
      then obtain y where "y \<in> set (q # rs)" and y: "range_start x = range_start y"
        by blast
      then have "range_start q \<le> range_start y" using "3.prems"(1) by auto
      then show ?thesis
        using skip(2) y "3.prems"(2) unat_Suc_word [of "range_end r"] by (simp add: word_nat_order)
    qed
    moreover have "canonical (merge_ranges (q # rs))"
      using "3.IH"(3) [OF skip] "3.prems" by simp
    ultimately show ?thesis
      using skip unfolding range_is_empty_def
      by (simp only: merge_ranges.simps range_is_empty_def if_False canonical_Cons) simp
  qed
qed (auto simp: canonical_def range_is_empty_def)

lemma sorted_start_sort: "sorted (map range_start (sort_key range_key rs))"
proof -
  have "sorted_wrt (\<lambda>x y. range_key x \<le> range_key y) (sort_key range_key rs)"
    using sorted_sort_key [of range_key rs] by (simp add: sorted_map)
  then have "sorted_wrt (\<lambda>x y. range_start x \<le> range_start y) (sort_key range_key rs)"
    by (rule sorted_wrt_mono_rel [rotated]) (auto simp: range_key_def less_eq_prod_def)
  then show ?thesis by (simp add: sorted_map)
qed

lemma ranges_set_canonicalize [simp, range_simps]: "ranges_set (canonicalize rs) = ranges_set rs"
  by (simp add: canonicalize_eq merge_ranges_set sorted_start_sort)

lemma canonical_canonicalize:
  "\<forall>r \<in> set rs. range_end r \<noteq> u64_max \<Longrightarrow> canonical (canonicalize rs)"
  by (simp add: canonicalize_eq merge_ranges_canonical sorted_start_sort)

lemma canonicalize_nonempty_sorted:
  "(\<forall>r \<in> set (canonicalize rs). range_start r \<le> range_end r) \<and> sorted (map range_start (canonicalize rs))"
  using merge_ranges_sorted [OF sorted_start_sort] by (simp add: canonicalize_eq)

subsection \<open>The loop of subtract_range\<close>

fun subtract_one :: "u64 \<Rightarrow> u64 \<Rightarrow> block_range \<Rightarrow> block_range list" where
  "subtract_one ds de (BlockRange s e) =
     (if de < s \<or> e < ds then [BlockRange s e]
      else (if s < ds then [BlockRange s (ds - 1)] else []) @ (if de < e then [BlockRange (de + 1) e] else []))"

lemma subtract_loop_eq:
  "subtract_loop (ps @ rs) (length ps) ds de = ps @ concat (map (subtract_one ds de) rs)"
proof (induction rs arbitrary: ps ds de)
  case Nil
  then show ?case by (subst subtract_loop.simps) simp
next
  case (Cons r rs)
  obtain s e where r: "r = BlockRange s e" by (cases r)
  have one: "subtract_loop (ps @ x # rs) (Suc (length ps)) ds de =
      ps @ x # concat (map (subtract_one ds de) rs)" for x ds de
    using Cons.IH [of "ps @ [x]"] by simp
  have two: "subtract_loop (ps @ x # y # rs) (Suc (Suc (length ps))) ds de =
      ps @ x # y # concat (map (subtract_one ds de) rs)" for x y ds de
    using Cons.IH [of "ps @ [x, y]"] by simp
  show ?case
    by (subst subtract_loop.simps) (auto simp: r Let_def cmp_def Cons.IH one two)
qed

lemma subtract_range_eq:
  "subtract_range rs del =
     concat (map (subtract_one (range_start del) (range_end del)) (canonicalize rs))"
  using subtract_loop_eq [of "[]"] by (simp add: subtract_range_def)

lemma subtract_one_set:
  assumes "ds \<le> de"
  shows "ranges_set (subtract_one ds de r) = range_set r - {ds .. de}"
proof (cases r)
  case (BlockRange s e)
  have lo: "{s .. ds - 1} = {s ..< ds}" if "s < ds"
    using that by (auto simp: word_nat_order unat_pred_word)
  have hi: "{de + 1 .. e} = {de <.. e}" if "de < e"
  proof -
    have "de \<noteq> - 1" using that by auto
    then show ?thesis by (auto simp: word_nat_order unat_Suc_word)
  qed
  have "ranges_set (subtract_one ds de r) =
      (if de < s \<or> e < ds then {s .. e}
       else (if s < ds then {s ..< ds} else {}) \<union> (if de < e then {de <.. e} else {}))"
    using lo hi by (simp add: BlockRange)
  also have "\<dots> = {s .. e} - {ds .. de}" using assms by auto
  finally show ?thesis by (simp add: BlockRange)
qed

lemma ranges_set_concat_map: "ranges_set (concat (map f rs)) = (\<Union>r \<in> set rs. ranges_set (f r))"
  by (induction rs) auto

lemma ranges_set_subtract_range:
  "range_start del \<le> range_end del \<Longrightarrow> ranges_set (subtract_range rs del) = ranges_set rs - range_set del"
proof -
  assume "range_start del \<le> range_end del"
  then have "ranges_set (subtract_range rs del) = (\<Union>r \<in> set (canonicalize rs). range_set r) - range_set del"
    by (auto simp: subtract_range_eq ranges_set_concat_map subtract_one_set range_set_def)
  then show ?thesis by (simp flip: ranges_set_def)
qed

lemma subtract_one_bounds:
  "x \<in> set (subtract_one ds de r) \<Longrightarrow> range_start r \<le> range_end r \<Longrightarrow>
     range_start r \<le> range_start x \<and> range_start x \<le> range_end x \<and> range_end x \<le> range_end r"
proof (cases r)
  case (BlockRange s e)
  assume x: "x \<in> set (subtract_one ds de r)" and ne: "range_start r \<le> range_end r"
  have "unat (de + 1) = Suc (unat de)" if "de < e"
    using that by (intro unat_Suc_word) auto
  moreover have "unat (ds - 1) = unat ds - 1" if "s < ds"
    using that by (intro unat_pred_word) (auto simp: word_nat_order)
  ultimately show ?thesis
    using x ne BlockRange by (auto simp: word_nat_order split: if_splits)
qed

lemma canonical_subtract_one:
  assumes "range_start r \<le> range_end r" and "ds \<le> de"
  shows "canonical (subtract_one ds de r)"
proof (cases r)
  case (BlockRange s e)
  have "unat (de + 1) = Suc (unat de)" if "de < e"
    using that by (intro unat_Suc_word) auto
  moreover have "unat (ds - 1) = unat ds - 1" if "s < ds"
    using that by (intro unat_pred_word) (auto simp: word_nat_order)
  ultimately show ?thesis
    using assms BlockRange by (auto simp: word_nat_order canonical_Cons)
qed

lemma canonical_append:
  "canonical (rs @ qs) \<longleftrightarrow> canonical rs \<and> canonical qs \<and>
     (\<forall>r \<in> set rs. \<forall>q \<in> set qs. unat (range_end r) + 1 < unat (range_start q))"
  by (auto simp: canonical_def sorted_wrt_append)

lemma canonical_subtract_map:
  assumes "canonical rs" and "ds \<le> de"
  shows "canonical (concat (map (subtract_one ds de) rs))"
  using assms(1)
proof (induction rs)
  case Nil
  then show ?case by simp
next
  case (Cons r rs)
  have "unat (range_end x) + 1 < unat (range_start y)"
    if x: "x \<in> set (subtract_one ds de r)" and q: "q \<in> set rs" and y: "y \<in> set (subtract_one ds de q)" for x q y
  proof -
    have "range_end x \<le> range_end r" and "range_start q \<le> range_start y"
      using subtract_one_bounds x y q Cons.prems by (auto simp: canonical_def)
    moreover have "unat (range_end r) + 1 < unat (range_start q)"
      using Cons.prems q by (auto simp: canonical_Cons)
    ultimately show ?thesis by (simp add: word_nat_order)
  qed
  with Cons assms(2) show ?case
    by (auto simp: canonical_append canonical_Cons intro!: canonical_subtract_one)
qed

subsection \<open>Canonical lists represent their set uniquely\<close>

lemma canonical_first:
  assumes "canonical (r # rs)"
  shows "range_start r \<in> ranges_set (r # rs)"
    and "x \<in> ranges_set (r # rs) \<Longrightarrow> range_start r \<le> x"
    and "x \<in> ranges_set rs \<Longrightarrow> unat (range_end r) + 1 < unat x"
proof -
  show later: "unat (range_end r) + 1 < unat x" if "x \<in> ranges_set rs" for x
  proof -
    obtain q where "q \<in> set rs" "range_start q \<le> x"
      using \<open>x \<in> ranges_set rs\<close> by (auto simp: ranges_set_def range_set_def)
    then show ?thesis using assms by (fastforce simp: canonical_Cons word_nat_order)
  qed
  show "range_start r \<in> ranges_set (r # rs)"
    using assms by (auto simp: canonical_Cons range_set_def)
  show "range_start r \<le> x" if "x \<in> ranges_set (r # rs)"
    using that later [of x] assms by (auto simp: range_set_def canonical_Cons word_nat_order)
qed

lemma canonical_end:
  assumes "canonical (r # rs)" and "canonical (q # qs)" and "range_start r = range_start q"
    and "ranges_set (r # rs) = ranges_set (q # qs)"
  shows "range_end r \<le> range_end q"
proof (rule ccontr)
  assume "\<not> range_end r \<le> range_end q"
  then have lt: "range_end q < range_end r" by simp
  then have "range_end q \<noteq> - 1" by auto
  then have suc: "unat (range_end q + 1) = Suc (unat (range_end q))" by (rule unat_Suc_word)
  have "range_start q \<le> range_end q" using assms(2) by (simp add: canonical_Cons)
  then have "range_end q + 1 \<in> range_set r"
    using lt suc assms(3) by (auto simp: range_set_def word_nat_order)
  then have "range_end q + 1 \<in> ranges_set (q # qs)" using assms(4) by auto
  moreover have "range_end q + 1 \<notin> range_set q" using suc by (simp add: range_set_def word_nat_order)
  ultimately have "unat (range_end q) + 1 < unat (range_end q + 1)"
    using canonical_first(3) [OF assms(2)] by auto
  with suc show False by simp
qed

lemma canonical_unique:
  "canonical rs \<Longrightarrow> canonical qs \<Longrightarrow> ranges_set rs = ranges_set qs \<Longrightarrow> rs = qs"
proof (induction rs arbitrary: qs)
  case Nil
  then have "qs = q # qs' \<Longrightarrow> False" for q qs'
    using canonical_first(1) [of q qs'] by (simp add: range_set_def range_is_empty_def)
  then show ?case by (cases qs) auto
next
  case (Cons r rs)
  have "ranges_set (r # rs) \<noteq> {}" using canonical_first(1) [OF Cons.prems(1)] by blast
  with Cons.prems(3) obtain q qs' where qs: "qs = q # qs'" by (cases qs) auto
  note c = Cons.prems(1) Cons.prems(2) [unfolded qs] and eq = Cons.prems(3) [unfolded qs]
  have start: "range_start r = range_start q"
    using canonical_first(1,2) [OF c(1)] canonical_first(1,2) [OF c(2)] eq
    by (intro antisym) auto
  have "range_end r = range_end q"
    using canonical_end [OF c start eq] canonical_end [OF c(2,1) start [symmetric] eq [symmetric]] by simp
  with start have rq: "r = q" by (simp add: block_range.expand)
  have "ranges_set rs = ranges_set (r # rs) - range_set r" if "canonical (r # rs)" for r rs
    using canonical_first(3) [OF that] by (force simp: range_set_def word_nat_order)
  then have "ranges_set rs = ranges_set qs'" using c eq rq by metis
  with Cons.IH c rq qs show ?case by (auto simp: canonical_Cons)
qed

subsection \<open>Ranges that end at the largest block number\<close>

lemma no_max_iff: "(\<forall>r \<in> set rs. range_end r \<noteq> u64_max) \<longleftrightarrow> u64_max \<notin> ranges_set rs"
proof -
  have "range_end r = u64_max \<longleftrightarrow> u64_max \<in> range_set r" for r
    by (auto simp: range_set_def)
  then show ?thesis by (auto simp: ranges_set_def)
qed

lemma merge_ranges_canonical_id: "canonical rs \<Longrightarrow> merge_ranges rs = rs"
proof (induction rs rule: merge_ranges.induct)
  case (3 r q rs)
  have gap: "unat (range_end r) + 1 < unat (range_start q)" using "3.prems" by (simp add: canonical_Cons)
  then have "range_end r \<noteq> - 1" using unsigned_less [of "range_start q", where ?'a = nat] by (auto simp: less_Suc_eq)
  then have "\<not> range_end r + 1 \<ge> range_start q" using gap by (simp add: word_nat_order unat_Suc_word)
  with 3 show ?case by (simp add: canonical_Cons range_is_empty_def)
qed (auto simp: canonical_def range_is_empty_def)

lemma canonicalize_id: "canonical rs \<Longrightarrow> canonicalize rs = rs"
proof -
  assume c: "canonical rs"
  then have "sorted_wrt (\<lambda>r q. range_key r \<le> range_key q) rs"
    unfolding canonical_def
    by (auto simp: range_key_def word_nat_order less_eq_prod_def elim!: sorted_wrt_mono_rel [rotated])
  then have "sort_key range_key rs = rs"
    by (intro sort_key_id_if_sorted) (simp add: sorted_map)
  with c show ?thesis by (simp add: canonicalize_eq merge_ranges_canonical_id)
qed

lemma canonical_canonicalize_iff:
  "u64_max \<notin> ranges_set rs \<Longrightarrow> canonical (canonicalize rs)"
  using canonical_canonicalize no_max_iff by blast

lemma canonical_subtract_range:
  "canonical rs \<Longrightarrow> range_start del \<le> range_end del \<Longrightarrow> canonical (subtract_range rs del)"
  by (simp add: subtract_range_eq canonicalize_id canonical_subtract_map)

lemma canonical_subtract_ranges:
  "canonical rs \<Longrightarrow> \<forall>d \<in> set ds. range_start d \<le> range_end d \<Longrightarrow>
     canonical (foldl subtract_range rs ds) \<and> ranges_set (foldl subtract_range rs ds) = ranges_set rs - ranges_set ds"
  by (induction ds arbitrary: rs) (auto simp: canonical_subtract_range ranges_set_subtract_range)

lemma ranges_set_add_range [simp, range_simps]:
  "ranges_set (add_range rs r) = ranges_set rs \<union> range_set r"
  by (simp add: add_range_def)

lemma canonical_add_range:
  "u64_max \<notin> ranges_set rs \<union> range_set r \<Longrightarrow> canonical (add_range rs r)"
  by (simp add: add_range_def canonical_canonicalize_iff)

lemma ranges_set_foldl_add_range:
  "ranges_set (foldl add_range rs qs) = ranges_set rs \<union> ranges_set qs"
  by (induction qs arbitrary: rs) auto

definition nonempty_ranges :: "block_range list \<Rightarrow> bool" where
  "nonempty_ranges rs \<longleftrightarrow> (\<forall>r \<in> set rs. range_start r \<le> range_end r)"

lemma nonempty_ranges_Nil [simp]: "nonempty_ranges []"
  by (simp add: nonempty_ranges_def)

lemma nonempty_ranges_add_range [simp]: "nonempty_ranges (add_range rs r)"
  using canonicalize_nonempty_sorted by (simp add: nonempty_ranges_def add_range_def)

lemma nonempty_ranges_foldl_add_range: "nonempty_ranges rs \<Longrightarrow> nonempty_ranges (foldl add_range rs qs)"
  by (induction qs arbitrary: rs) simp_all

lemma nonempty_ranges_subtract_range [simp]: "nonempty_ranges (subtract_range rs del)"
  using canonicalize_nonempty_sorted [of rs] subtract_one_bounds
  by (fastforce simp: nonempty_ranges_def subtract_range_eq)

lemma intersect_segments_set:
  "ranges_set (intersect_segments t cs segs) = ranges_set segs \<union> (range_set t \<inter> ranges_set cs)"
proof (induction cs arbitrary: segs)
  case Nil
  then show ?case by simp
next
  case (Cons c cs)
  have "range_set t \<inter> range_set c =
      (if range_start c \<le> range_end t \<and> range_end c \<ge> range_start t
       then {max (range_start c) (range_start t) .. min (range_end c) (range_end t)} else {})"
    by (auto simp: range_set_def max.commute min.commute)
  with Cons show ?case by auto
qed

subsection \<open>Properties\<close>

text \<open>C29: \<open>canonicalize\<close> returns the canonical representation of the union of its
  ranges: non-empty, sorted, non-overlapping and non-adjacent, covering the same block numbers,
  and no other canonical vector covers them. The block number \<open>u64::MAX\<close> must not be
  covered, since \<open>end + 1\<close> wraps there.\<close>

theorem canonicalize_correct:
  assumes "u64_max \<notin> ranges_set rs"
  shows "canonical (canonicalize rs) \<and> ranges_set (canonicalize rs) = ranges_set rs \<and>
    (\<forall>qs. canonical qs \<and> ranges_set qs = ranges_set rs \<longrightarrow> qs = canonicalize rs)"
proof -
  note c = canonical_canonicalize_iff [OF assms]
  have "qs = canonicalize rs" if "canonical qs" and "ranges_set qs = ranges_set rs" for qs
    by (rule canonical_unique [OF that(1) c]) (simp add: that(2))
  with c ranges_set_canonicalize show ?thesis by blast
qed

theorem canonicalize_correct_witness:
  "canonical (canonicalize [BlockRange 7 9, BlockRange 1 3, BlockRange 6 2, BlockRange 4 4]) \<and>
   canonicalize [BlockRange 7 9, BlockRange 1 3, BlockRange 6 2, BlockRange 4 4]
     = [BlockRange 1 4, BlockRange 7 9]"
proof -
  have "u64_max \<notin> ranges_set [BlockRange 7 9, BlockRange 1 3, BlockRange 6 2, BlockRange 4 4]"
    by simp
  from canonicalize_correct [OF this]
  have "canonical (canonicalize [BlockRange 7 9, BlockRange 1 3, BlockRange 6 2, BlockRange 4 4])"
    by blast
  moreover have "canonicalize [BlockRange 7 9, BlockRange 1 3, BlockRange 6 2, BlockRange 4 4]
     = [BlockRange 1 4, BlockRange 7 9]" by code_simp
  ultimately show ?thesis by blast
qed

text \<open>\<open>subtract_range\<close> removes exactly the block numbers of a non-empty deletion
  range from a canonical vector and leaves it canonical, also where a range ends at
  \<open>u64::MAX\<close>.\<close>

theorem subtract_range_correct:
  assumes "canonical rs" and "range_start del \<le> range_end del"
  shows "canonical (subtract_range rs del) \<and>
    ranges_set (subtract_range rs del) = ranges_set rs - range_set del"
  using assms by (simp add: canonical_subtract_range ranges_set_subtract_range)

theorem subtract_range_correct_witness:
  "canonical (subtract_range [BlockRange 1 10, BlockRange 20 u64_max] (BlockRange 5 30)) \<and>
   subtract_range [BlockRange 1 10, BlockRange 20 u64_max] (BlockRange 5 30)
     = [BlockRange 1 4, BlockRange 31 u64_max]"
proof -
  have "canonical [BlockRange 1 10, BlockRange 20 u64_max]" by (simp add: canonical_def)
  moreover have "range_start (BlockRange 5 30) \<le> range_end (BlockRange 5 30)" by simp
  ultimately have "canonical (subtract_range [BlockRange 1 10, BlockRange 20 u64_max] (BlockRange 5 30))"
    using subtract_range_correct by blast
  moreover have "subtract_range [BlockRange 1 10, BlockRange 20 u64_max] (BlockRange 5 30)
     = [BlockRange 1 4, BlockRange 31 u64_max]" by code_simp
  ultimately show ?thesis by blast
qed

text \<open>C30: \<open>intersect_ranges\<close> covers exactly the block numbers of the target that some
  candidate covers, and \<open>subtract_ranges\<close> exactly those of the minuend that no
  subtrahend covers; both results are canonical.\<close>

theorem intersect_subtract_ranges_correct:
  assumes "range_start t \<le> range_end t" and "u64_max \<notin> range_set t"
    and "\<forall>c \<in> set cs. range_start c \<le> range_end c"
  shows "canonical (intersect_ranges t cs) \<and> ranges_set (intersect_ranges t cs) = range_set t \<inter> ranges_set cs \<and>
    canonical (subtract_ranges t cs) \<and> ranges_set (subtract_ranges t cs) = range_set t - ranges_set cs"
proof -
  have "canonical [t]" using assms(1) by (simp add: canonical_def)
  with canonical_subtract_ranges assms(3) have
    "canonical (subtract_ranges t cs) \<and> ranges_set (subtract_ranges t cs) = range_set t - ranges_set cs"
    by (auto simp: subtract_ranges_def)
  moreover have "u64_max \<notin> ranges_set (intersect_segments t cs [])"
    using assms(2) by (simp add: intersect_segments_set)
  ultimately show ?thesis
    by (simp add: intersect_ranges_def canonical_canonicalize_iff intersect_segments_set)
qed

theorem intersect_subtract_ranges_correct_witness:
  "intersect_ranges (BlockRange 3 8) [BlockRange 1 4, BlockRange 6 20] = [BlockRange 3 4, BlockRange 6 8] \<and>
   subtract_ranges (BlockRange 3 8) [BlockRange 1 4, BlockRange 6 20] = [BlockRange 5 5] \<and>
   canonical (subtract_ranges (BlockRange 3 8) [BlockRange 1 4, BlockRange 6 20])"
proof -
  have "range_start (BlockRange 3 8) \<le> range_end (BlockRange 3 8)"
    and "u64_max \<notin> range_set (BlockRange 3 8)"
    and "\<forall>c \<in> set [BlockRange 1 4, BlockRange 6 20]. range_start c \<le> range_end c" by simp_all
  from intersect_subtract_ranges_correct [OF this]
  have "canonical (subtract_ranges (BlockRange 3 8) [BlockRange 1 4, BlockRange 6 20])" by blast
  moreover have "intersect_ranges (BlockRange 3 8) [BlockRange 1 4, BlockRange 6 20]
      = [BlockRange 3 4, BlockRange 6 8]" by code_simp
  moreover have "subtract_ranges (BlockRange 3 8) [BlockRange 1 4, BlockRange 6 20] = [BlockRange 5 5]"
    by code_simp
  ultimately show ?thesis by blast
qed


text \<open>An inverted deletion range is not a no-op: it splits the range that holds both of
  its ends into two overlapping ones, against the documented postcondition.\<close>

theorem subtract_range_inverted:
  "subtract_range [BlockRange 0 10] (BlockRange 5 3) = [BlockRange 0 4, BlockRange 4 10]"
  by code_simp

end
