(* ===== verification/Db_Keys.thy ===== *)
theory Db_Keys
  imports Ranges
begin

section \<open>Errors, keys and metadata encodings of the block database\<close>

text \<open>
  The error type of the service (blockservice/src/error.rs) and the key/value layout of the
  block database (the second half of blockservice/src/db/blockdb.rs): global metadata under
  2-byte keys, chain metadata under 10-byte keys, blocks under 17-byte keys, integers in
  big-endian order. Shown: the three key spaces are disjoint and every key function is
  injective; the byte order of block keys is the order of (chain, block number) and all
  metadata keys precede all block keys, which is what iteration over a chain relies on; the
  metadata encodings round trip and reject every other length.

  Error texts are constructors that carry the values the code formats into them.
\<close>

subsection \<open>Errors\<close>

datatype app_dir_error =
    NotFound string string
  | CreateFailed string string

datatype storage_message =
    AlreadyInitialized
  | VersionNotFound
  | VersionNotSupported u64 u64
  | InvalidBlockRange u64 u64
  | UnexpectedKey bytes
  | InvalidVersionLength nat
  | InvalidChainIdsLength nat
  | InvalidBlockRangesLength nat
  | RocksDbMessage string

datatype error =
    AppDir app_dir_error
  | StorageLayer storage_message
  | Protobuf string
  | TypeConversion
  | Io string
  | Config string

subsection \<open>Keys\<close>

definition VERSION_KEY :: bytes where
  "VERSION_KEY = [0x00, 0x00]"

definition CURRENT_VERSION :: u64 where
  "CURRENT_VERSION = 3"

definition CHAIN_IDS_KEY :: bytes where
  "CHAIN_IDS_KEY = [0x00, 0x01]"

definition make_block_ranges_key :: "u64 \<Rightarrow> bytes" where
  "make_block_ranges_key chain_id = [0x01] @ u64_to_be_bytes chain_id @ [0x00]"

definition make_rules_update_heights_key :: "u64 \<Rightarrow> bytes" where
  "make_rules_update_heights_key chain_id = [0x01] @ u64_to_be_bytes chain_id @ [0x01]"

definition make_corrections_key :: "u64 \<Rightarrow> bytes" where
  "make_corrections_key chain_id = [0x01] @ u64_to_be_bytes chain_id @ [0x02]"

definition make_failed_bundles_key :: "u64 \<Rightarrow> bytes" where
  "make_failed_bundles_key chain_id = [0x01] @ u64_to_be_bytes chain_id @ [0x03]"

definition make_block_key :: "u64 \<Rightarrow> u64 \<Rightarrow> bytes" where
  "make_block_key chain_id block_number =
     [0x02] @ u64_to_be_bytes chain_id @ u64_to_be_bytes block_number"

subsection \<open>Encodings of the metadata values\<close>

definition serialize_version :: "u64 \<Rightarrow> bytes" where
  "serialize_version version = u64_to_be_bytes version"

definition deserialize_version :: "bytes \<Rightarrow> error + u64" where
  "deserialize_version data =
     (if length data \<noteq> 8 then Inl (StorageLayer (InvalidVersionLength (length data)))
      else Inr (u64_from_be_bytes data))"

definition serialize_chain_ids :: "u64 list \<Rightarrow> bytes" where
  "serialize_chain_ids ids = concat (map u64_to_be_bytes ids)"

definition deserialize_chain_ids :: "bytes \<Rightarrow> error + u64 list" where
  "deserialize_chain_ids data =
     (if \<not> 8 dvd length data then Inl (StorageLayer (InvalidChainIdsLength (length data)))
      else Inr (map u64_from_be_bytes (chunks 8 data)))"

definition serialize_range :: "block_range \<Rightarrow> bytes" where
  "serialize_range r = u64_to_be_bytes (range_start r) @ u64_to_be_bytes (range_end r)"

definition serialize_block_ranges :: "block_range list \<Rightarrow> bytes" where
  "serialize_block_ranges ranges = concat (map serialize_range ranges)"

definition deserialize_range :: "bytes \<Rightarrow> block_range" where
  "deserialize_range chunk =
     BlockRange (u64_from_be_bytes (take 8 chunk)) (u64_from_be_bytes (take 8 (drop 8 chunk)))"

definition deserialize_block_ranges :: "bytes \<Rightarrow> error + block_range list" where
  "deserialize_block_ranges data =
     (if \<not> 16 dvd length data then Inl (StorageLayer (InvalidBlockRangesLength (length data)))
      else Inr (map deserialize_range (chunks 16 data)))"

subsection \<open>Lemmas on keys\<close>

lemmas key_defs = VERSION_KEY_def CHAIN_IDS_KEY_def make_block_ranges_key_def
  make_rules_update_heights_key_def make_corrections_key_def make_failed_bundles_key_def
  make_block_key_def

lemma length_keys [simp, key_simps]:
  "length VERSION_KEY = 2" "length CHAIN_IDS_KEY = 2"
  "length (make_block_ranges_key c) = 10" "length (make_rules_update_heights_key c) = 10"
  "length (make_corrections_key c) = 10" "length (make_failed_bundles_key c) = 10"
  "length (make_block_key c n) = 17"
  by (simp_all add: key_defs)

lemma key_neq_length: "length xs \<noteq> length ys \<Longrightarrow> xs \<noteq> ys"
  by auto

lemma keys_distinct [simp, key_simps]:
  "VERSION_KEY \<noteq> CHAIN_IDS_KEY" "CHAIN_IDS_KEY \<noteq> VERSION_KEY"
  "make_block_key c n \<noteq> VERSION_KEY" "VERSION_KEY \<noteq> make_block_key c n"
  "make_block_key c n \<noteq> CHAIN_IDS_KEY" "CHAIN_IDS_KEY \<noteq> make_block_key c n"
  "make_block_ranges_key c \<noteq> VERSION_KEY" "VERSION_KEY \<noteq> make_block_ranges_key c"
  "make_block_ranges_key c \<noteq> CHAIN_IDS_KEY" "CHAIN_IDS_KEY \<noteq> make_block_ranges_key c"
  "make_rules_update_heights_key c \<noteq> VERSION_KEY" "VERSION_KEY \<noteq> make_rules_update_heights_key c"
  "make_rules_update_heights_key c \<noteq> CHAIN_IDS_KEY" "CHAIN_IDS_KEY \<noteq> make_rules_update_heights_key c"
  "make_corrections_key c \<noteq> VERSION_KEY" "VERSION_KEY \<noteq> make_corrections_key c"
  "make_corrections_key c \<noteq> CHAIN_IDS_KEY" "CHAIN_IDS_KEY \<noteq> make_corrections_key c"
  "make_failed_bundles_key c \<noteq> VERSION_KEY" "VERSION_KEY \<noteq> make_failed_bundles_key c"
  "make_failed_bundles_key c \<noteq> CHAIN_IDS_KEY" "CHAIN_IDS_KEY \<noteq> make_failed_bundles_key c"
  "make_block_key c n \<noteq> make_block_ranges_key d" "make_block_ranges_key d \<noteq> make_block_key c n"
  "make_block_key c n \<noteq> make_rules_update_heights_key d" "make_rules_update_heights_key d \<noteq> make_block_key c n"
  "make_block_key c n \<noteq> make_corrections_key d" "make_corrections_key d \<noteq> make_block_key c n"
  "make_block_key c n \<noteq> make_failed_bundles_key d" "make_failed_bundles_key d \<noteq> make_block_key c n"
  "make_block_ranges_key c \<noteq> make_rules_update_heights_key d"
  "make_rules_update_heights_key d \<noteq> make_block_ranges_key c"
  "make_block_ranges_key c \<noteq> make_corrections_key d" "make_corrections_key d \<noteq> make_block_ranges_key c"
  "make_block_ranges_key c \<noteq> make_failed_bundles_key d" "make_failed_bundles_key d \<noteq> make_block_ranges_key c"
  "make_rules_update_heights_key c \<noteq> make_corrections_key d"
  "make_corrections_key d \<noteq> make_rules_update_heights_key c"
  "make_rules_update_heights_key c \<noteq> make_failed_bundles_key d"
  "make_failed_bundles_key d \<noteq> make_rules_update_heights_key c"
  "make_corrections_key c \<noteq> make_failed_bundles_key d" "make_failed_bundles_key d \<noteq> make_corrections_key c"
  by (simp_all add: key_defs)

lemma keys_inj [simp, key_simps]:
  "make_block_ranges_key c = make_block_ranges_key d \<longleftrightarrow> c = d"
  "make_rules_update_heights_key c = make_rules_update_heights_key d \<longleftrightarrow> c = d"
  "make_corrections_key c = make_corrections_key d \<longleftrightarrow> c = d"
  "make_failed_bundles_key c = make_failed_bundles_key d \<longleftrightarrow> c = d"
  "make_block_key c n = make_block_key d m \<longleftrightarrow> c = d \<and> n = m"
  by (auto simp: key_defs)

lemma append_less_same_length:
  fixes xs :: "'a::linorder list"
  shows "length xs = length ys \<Longrightarrow> xs @ us < ys @ vs \<longleftrightarrow> xs < ys \<or> xs = ys \<and> us < vs"
  by (induction xs ys rule: list_induct2) auto

lemma make_block_key_less [key_simps]:
  "make_block_key c n < make_block_key d m \<longleftrightarrow> c < d \<or> c = d \<and> n < m"
  by (simp add: make_block_key_def append_less_same_length u64_to_be_bytes_less)

lemma make_block_key_le [key_simps]:
  "make_block_key c n \<le> make_block_key d m \<longleftrightarrow> c < d \<or> c = d \<and> n \<le> m"
  unfolding le_less make_block_key_less by auto

text \<open>Every key the database writes.\<close>

definition metadata_key :: "bytes \<Rightarrow> bool" where
  "metadata_key k \<longleftrightarrow> k = VERSION_KEY \<or> k = CHAIN_IDS_KEY \<or>
     (\<exists>c. k = make_block_ranges_key c \<or> k = make_rules_update_heights_key c \<or>
          k = make_corrections_key c \<or> k = make_failed_bundles_key c)"

definition known_key :: "bytes \<Rightarrow> bool" where
  "known_key k \<longleftrightarrow> metadata_key k \<or> (\<exists>c n. k = make_block_key c n)"

lemma metadata_key_less_block_key: "metadata_key k \<Longrightarrow> k < make_block_key c n"
  by (auto simp: metadata_key_def key_defs)

lemma metadata_key_length: "metadata_key k \<Longrightarrow> length k = 2 \<or> length k = 10"
  by (auto simp: metadata_key_def)

lemma known_keyI [simp]:
  "known_key VERSION_KEY" "known_key CHAIN_IDS_KEY" "known_key (make_block_ranges_key c)"
  "known_key (make_rules_update_heights_key c)" "known_key (make_corrections_key c)"
  "known_key (make_failed_bundles_key c)" "known_key (make_block_key c n)"
  by (auto simp: known_key_def metadata_key_def)

subsection \<open>Lemmas on encodings\<close>

lemma deserialize_serialize_chain_ids [simp]:
  "deserialize_chain_ids (serialize_chain_ids ids) = Inr ids"
  by (simp add: deserialize_chain_ids_def serialize_chain_ids_def length_concat_const [where n = 8]
      chunks_concat comp_def)

lemma length_serialize_range [simp]: "length (serialize_range r) = 16"
  by (simp add: serialize_range_def)

lemma deserialize_serialize_range [simp]: "deserialize_range (serialize_range r) = r"
  by (simp add: deserialize_range_def serialize_range_def)

lemma serialize_deserialize_range: "length bs = 16 \<Longrightarrow> serialize_range (deserialize_range bs) = bs"
  by (simp add: serialize_range_def deserialize_range_def to_from_be_bytes)

lemma deserialize_serialize_block_ranges [simp]:
  "deserialize_block_ranges (serialize_block_ranges rs) = Inr rs"
  by (simp add: deserialize_block_ranges_def serialize_block_ranges_def
      length_concat_const [where n = 16] chunks_concat comp_def)

lemma serialize_deserialize_block_ranges:
  "deserialize_block_ranges data = Inr rs \<Longrightarrow> serialize_block_ranges rs = data"
  using concat_chunks [of 16 data]
  by (auto simp: deserialize_block_ranges_def serialize_block_ranges_def comp_def
      serialize_deserialize_range split: if_splits cong: map_cong)

lemma serialize_deserialize_chain_ids:
  "deserialize_chain_ids data = Inr ids \<Longrightarrow> serialize_chain_ids ids = data"
  using concat_chunks [of 8 data]
  by (auto simp: deserialize_chain_ids_def serialize_chain_ids_def comp_def to_from_be_bytes
      split: if_splits cong: map_cong)

subsection \<open>Properties\<close>


text \<open>The encodings of the database version, of the chain IDs and of the block ranges
  round trip; decoding fails exactly on the lengths that no encoding has, and what decodes
  re-encodes to the same bytes.\<close>

theorem metadata_roundtrip:
  "deserialize_version (serialize_version v) = Inr v \<and>
   deserialize_chain_ids (serialize_chain_ids ids) = Inr ids \<and>
   deserialize_block_ranges (serialize_block_ranges rs) = Inr rs \<and>
   (deserialize_block_ranges data = Inl (StorageLayer (InvalidBlockRangesLength (length data)))
      \<longleftrightarrow> length data mod 16 \<noteq> 0) \<and>
   (deserialize_block_ranges data = Inr qs \<longleftrightarrow> serialize_block_ranges qs = data) \<and>
   (deserialize_chain_ids data = Inl (StorageLayer (InvalidChainIdsLength (length data)))
      \<longleftrightarrow> length data mod 8 \<noteq> 0) \<and>
   (deserialize_chain_ids data = Inr js \<longleftrightarrow> serialize_chain_ids js = data)"
proof -
  have "deserialize_version (serialize_version v) = Inr v"
    by (simp add: deserialize_version_def serialize_version_def)
  moreover have "deserialize_block_ranges data = Inl (StorageLayer (InvalidBlockRangesLength (length data)))
      \<longleftrightarrow> length data mod 16 \<noteq> 0"
    by (auto simp: deserialize_block_ranges_def dvd_eq_mod_eq_0)
  moreover have "deserialize_chain_ids data = Inl (StorageLayer (InvalidChainIdsLength (length data)))
      \<longleftrightarrow> length data mod 8 \<noteq> 0"
    by (auto simp: deserialize_chain_ids_def dvd_eq_mod_eq_0)
  ultimately show ?thesis
    using serialize_deserialize_block_ranges serialize_deserialize_chain_ids by auto
qed

end
