(* ===== verification/Kv_Store.thy ===== *)
theory Kv_Store
  imports Db_Keys
begin

section \<open>Key-value store: the KvDb traits and their RocksDB implementation\<close>

text \<open>
  The traits \<open>KvDbBatch\<close> and \<open>KvDb\<close> of blockservice/src/db/blockdb.rs are a
  record of operations (a Rust trait is a dictionary of functions), and
  blockservice/src/db/rocksdb.rs is one value of it, \<open>rocks_kvdb\<close>, defined over the API
  of the rocksdb crate. That crate is not part of the repository: its API is the parameter
  \<open>R\<close>, and the locale \<open>rocksdb_crate\<close> states what its documentation promises
  (reads return the stored value, a batch is written atomically, \<open>delete_range\<close>
  excludes its end key, an iterator yields the entries in key order and stops after an error).
  The locale \<open>kv_store\<close> is the contract of the trait, \<open>kv_store_live\<close> adds a
  predicate under which no operation fails; the sublocale command shows that the wrapper meets
  both. \<open>mem_rocksdb\<close> is an executable value of the API.
\<close>

datatype iteration_direction = Forward | Reverse

record ('d, 'b) kvdb =
  kv_get_raw :: "'d \<Rightarrow> bytes \<Rightarrow> error + bytes option"
  kv_put_raw :: "'d \<Rightarrow> bytes \<Rightarrow> bytes \<Rightarrow> (error + unit) \<times> 'd"
  kv_delete_raw :: "'d \<Rightarrow> bytes \<Rightarrow> (error + unit) \<times> 'd"
  kv_iterate_raw :: "'d \<Rightarrow> bytes \<Rightarrow> iteration_direction \<Rightarrow> (error + bytes \<times> bytes) list"
  kv_batch_raw :: "'d \<Rightarrow> 'b"
  kv_write_batch_raw :: "'d \<Rightarrow> 'b \<Rightarrow> (error + unit) \<times> 'd"
  kv_try_catch_up_with_primary :: "'d \<Rightarrow> (error + unit) \<times> 'd"
  batch_put_raw :: "'b \<Rightarrow> bytes \<Rightarrow> bytes \<Rightarrow> 'b"
  batch_delete_raw :: "'b \<Rightarrow> bytes \<Rightarrow> 'b"
  batch_delete_range_raw :: "'b \<Rightarrow> bytes \<Rightarrow> bytes \<Rightarrow> 'b"
  batch_size :: "'b \<Rightarrow> nat"

subsection \<open>The rocksdb crate as a parameter, and the wrapper\<close>

datatype rocks_direction = RocksForward | RocksReverse

record ('db, 'wb) rocksdb =
  rdb_get :: "'db \<Rightarrow> bytes \<Rightarrow> string + bytes option"
  rdb_put :: "'db \<Rightarrow> bytes \<Rightarrow> bytes \<Rightarrow> (string + unit) \<times> 'db"
  rdb_delete :: "'db \<Rightarrow> bytes \<Rightarrow> (string + unit) \<times> 'db"
  rdb_iterator :: "'db \<Rightarrow> bytes \<Rightarrow> rocks_direction \<Rightarrow> (string + bytes \<times> bytes) list"
  rdb_write :: "'db \<Rightarrow> 'wb \<Rightarrow> (string + unit) \<times> 'db"
  rdb_catch_up :: "'db \<Rightarrow> (string + unit) \<times> 'db"
  wb_default :: "'wb"
  wb_put :: "'wb \<Rightarrow> bytes \<Rightarrow> bytes \<Rightarrow> 'wb"
  wb_delete :: "'wb \<Rightarrow> bytes \<Rightarrow> 'wb"
  wb_delete_range :: "'wb \<Rightarrow> bytes \<Rightarrow> bytes \<Rightarrow> 'wb"
  wb_size_in_bytes :: "'wb \<Rightarrow> nat"

record 'db rocks_db =
  rocks_inner :: 'db
  secondary_path :: "string option"

definition error_from_rocksdb :: "string \<Rightarrow> error" where
  "error_from_rocksdb e = StorageLayer (RocksDbMessage e)"

definition lift_rocks :: "'db rocks_db \<Rightarrow> (string + unit) \<times> 'db \<Rightarrow> (error + unit) \<times> 'db rocks_db" where
  "lift_rocks d r = (map_err error_from_rocksdb (fst r), d\<lparr>rocks_inner := snd r\<rparr>)"

definition rocks_get_raw :: "('db, 'wb) rocksdb \<Rightarrow> 'db rocks_db \<Rightarrow> bytes \<Rightarrow> error + bytes option" where
  "rocks_get_raw R d key = map_err error_from_rocksdb (rdb_get R (rocks_inner d) key)"

definition rocks_put_raw ::
  "('db, 'wb) rocksdb \<Rightarrow> 'db rocks_db \<Rightarrow> bytes \<Rightarrow> bytes \<Rightarrow> (error + unit) \<times> 'db rocks_db" where
  "rocks_put_raw R d key data = lift_rocks d (rdb_put R (rocks_inner d) key data)"

definition rocks_delete_raw ::
  "('db, 'wb) rocksdb \<Rightarrow> 'db rocks_db \<Rightarrow> bytes \<Rightarrow> (error + unit) \<times> 'db rocks_db" where
  "rocks_delete_raw R d key = lift_rocks d (rdb_delete R (rocks_inner d) key)"

definition rocks_iterate_raw ::
  "('db, 'wb) rocksdb \<Rightarrow> 'db rocks_db \<Rightarrow> bytes \<Rightarrow> iteration_direction \<Rightarrow> (error + bytes \<times> bytes) list" where
  "rocks_iterate_raw R d start direction =
     (let rocksdb_direction = (case direction of Forward \<Rightarrow> RocksForward | Reverse \<Rightarrow> RocksReverse)
      in map (map_err error_from_rocksdb) (rdb_iterator R (rocks_inner d) start rocksdb_direction))"

definition rocks_batch_raw :: "('db, 'wb) rocksdb \<Rightarrow> 'db rocks_db \<Rightarrow> 'wb" where
  "rocks_batch_raw R d = wb_default R"

definition rocks_write_batch_raw ::
  "('db, 'wb) rocksdb \<Rightarrow> 'db rocks_db \<Rightarrow> 'wb \<Rightarrow> (error + unit) \<times> 'db rocks_db" where
  "rocks_write_batch_raw R d batch = lift_rocks d (rdb_write R (rocks_inner d) batch)"

definition rocks_try_catch_up_with_primary ::
  "('db, 'wb) rocksdb \<Rightarrow> 'db rocks_db \<Rightarrow> (error + unit) \<times> 'db rocks_db" where
  "rocks_try_catch_up_with_primary R d =
     (if secondary_path d \<noteq> None then lift_rocks d (rdb_catch_up R (rocks_inner d)) else (Inr (), d))"

definition rocks_batch_put_raw :: "('db, 'wb) rocksdb \<Rightarrow> 'wb \<Rightarrow> bytes \<Rightarrow> bytes \<Rightarrow> 'wb" where
  "rocks_batch_put_raw R b key data = wb_put R b key data"

definition rocks_batch_delete_raw :: "('db, 'wb) rocksdb \<Rightarrow> 'wb \<Rightarrow> bytes \<Rightarrow> 'wb" where
  "rocks_batch_delete_raw R b key = wb_delete R b key"

definition rocks_batch_delete_range_raw :: "('db, 'wb) rocksdb \<Rightarrow> 'wb \<Rightarrow> bytes \<Rightarrow> bytes \<Rightarrow> 'wb" where
  "rocks_batch_delete_range_raw R b start_key end_key =
     wb_delete_range R (wb_delete R b end_key) start_key end_key"

definition rocks_batch_size :: "('db, 'wb) rocksdb \<Rightarrow> 'wb \<Rightarrow> nat" where
  "rocks_batch_size R b = wb_size_in_bytes R b"

definition rocks_kvdb :: "('db, 'wb) rocksdb \<Rightarrow> ('db rocks_db, 'wb) kvdb" where
  "rocks_kvdb R =
     \<lparr>kv_get_raw = rocks_get_raw R, kv_put_raw = rocks_put_raw R, kv_delete_raw = rocks_delete_raw R,
      kv_iterate_raw = rocks_iterate_raw R, kv_batch_raw = rocks_batch_raw R,
      kv_write_batch_raw = rocks_write_batch_raw R,
      kv_try_catch_up_with_primary = rocks_try_catch_up_with_primary R,
      batch_put_raw = rocks_batch_put_raw R, batch_delete_raw = rocks_batch_delete_raw R,
      batch_delete_range_raw = rocks_batch_delete_range_raw R, batch_size = rocks_batch_size R\<rparr>"

lemmas rocks_defs = rocks_get_raw_def rocks_put_raw_def rocks_delete_raw_def rocks_iterate_raw_def
  rocks_batch_raw_def rocks_write_batch_raw_def rocks_try_catch_up_with_primary_def
  rocks_batch_put_raw_def rocks_batch_delete_raw_def rocks_batch_delete_range_raw_def
  rocks_batch_size_def rocks_kvdb_def lift_rocks_def

subsection \<open>Ordered entries of a store\<close>

type_synonym store = "bytes \<rightharpoonup> bytes"

definition entries :: "store \<Rightarrow> bytes \<Rightarrow> iteration_direction \<Rightarrow> (bytes \<times> bytes) list" where
  "entries m k dir =
     map (\<lambda>x. (x, the (m x)))
       (case dir of
          Forward \<Rightarrow> sorted_list_of_set {x \<in> dom m. k \<le> x}
        | Reverse \<Rightarrow> rev (sorted_list_of_set {x \<in> dom m. x \<le> k}))"

text \<open>A stream of results that stands for a list: all of it, or a part followed by an error.\<close>

definition stream_of :: "'a list \<Rightarrow> ('e + 'a) list \<Rightarrow> bool" where
  "stream_of xs rs \<longleftrightarrow> rs = map Inr xs \<or> (\<exists>n e. rs = map Inr (take n xs) @ [Inl e])"

lemma stream_of_map_err: "stream_of xs rs \<Longrightarrow> stream_of xs (map (map_err f) rs)"
  by (auto simp: stream_of_def comp_def)

lemma stream_of_no_error: "stream_of xs rs \<Longrightarrow> (\<And>e. Inl e \<notin> set rs) \<Longrightarrow> rs = map Inr xs"
  by (fastforce simp: stream_of_def)

lemma stream_of_error: "stream_of xs [Inl e]"
  by (auto simp: stream_of_def intro!: exI [of _ "0::nat"])

lemma set_entries:
  "finite (dom m) \<Longrightarrow> set (entries m k dir) =
     {(x, v). m x = Some v \<and> (case dir of Forward \<Rightarrow> k \<le> x | Reverse \<Rightarrow> x \<le> k)}"
  by (cases dir) (auto simp: entries_def image_iff)

subsection \<open>Contracts\<close>

locale kv_store =
  fixes kv :: "('d, 'b) kvdb"
    and view :: "'d \<Rightarrow> store"
    and bview :: "'b \<Rightarrow> store \<Rightarrow> store"
  assumes get_ok: "kv_get_raw kv d k = Inr r \<Longrightarrow> r = view d k"
    and put_ok: "kv_put_raw kv d k v = (Inr u, d') \<Longrightarrow> view d' = (view d)(k \<mapsto> v)"
    and put_err: "kv_put_raw kv d k v = (Inl e, d') \<Longrightarrow> view d' = view d"
    and write_ok: "kv_write_batch_raw kv d b = (Inr u, d') \<Longrightarrow> view d' = bview b (view d)"
    and write_err: "kv_write_batch_raw kv d b = (Inl e, d') \<Longrightarrow> view d' = view d"
    and batch_empty: "bview (kv_batch_raw kv d) m = m"
    and batch_put: "bview (batch_put_raw kv b k v) m = (bview b m)(k \<mapsto> v)"
    and batch_delete_range: "s \<le> t \<Longrightarrow>
      bview (batch_delete_range_raw kv b s t) m = (\<lambda>k. if s \<le> k \<and> k \<le> t then None else bview b m k)"
    and finite_view: "finite (dom (view d))"
    and iterate_stream: "stream_of (entries (view d) k dir) (kv_iterate_raw kv d k dir)"

locale kv_store_live = kv_store kv view bview
  for kv :: "('d, 'b) kvdb" and view :: "'d \<Rightarrow> store" and bview :: "'b \<Rightarrow> store \<Rightarrow> store" +
  fixes live :: "'d \<Rightarrow> bool"
  assumes get_live: "live d \<Longrightarrow> kv_get_raw kv d k = Inr (view d k)"
    and put_live: "live d \<Longrightarrow> \<exists>d'. kv_put_raw kv d k v = (Inr (), d') \<and> live d'"
    and write_live: "live d \<Longrightarrow> \<exists>d'. kv_write_batch_raw kv d b = (Inr (), d') \<and> live d'"
    and iterate_live: "live d \<Longrightarrow> kv_iterate_raw kv d k dir = map Inr (entries (view d) k dir)"

locale rocksdb_crate =
  fixes R :: "('db, 'wb) rocksdb"
    and rview :: "'db \<Rightarrow> store"
    and wview :: "'wb \<Rightarrow> store \<Rightarrow> store"
    and healthy :: "'db \<Rightarrow> bool"
  assumes rdb_get_ok: "rdb_get R db k = Inr r \<Longrightarrow> r = rview db k"
    and rdb_put_spec: "rview (snd (rdb_put R db k v)) =
      (case fst (rdb_put R db k v) of Inr u \<Rightarrow> (rview db)(k \<mapsto> v) | Inl e \<Rightarrow> rview db)"
    and rdb_write_spec: "rview (snd (rdb_write R db b)) =
      (case fst (rdb_write R db b) of Inr u \<Rightarrow> wview b (rview db) | Inl e \<Rightarrow> rview db)"
    and wb_default_spec: "wview (wb_default R) m = m"
    and wb_put_spec: "wview (wb_put R b k v) m = (wview b m)(k \<mapsto> v)"
    and wb_delete_spec: "wview (wb_delete R b k) m = (wview b m)(k := None)"
    and wb_delete_range_spec: "s \<le> t \<Longrightarrow>
      wview (wb_delete_range R b s t) m = (\<lambda>k. if s \<le> k \<and> k < t then None else wview b m k)"
    and rdb_finite: "finite (dom (rview db))"
    and rdb_iterator_forward: "stream_of (entries (rview db) k Forward) (rdb_iterator R db k RocksForward)"
    and rdb_iterator_reverse: "stream_of (entries (rview db) k Reverse) (rdb_iterator R db k RocksReverse)"
    and healthy_get: "healthy db \<Longrightarrow> rdb_get R db k = Inr (rview db k)"
    and healthy_put: "healthy db \<Longrightarrow> fst (rdb_put R db k v) = Inr () \<and> healthy (snd (rdb_put R db k v))"
    and healthy_write: "healthy db \<Longrightarrow> fst (rdb_write R db b) = Inr () \<and> healthy (snd (rdb_write R db b))"
    and healthy_iterator: "healthy db \<Longrightarrow> Inl e \<notin> set (rdb_iterator R db k rd)"

text \<open>The wrapper of rocksdb.rs meets the contract of the trait: in particular deleting the
  end key and then the half-open range deletes the inclusive range.\<close>

sublocale rocksdb_crate \<subseteq> rocks: kv_store_live "rocks_kvdb R" "\<lambda>d. rview (rocks_inner d)" wview
  "\<lambda>d. healthy (rocks_inner d)"
proof (unfold_locales, goal_cases)
  case (1 d k v)
  then show ?case by (auto simp: rocks_defs intro: rdb_get_ok)
next
  case (2 d k v u d')
  then show ?case using rdb_put_spec [of "rocks_inner d" k v] by (auto simp: rocks_defs)
next
  case (3 d k v e d')
  then show ?case
    using rdb_put_spec [of "rocks_inner d" k v] by (auto simp: rocks_defs map_err_def split: sum.splits)
next
  case (4 d b u d')
  then show ?case using rdb_write_spec [of "rocks_inner d" b] by (auto simp: rocks_defs)
next
  case (5 d b e d')
  then show ?case
    using rdb_write_spec [of "rocks_inner d" b] by (auto simp: rocks_defs map_err_def split: sum.splits)
next
  case (6 d m)
  show ?case by (simp add: rocks_defs wb_default_spec)
next
  case (7 b k v m)
  show ?case by (simp add: rocks_defs wb_put_spec)
next
  case (8 s e b m)
  then show ?case by (auto simp: rocks_defs wb_delete_range_spec wb_delete_spec fun_eq_iff)
next
  case (9 d)
  show ?case by (rule rdb_finite)
next
  case (10 d k dir)
  show ?case
    using rdb_iterator_forward rdb_iterator_reverse
    by (cases dir) (auto simp: rocks_defs intro!: stream_of_map_err)
next
  case (11 d k)
  then show ?case by (simp add: rocks_defs healthy_get)
next
  case (12 d k v)
  then show ?case using healthy_put [of "rocks_inner d" k v] by (auto simp: rocks_defs)
next
  case (13 d b)
  then show ?case using healthy_write [of "rocks_inner d" b] by (auto simp: rocks_defs)
next
  case (14 d k dir)
  then have "rdb_iterator R (rocks_inner d) k RocksForward = map Inr (entries (rview (rocks_inner d)) k Forward)"
    and "rdb_iterator R (rocks_inner d) k RocksReverse = map Inr (entries (rview (rocks_inner d)) k Reverse)"
    by (blast intro: stream_of_no_error rdb_iterator_forward rdb_iterator_reverse
        dest: healthy_iterator)+
  then show ?case by (cases dir) (simp_all add: rocks_defs comp_def)
qed

context rocksdb_crate
begin

lemma rocks_store: "kv_store (rocks_kvdb R) (\<lambda>d. rview (rocks_inner d)) wview"
  by (rule rocks.kv_store_axioms)

lemma rocks_store_live:
  "kv_store_live (rocks_kvdb R) (\<lambda>d. rview (rocks_inner d)) wview (\<lambda>d. healthy (rocks_inner d))"
  by (rule rocks.kv_store_live_axioms)

end

subsection \<open>An executable value of the API\<close>

text \<open>An association list with a fault that, once set, makes every operation fail.\<close>

record mem_db =
  mem_entries :: "(bytes \<times> bytes) list"
  mem_fault :: "string option"

datatype mem_op = MemPut bytes bytes | MemDelete bytes | MemDeleteRange bytes bytes

fun mem_apply :: "mem_op \<Rightarrow> (bytes \<times> bytes) list \<Rightarrow> (bytes \<times> bytes) list" where
  "mem_apply (MemPut k v) xs = (k, v) # xs"
| "mem_apply (MemDelete k) xs = filter (\<lambda>(x, v). x \<noteq> k) xs"
| "mem_apply (MemDeleteRange s e) xs = filter (\<lambda>(x, v). \<not> (s \<le> x \<and> x < e)) xs"

definition mem_update :: "mem_op list \<Rightarrow> mem_db \<Rightarrow> (string + unit) \<times> mem_db" where
  "mem_update ops db =
     (case mem_fault db of
        Some e \<Rightarrow> (Inl e, db)
      | None \<Rightarrow> (Inr (), db\<lparr>mem_entries := fold mem_apply ops (mem_entries db)\<rparr>))"

definition mem_keys :: "(bytes \<Rightarrow> bool) \<Rightarrow> mem_db \<Rightarrow> bytes list" where
  "mem_keys P db = sort (remdups (filter P (map fst (mem_entries db))))"

definition mem_iterator :: "mem_db \<Rightarrow> bytes \<Rightarrow> rocks_direction \<Rightarrow> (string + bytes \<times> bytes) list" where
  "mem_iterator db k rd =
     (case mem_fault db of
        Some e \<Rightarrow> [Inl e]
      | None \<Rightarrow> map (\<lambda>x. Inr (x, the (map_of (mem_entries db) x)))
          (case rd of
             RocksForward \<Rightarrow> mem_keys (\<lambda>x. k \<le> x) db
           | RocksReverse \<Rightarrow> rev (mem_keys (\<lambda>x. x \<le> k) db)))"

definition mem_rocksdb :: "(mem_db, mem_op list) rocksdb" where
  "mem_rocksdb =
     \<lparr>rdb_get = (\<lambda>db k. case mem_fault db of Some e \<Rightarrow> Inl e | None \<Rightarrow> Inr (map_of (mem_entries db) k)),
      rdb_put = (\<lambda>db k v. mem_update [MemPut k v] db),
      rdb_delete = (\<lambda>db k. mem_update [MemDelete k] db),
      rdb_iterator = mem_iterator,
      rdb_write = (\<lambda>db ops. mem_update ops db),
      rdb_catch_up = (\<lambda>db. mem_update [] db),
      wb_default = [],
      wb_put = (\<lambda>ops k v. ops @ [MemPut k v]),
      wb_delete = (\<lambda>ops k. ops @ [MemDelete k]),
      wb_delete_range = (\<lambda>ops s e. ops @ [MemDeleteRange s e]),
      wb_size_in_bytes = length\<rparr>"

fun mem_op_view :: "mem_op \<Rightarrow> store \<Rightarrow> store" where
  "mem_op_view (MemPut k v) m = m(k \<mapsto> v)"
| "mem_op_view (MemDelete k) m = m(k := None)"
| "mem_op_view (MemDeleteRange s e) m = (\<lambda>k. if s \<le> k \<and> k < e then None else m k)"

definition mem_view :: "mem_db \<Rightarrow> store" where
  "mem_view db = map_of (mem_entries db)"

lemma map_of_filter_key: "map_of (filter (\<lambda>(x, v). P x) xs) = (\<lambda>k. if P k then map_of xs k else None)"
  by (induction xs) (auto simp: fun_eq_iff)

lemma map_of_mem_apply: "map_of (mem_apply opn xs) = mem_op_view opn (map_of xs)"
  by (cases opn) (auto simp: map_of_filter_key fun_eq_iff simp del: not_less)

lemma map_of_fold_mem_apply: "map_of (fold mem_apply ops xs) = fold mem_op_view ops (map_of xs)"
  by (induction ops arbitrary: xs) (auto simp: map_of_mem_apply)

lemma mem_keys_eq: "mem_keys P db = sorted_list_of_set {x \<in> dom (mem_view db). P x}"
proof -
  have "{x \<in> dom (mem_view db). P x} = set (filter P (map fst (mem_entries db)))"
    by (auto simp: mem_view_def dom_map_of_conv_image_fst)
  then show ?thesis by (simp add: mem_keys_def sorted_list_of_set_sort_remdups del: set_filter)
qed

lemma mem_iterator_stream:
  "mem_fault db = None \<Longrightarrow> mem_iterator db k RocksForward = map Inr (entries (mem_view db) k Forward)"
  "mem_fault db = None \<Longrightarrow> mem_iterator db k RocksReverse = map Inr (entries (mem_view db) k Reverse)"
  "mem_fault db = Some e \<Longrightarrow> mem_iterator db k rd = [Inl e]"
  by (simp_all add: mem_iterator_def entries_def mem_keys_eq comp_def mem_view_def)

interpretation mem: rocksdb_crate mem_rocksdb mem_view "fold mem_op_view" "\<lambda>db. mem_fault db = None"
proof (unfold_locales, goal_cases)
  case (9 db k)
  show ?case
    by (cases "mem_fault db") (simp_all add: mem_rocksdb_def mem_iterator_stream stream_of_error, simp add: stream_of_def)
next
  case (10 db k)
  show ?case
    by (cases "mem_fault db") (simp_all add: mem_rocksdb_def mem_iterator_stream stream_of_error, simp add: stream_of_def)
next
  case (14 db e k rd)
  then show ?case by (auto simp: mem_rocksdb_def mem_iterator_def)
qed (auto simp: mem_rocksdb_def mem_view_def mem_update_def map_of_fold_mem_apply finite_dom_map_of
    split: option.splits)

end
