(* ===== verification/Block_Db.thy ===== *)
theory Block_Db
  imports Kv_Store
begin

section \<open>The block database over a key-value store\<close>

text \<open>
  \<open>KvDbBackedBlockDb\<close> of blockservice/src/db/blockdb.rs: creating and opening a
  database, reading and writing blocks and chain metadata, deleting ranges, iterating over the
  blocks of a chain and writing batches of blocks. The struct has one field, the key-value
  store, so its state is the state \<open>d\<close> of the store; an operation that takes
  \<open>&mut self\<close> returns its result and the new state. The \<open>HashMap\<close> of a batch
  is an association list with one entry per chain; the order in which it is iterated is not
  specified by the standard library and is the parameter \<open>hash_order\<close> of
  \<open>write_batch\<close>.

  The abstract database \<open>abs_db\<close> is a set of chains with a map from block numbers to
  bytes for each. Under the invariant \<open>db_inv\<close> (known keys only, sorted chain IDs that
  cover every chain with data, block ranges that denote exactly the stored block numbers) each
  operation refines its abstract counterpart, a failed operation changes nothing, and the
  invariant holds in every state that is reachable from a created database.
\<close>

subsection \<open>Batches\<close>

record 'b kv_batch_wrapper =
  kv_batch :: 'b
  block_ranges :: "(u64 \<times> block_range list) list"

fun add_to_entry :: "u64 \<Rightarrow> block_range \<Rightarrow> (u64 \<times> block_range list) list \<Rightarrow> (u64 \<times> block_range list) list" where
  "add_to_entry c r [] = [(c, add_range [] r)]"
| "add_to_entry c r ((d, rs) # xs) = (if d = c then (d, add_range rs r) # xs else (d, rs) # add_to_entry c r xs)"

definition batch_put_bytes ::
  "('d, 'b) kvdb \<Rightarrow> 'b kv_batch_wrapper \<Rightarrow> u64 \<Rightarrow> u64 \<Rightarrow> bytes \<Rightarrow> 'b kv_batch_wrapper" where
  "batch_put_bytes kv batch chain_id block_number data =
     batch\<lparr>block_ranges := add_to_entry chain_id (BlockRange block_number block_number) (block_ranges batch),
           kv_batch := batch_put_raw kv (kv_batch batch) (make_block_key chain_id block_number) data\<rparr>"

definition batch_wrapper_size :: "('d, 'b) kvdb \<Rightarrow> 'b kv_batch_wrapper \<Rightarrow> nat" where
  "batch_wrapper_size kv batch = batch_size kv (kv_batch batch)"

subsection \<open>Creating and opening\<close>

definition create :: "('d, 'b) kvdb \<Rightarrow> 'd \<Rightarrow> (error + unit) \<times> 'd" where
  "create kv d =
     (case kv_iterate_raw kv d [] Forward of
        Inl e # _ \<Rightarrow> (Inl e, d)
      | Inr _ # _ \<Rightarrow> (Inl (StorageLayer AlreadyInitialized), d)
      | [] \<Rightarrow> kv_put_raw kv d VERSION_KEY (serialize_version CURRENT_VERSION))"

definition open_db :: "('d, 'b) kvdb \<Rightarrow> 'd \<Rightarrow> error + 'd" where
  "open_db kv d =
     res_bind (kv_get_raw kv d VERSION_KEY) (\<lambda>r.
       case r of
         None \<Rightarrow> Inl (StorageLayer VersionNotFound)
       | Some version_bytes \<Rightarrow>
           res_bind (deserialize_version version_bytes) (\<lambda>version.
             if version \<noteq> CURRENT_VERSION
             then Inl (StorageLayer (VersionNotSupported CURRENT_VERSION version))
             else Inr d))"

definition execute_in_batch :: "('d, 'b) kvdb \<Rightarrow> 'd \<Rightarrow> ('b \<Rightarrow> 'b) \<Rightarrow> (error + unit) \<times> 'd" where
  "execute_in_batch kv d f = kv_write_batch_raw kv d (f (kv_batch_raw kv d))"

subsection \<open>Reading and writing\<close>

definition unwrap_or_default :: "'a list option \<Rightarrow> 'a list" where
  "unwrap_or_default r = (case r of None \<Rightarrow> [] | Some xs \<Rightarrow> xs)"

definition get_chain_ids :: "('d, 'b) kvdb \<Rightarrow> 'd \<Rightarrow> error + u64 list" where
  "get_chain_ids kv d =
     res_bind (kv_get_raw kv d CHAIN_IDS_KEY) (\<lambda>r.
       map_ok unwrap_or_default (opt_transpose (map_option deserialize_chain_ids r)))"

definition get_ranges_of_chain_id :: "('d, 'b) kvdb \<Rightarrow> 'd \<Rightarrow> u64 \<Rightarrow> error + block_range list" where
  "get_ranges_of_chain_id kv d chain_id =
     res_bind (kv_get_raw kv d (make_block_ranges_key chain_id)) (\<lambda>r.
       map_ok unwrap_or_default (opt_transpose (map_option deserialize_block_ranges r)))"

definition get_rules_update_heights :: "('d, 'b) kvdb \<Rightarrow> 'd \<Rightarrow> u64 \<Rightarrow> error + bytes option" where
  "get_rules_update_heights kv d chain_id = kv_get_raw kv d (make_rules_update_heights_key chain_id)"

definition put_rules_update_heights ::
  "('d, 'b) kvdb \<Rightarrow> 'd \<Rightarrow> u64 \<Rightarrow> bytes \<Rightarrow> (error + unit) \<times> 'd" where
  "put_rules_update_heights kv d chain_id data =
     (case get_chain_ids kv d of
        Inl e \<Rightarrow> (Inl e, d)
      | Inr chain_ids \<Rightarrow>
          execute_in_batch kv d (\<lambda>batch.
            batch_put_raw kv
              (batch_put_raw kv batch (make_rules_update_heights_key chain_id) data)
              CHAIN_IDS_KEY (serialize_chain_ids (insert_sorted chain_id chain_ids))))"

definition get_corrections :: "('d, 'b) kvdb \<Rightarrow> 'd \<Rightarrow> u64 \<Rightarrow> error + bytes option" where
  "get_corrections kv d chain_id = kv_get_raw kv d (make_corrections_key chain_id)"

definition put_corrections :: "('d, 'b) kvdb \<Rightarrow> 'd \<Rightarrow> u64 \<Rightarrow> bytes \<Rightarrow> (error + unit) \<times> 'd" where
  "put_corrections kv d chain_id data =
     (case get_chain_ids kv d of
        Inl e \<Rightarrow> (Inl e, d)
      | Inr chain_ids \<Rightarrow>
          execute_in_batch kv d (\<lambda>batch.
            batch_put_raw kv
              (batch_put_raw kv batch (make_corrections_key chain_id) data)
              CHAIN_IDS_KEY (serialize_chain_ids (insert_sorted chain_id chain_ids))))"

definition get_failed_bundles :: "('d, 'b) kvdb \<Rightarrow> 'd \<Rightarrow> u64 \<Rightarrow> error + bytes option" where
  "get_failed_bundles kv d chain_id = kv_get_raw kv d (make_failed_bundles_key chain_id)"

definition put_failed_bundles :: "('d, 'b) kvdb \<Rightarrow> 'd \<Rightarrow> u64 \<Rightarrow> bytes \<Rightarrow> (error + unit) \<times> 'd" where
  "put_failed_bundles kv d chain_id data =
     (case get_chain_ids kv d of
        Inl e \<Rightarrow> (Inl e, d)
      | Inr chain_ids \<Rightarrow>
          execute_in_batch kv d (\<lambda>batch.
            batch_put_raw kv
              (batch_put_raw kv batch (make_failed_bundles_key chain_id) data)
              CHAIN_IDS_KEY (serialize_chain_ids (insert_sorted chain_id chain_ids))))"

definition get_bytes :: "('d, 'b) kvdb \<Rightarrow> 'd \<Rightarrow> u64 \<Rightarrow> u64 \<Rightarrow> error + bytes option" where
  "get_bytes kv d chain_id block_number = kv_get_raw kv d (make_block_key chain_id block_number)"

definition put_bytes :: "('d, 'b) kvdb \<Rightarrow> 'd \<Rightarrow> u64 \<Rightarrow> u64 \<Rightarrow> bytes \<Rightarrow> (error + unit) \<times> 'd" where
  "put_bytes kv d chain_id block_number data =
     (case get_chain_ids kv d of
        Inl e \<Rightarrow> (Inl e, d)
      | Inr chain_ids \<Rightarrow>
          case get_ranges_of_chain_id kv d chain_id of
            Inl e \<Rightarrow> (Inl e, d)
          | Inr ranges \<Rightarrow>
              execute_in_batch kv d (\<lambda>batch.
                batch_put_raw kv
                  (batch_put_raw kv
                    (batch_put_raw kv batch (make_block_key chain_id block_number) data)
                    (make_block_ranges_key chain_id)
                    (serialize_block_ranges (add_range ranges (BlockRange block_number block_number))))
                  CHAIN_IDS_KEY (serialize_chain_ids (insert_sorted chain_id chain_ids))))"

definition delete_range :: "('d, 'b) kvdb \<Rightarrow> 'd \<Rightarrow> u64 \<Rightarrow> u64 \<Rightarrow> u64 \<Rightarrow> (error + unit) \<times> 'd" where
  "delete_range kv d chain_id start_block_number end_block_number =
     (if start_block_number > end_block_number
      then (Inl (StorageLayer (InvalidBlockRange start_block_number end_block_number)), d)
      else
        case get_ranges_of_chain_id kv d chain_id of
          Inl e \<Rightarrow> (Inl e, d)
        | Inr ranges \<Rightarrow>
            execute_in_batch kv d (\<lambda>batch.
              batch_put_raw kv
                (batch_delete_range_raw kv batch (make_block_key chain_id start_block_number)
                  (make_block_key chain_id end_block_number))
                (make_block_ranges_key chain_id)
                (serialize_block_ranges
                  (subtract_range ranges (BlockRange start_block_number end_block_number)))))"

subsection \<open>Iterating\<close>

definition iter_item :: "u64 \<Rightarrow> error + bytes \<times> bytes \<Rightarrow> (error + u64 \<times> bytes) option" where
  "iter_item chain_id result =
     (case result of
        Inl e \<Rightarrow> Some (Inl e)
      | Inr (key, value) \<Rightarrow>
          if length key = 2 \<or> length key = 10 then None
          else if length key \<noteq> 17 \<or> key ! 0 \<noteq> 0x02 then Some (Inl (StorageLayer (UnexpectedKey key)))
          else if u64_from_be_bytes (take 8 (drop 1 key)) \<noteq> chain_id then None
          else Some (Inr (u64_from_be_bytes (take 8 (drop 9 key)), value)))"

fun map_while_stop :: "bool \<Rightarrow> ('e + 'a) option list \<Rightarrow> ('e + 'a) list" where
  "map_while_stop stop [] = []"
| "map_while_stop stop (result # rest) =
     (if stop then []
      else case result of
        None \<Rightarrow> []
      | Some res \<Rightarrow> res # map_while_stop (case res of Inl _ \<Rightarrow> True | Inr _ \<Rightarrow> False) rest)"

definition iterate_bytes ::
  "('d, 'b) kvdb \<Rightarrow> 'd \<Rightarrow> u64 \<Rightarrow> u64 \<Rightarrow> iteration_direction \<Rightarrow> (error + u64 \<times> bytes) list" where
  "iterate_bytes kv d chain_id start_block_number direction =
     map_while_stop False
       (map (iter_item chain_id)
         (kv_iterate_raw kv d (make_block_key chain_id start_block_number) direction))"

subsection \<open>Writing batches\<close>

definition new_batch :: "('d, 'b) kvdb \<Rightarrow> 'd \<Rightarrow> 'b kv_batch_wrapper" where
  "new_batch kv d = \<lparr>kv_batch = kv_batch_raw kv d, block_ranges = []\<rparr>"

type_synonym hash_order = "(u64 \<times> block_range list) list \<Rightarrow> (u64 \<times> block_range list) list"

fun write_batch_loop ::
  "('d, 'b) kvdb \<Rightarrow> 'd \<Rightarrow> (u64 \<times> block_range list) list \<Rightarrow> u64 list \<Rightarrow> 'b \<Rightarrow> error + u64 list \<times> 'b" where
  "write_batch_loop kv d [] chain_ids batch = Inr (chain_ids, batch)"
| "write_batch_loop kv d ((chain_id, new_ranges) # rest) chain_ids batch =
     res_bind (get_ranges_of_chain_id kv d chain_id) (\<lambda>existing_ranges.
       write_batch_loop kv d rest (insert_sorted chain_id chain_ids)
         (batch_put_raw kv batch (make_block_ranges_key chain_id)
           (serialize_block_ranges (foldl add_range existing_ranges new_ranges))))"

definition write_batch ::
  "('d, 'b) kvdb \<Rightarrow> hash_order \<Rightarrow> 'd \<Rightarrow> 'b kv_batch_wrapper \<Rightarrow> (error + unit) \<times> 'd" where
  "write_batch kv hash_order d batch =
     (if block_ranges batch = [] then (Inr (), d)
      else
        case get_chain_ids kv d of
          Inl e \<Rightarrow> (Inl e, d)
        | Inr chain_ids \<Rightarrow>
            case write_batch_loop kv d (hash_order (block_ranges batch)) chain_ids (kv_batch batch) of
              Inl e \<Rightarrow> (Inl e, d)
            | Inr (chain_ids', batch') \<Rightarrow>
                kv_write_batch_raw kv d
                  (batch_put_raw kv batch' CHAIN_IDS_KEY (serialize_chain_ids chain_ids')))"

definition try_catch_up_with_primary :: "('d, 'b) kvdb \<Rightarrow> 'd \<Rightarrow> (error + unit) \<times> 'd" where
  "try_catch_up_with_primary kv d = kv_try_catch_up_with_primary kv d"

end
