(* ===== verification/Block_Db_Spec.thy ===== *)
theory Block_Db_Spec
  imports Block_Db "HOL-Library.Multiset"
begin

section \<open>Abstract block database, invariant and refinement\<close>

text \<open>
  What the block database promises, and that \<open>Block_Db\<close> implements it. The abstract
  state and its operations; the invariant \<open>db_inv\<close> on the key-value pairs; the lemmas of
  the locale \<open>kv_store\<close>, proved once for every store that meets the contract: each
  operation either fails and leaves the stored pairs unchanged, or preserves the invariant and
  acts on the abstraction as its abstract counterpart; iteration yields the stored blocks of one
  chain in order; and the invariant holds in all reachable states. The properties at the end
  state this for the RocksDB wrapper.
\<close>

subsection \<open>Abstract state\<close>

record abs_db =
  chains :: "u64 set"
  blocks :: "u64 \<Rightarrow> u64 \<rightharpoonup> bytes"
  rules :: "u64 \<rightharpoonup> bytes"
  corrections :: "u64 \<rightharpoonup> bytes"
  failed_bundles :: "u64 \<rightharpoonup> bytes"

definition abs_put :: "u64 \<Rightarrow> u64 \<Rightarrow> bytes \<Rightarrow> abs_db \<Rightarrow> abs_db" where
  "abs_put c n data s =
     s\<lparr>chains := insert c (chains s), blocks := (blocks s)(c := (blocks s c)(n \<mapsto> data))\<rparr>"

definition abs_put_all :: "(u64 \<times> u64 \<times> bytes) list \<Rightarrow> abs_db \<Rightarrow> abs_db" where
  "abs_put_all puts s = fold (\<lambda>(c, n, data). abs_put c n data) puts s"

definition abs_delete :: "u64 \<Rightarrow> u64 \<Rightarrow> u64 \<Rightarrow> abs_db \<Rightarrow> abs_db" where
  "abs_delete c a b s =
     s\<lparr>blocks := (blocks s)(c := (\<lambda>n. if a \<le> n \<and> n \<le> b then None else blocks s c n))\<rparr>"

definition abs_put_rules :: "u64 \<Rightarrow> bytes \<Rightarrow> abs_db \<Rightarrow> abs_db" where
  "abs_put_rules c data s = s\<lparr>chains := insert c (chains s), rules := (rules s)(c \<mapsto> data)\<rparr>"

definition abs_put_corrections :: "u64 \<Rightarrow> bytes \<Rightarrow> abs_db \<Rightarrow> abs_db" where
  "abs_put_corrections c data s =
     s\<lparr>chains := insert c (chains s), corrections := (corrections s)(c \<mapsto> data)\<rparr>"

definition abs_put_failed_bundles :: "u64 \<Rightarrow> bytes \<Rightarrow> abs_db \<Rightarrow> abs_db" where
  "abs_put_failed_bundles c data s =
     s\<lparr>chains := insert c (chains s), failed_bundles := (failed_bundles s)(c \<mapsto> data)\<rparr>"

definition stored :: "abs_db \<Rightarrow> u64 \<Rightarrow> u64 set" where
  "stored s c = dom (blocks s c)"

definition block_entries :: "abs_db \<Rightarrow> u64 \<Rightarrow> u64 \<Rightarrow> iteration_direction \<Rightarrow> (u64 \<times> bytes) list" where
  "block_entries s c n dir =
     map (\<lambda>k. (k, the (blocks s c k)))
       (case dir of
          Forward \<Rightarrow> sorted_list_of_set {k \<in> stored s c. n \<le> k}
        | Reverse \<Rightarrow> rev (sorted_list_of_set {k \<in> stored s c. k \<le> n}))"

subsection \<open>Abstraction and invariant\<close>

definition chain_ids_of :: "store \<Rightarrow> error + u64 list" where
  "chain_ids_of m = (case m CHAIN_IDS_KEY of None \<Rightarrow> Inr [] | Some data \<Rightarrow> deserialize_chain_ids data)"

definition ranges_of :: "store \<Rightarrow> u64 \<Rightarrow> error + block_range list" where
  "ranges_of m c =
     (case m (make_block_ranges_key c) of None \<Rightarrow> Inr [] | Some data \<Rightarrow> deserialize_block_ranges data)"

definition abs_of :: "store \<Rightarrow> abs_db" where
  "abs_of m =
     \<lparr>chains = (case chain_ids_of m of Inl e \<Rightarrow> {} | Inr ids \<Rightarrow> set ids),
      blocks = (\<lambda>c n. m (make_block_key c n)),
      rules = (\<lambda>c. m (make_rules_update_heights_key c)),
      corrections = (\<lambda>c. m (make_corrections_key c)),
      failed_bundles = (\<lambda>c. m (make_failed_bundles_key c))\<rparr>"

definition chain_ids_inv :: "store \<Rightarrow> bool" where
  "chain_ids_inv m \<longleftrightarrow> (\<exists>ids. chain_ids_of m = Inr ids \<and> sorted_wrt (<) ids)"

definition ranges_inv :: "store \<Rightarrow> bool" where
  "ranges_inv m \<longleftrightarrow> (\<forall>c. \<exists>rs. ranges_of m c = Inr rs \<and> nonempty_ranges rs \<and> ranges_set rs = stored (abs_of m) c)"

definition chains_inv :: "abs_db \<Rightarrow> bool" where
  "chains_inv s \<longleftrightarrow> (\<forall>c. c \<notin> chains s \<longrightarrow>
     blocks s c = Map.empty \<and> rules s c = None \<and> corrections s c = None \<and> failed_bundles s c = None)"

definition db_inv :: "store \<Rightarrow> bool" where
  "db_inv m \<longleftrightarrow>
     m VERSION_KEY = Some (serialize_version CURRENT_VERSION) \<and> (\<forall>k \<in> dom m. known_key k) \<and>
     chain_ids_inv m \<and> ranges_inv m \<and> chains_inv (abs_of m)"

text \<open>Block number \<open>u64::MAX\<close> is the one for which ranges are not merged; a database
  without it stores canonical range lists.\<close>

definition db_canonical :: "store \<Rightarrow> bool" where
  "db_canonical m \<longleftrightarrow> (\<forall>c rs. ranges_of m c = Inr rs \<longrightarrow> canonical rs \<and> u64_max \<notin> ranges_set rs)"

subsection \<open>Updates of the store\<close>

lemma chain_ids_of_upd [simp]:
  "chain_ids_of (m(CHAIN_IDS_KEY \<mapsto> serialize_chain_ids ids)) = Inr ids"
  "k \<noteq> CHAIN_IDS_KEY \<Longrightarrow> chain_ids_of (m(k := v)) = chain_ids_of m"
  by (simp_all add: chain_ids_of_def)

lemma ranges_of_upd [simp]:
  "ranges_of (m(make_block_ranges_key c \<mapsto> serialize_block_ranges rs)) c' = (if c' = c then Inr rs else ranges_of m c')"
  "k \<noteq> make_block_ranges_key c \<Longrightarrow> ranges_of (m(k := v)) c = ranges_of m c"
  by (simp_all add: ranges_of_def)

lemma abs_of_sel [simp]:
  "blocks (abs_of m) c n = m (make_block_key c n)"
  "rules (abs_of m) c = m (make_rules_update_heights_key c)"
  "corrections (abs_of m) c = m (make_corrections_key c)"
  "failed_bundles (abs_of m) c = m (make_failed_bundles_key c)"
  by (simp_all add: abs_of_def)

lemma abs_of_chains [simp]: "chain_ids_of m = Inr ids \<Longrightarrow> chains (abs_of m) = set ids"
  by (simp add: abs_of_def)

lemma stored_abs_of [simp]: "stored (abs_of m) c = {n. m (make_block_key c n) \<noteq> None}"
  by (auto simp: stored_def dom_def)

lemma abs_db_eqI:
  "chains s = chains t \<Longrightarrow> (\<And>c n. blocks s c n = blocks t c n) \<Longrightarrow> rules s = rules t \<Longrightarrow>
   corrections s = corrections t \<Longrightarrow> failed_bundles s = failed_bundles t \<Longrightarrow> s = (t :: abs_db)"
  by (cases s; cases t) (simp add: fun_eq_iff)

lemmas abs_op_defs = abs_put_def abs_delete_def abs_put_rules_def abs_put_corrections_def
  abs_put_failed_bundles_def

lemma db_invD:
  assumes "db_inv m"
  obtains ids where "chain_ids_of m = Inr ids" "sorted_wrt (<) ids"
  using assms by (auto simp: db_inv_def chain_ids_inv_def)

text \<open>Preservation of the invariant from its parts: an update that writes known keys, a
  sorted list of chain IDs and, for every chain, ranges that denote its blocks.\<close>

lemma db_invI:
  assumes "m VERSION_KEY = Some (serialize_version CURRENT_VERSION)" and "\<And>k. m k \<noteq> None \<Longrightarrow> known_key k"
    and "chain_ids_of m = Inr ids" and "sorted_wrt (<) ids"
    and "\<And>c. \<exists>rs. ranges_of m c = Inr rs \<and> nonempty_ranges rs \<and> ranges_set rs = {n. m (make_block_key c n) \<noteq> None}"
    and "\<And>c. c \<notin> set ids \<Longrightarrow> (\<forall>n. m (make_block_key c n) = None) \<and>
        m (make_rules_update_heights_key c) = None \<and> m (make_corrections_key c) = None \<and>
        m (make_failed_bundles_key c) = None"
  shows "db_inv m"
  using assms by (auto simp: db_inv_def chain_ids_inv_def ranges_inv_def chains_inv_def fun_eq_iff)

lemma db_invD_full:
  assumes "db_inv m" and "chain_ids_of m = Inr ids"
  shows "m VERSION_KEY = Some (serialize_version CURRENT_VERSION)" and "\<And>k. m k \<noteq> None \<Longrightarrow> known_key k"
    and "sorted_wrt (<) ids"
    and "\<And>c. \<exists>rs. ranges_of m c = Inr rs \<and> nonempty_ranges rs \<and> ranges_set rs = {n. m (make_block_key c n) \<noteq> None}"
    and "\<And>c. c \<notin> set ids \<Longrightarrow> (\<forall>n. m (make_block_key c n) = None) \<and>
        m (make_rules_update_heights_key c) = None \<and> m (make_corrections_key c) = None \<and>
        m (make_failed_bundles_key c) = None"
proof -
  from assms have "(\<forall>k \<in> dom m. known_key k)" and ci: "chain_ids_inv m" and ri: "ranges_inv m"
    and ch: "chains_inv (abs_of m)" by (simp_all add: db_inv_def)
  then show "m k \<noteq> None \<Longrightarrow> known_key k" for k by blast
  show "sorted_wrt (<) ids" using ci assms(2) by (simp add: chain_ids_inv_def)
  show "\<exists>rs. ranges_of m c = Inr rs \<and> nonempty_ranges rs \<and> ranges_set rs = {n. m (make_block_key c n) \<noteq> None}" for c
    using ri unfolding ranges_inv_def stored_abs_of by blast
  show "m VERSION_KEY = Some (serialize_version CURRENT_VERSION)" using assms(1) by (simp add: db_inv_def)
  show "c \<notin> set ids \<Longrightarrow> (\<forall>n. m (make_block_key c n) = None) \<and>
        m (make_rules_update_heights_key c) = None \<and> m (make_corrections_key c) = None \<and>
        m (make_failed_bundles_key c) = None" for c
    using ch assms(2) by (simp add: chains_inv_def fun_eq_iff)
qed

text \<open>Chain metadata: one key of a chain and the list of chain IDs.\<close>

lemma db_inv_put_meta:
  fixes data :: bytes
  assumes inv: "db_inv m" and ids: "chain_ids_of m = Inr ids"
    and key: "key = make_rules_update_heights_key c \<or> key = make_corrections_key c \<or> key = make_failed_bundles_key c"
  defines "m' \<equiv> m(key \<mapsto> data, CHAIN_IDS_KEY \<mapsto> serialize_chain_ids (insert_sorted c ids))"
  shows "db_inv m'" and "ranges_of m' = ranges_of m"
proof -
  note D = db_invD_full [OF inv ids]
  note ins = insert_sorted_correct [OF D(3), of c]
  have r: "ranges_of m' c' = ranges_of m c'" for c'
    using key by (auto simp: m'_def ranges_of_def)
  then show "ranges_of m' = ranges_of m" by blast
  have b: "m' (make_block_key c' n) = m (make_block_key c' n)" for c' n
    using key by (auto simp: m'_def)
  show "db_inv m'"
  proof (rule db_invI)
    show "m' VERSION_KEY = Some (serialize_version CURRENT_VERSION)" using key D(1) by (auto simp: m'_def)
    show "known_key k" if "m' k \<noteq> None" for k
      using that key D(2) [of k] by (auto simp: m'_def split: if_splits)
    show "chain_ids_of m' = Inr (insert_sorted c ids)" by (simp add: m'_def)
    show "sorted_wrt (<) (insert_sorted c ids)" using ins by blast
    show "\<exists>rs. ranges_of m' c' = Inr rs \<and> nonempty_ranges rs \<and> ranges_set rs = {n. m' (make_block_key c' n) \<noteq> None}" for c'
      using D(4) [of c'] by (simp add: r b)
    show "(\<forall>n. m' (make_block_key c' n) = None) \<and> m' (make_rules_update_heights_key c') = None \<and>
        m' (make_corrections_key c') = None \<and> m' (make_failed_bundles_key c') = None"
      if "c' \<notin> set (insert_sorted c ids)" for c'
      using that key ins D(5) [of c'] by (auto simp: b) (auto simp: m'_def)
  qed
qed


lemma db_inv_put_block:
  fixes data :: bytes and n :: u64
  assumes inv: "db_inv m" and ids: "chain_ids_of m = Inr ids" and rs: "ranges_of m c = Inr rs"
  defines "m' \<equiv> m(make_block_key c n \<mapsto> data,
      make_block_ranges_key c \<mapsto> serialize_block_ranges (add_range rs (BlockRange n n)),
      CHAIN_IDS_KEY \<mapsto> serialize_chain_ids (insert_sorted c ids))"
  shows "db_inv m'" and "abs_of m' = abs_put c n data (abs_of m)"
    and "db_canonical m \<Longrightarrow> n \<noteq> u64_max \<Longrightarrow> db_canonical m'"
proof -
  note D = db_invD_full [OF inv ids]
  note ins = insert_sorted_correct [OF D(3), of c]
  have r: "ranges_of m' c' = (if c' = c then Inr (add_range rs (BlockRange n n)) else ranges_of m c')" for c'
    by (simp add: m'_def)
  have b: "m' (make_block_key c' k) = (if c' = c \<and> k = n then Some data else m (make_block_key c' k))" for c' k
    by (simp add: m'_def)
  have ids': "chain_ids_of m' = Inr (insert_sorted c ids)" by (simp add: m'_def)
  show "db_inv m'"
  proof (rule db_invI)
    show "m' VERSION_KEY = Some (serialize_version CURRENT_VERSION)" using D(1) by (simp add: m'_def)
    show "known_key k" if "m' k \<noteq> None" for k
      using that D(2) [of k] by (auto simp: m'_def split: if_splits)
    show "chain_ids_of m' = Inr (insert_sorted c ids)" by (fact ids')
    show "sorted_wrt (<) (insert_sorted c ids)" using ins by blast
    show "\<exists>rs. ranges_of m' c' = Inr rs \<and> nonempty_ranges rs \<and> ranges_set rs = {k. m' (make_block_key c' k) \<noteq> None}" for c'
      using D(4) [of c'] rs by (auto simp: r b)
    show "(\<forall>k. m' (make_block_key c' k) = None) \<and> m' (make_rules_update_heights_key c') = None \<and>
        m' (make_corrections_key c') = None \<and> m' (make_failed_bundles_key c') = None"
      if "c' \<notin> set (insert_sorted c ids)" for c'
      using that ins D(5) [of c'] by (auto simp: b) (auto simp: m'_def)
  qed
  show "abs_of m' = abs_put c n data (abs_of m)"
    by (rule abs_db_eqI) (use ids ids' ins in \<open>auto simp: b abs_put_def fun_eq_iff\<close>, auto simp: m'_def)
  show "db_canonical m'" if "db_canonical m" "n \<noteq> u64_max"
    using that rs by (auto simp: db_canonical_def r intro!: canonical_add_range)
qed

lemma db_inv_delete_range:
  assumes inv: "db_inv m" and rs: "ranges_of m c = Inr rs" and ab: "a \<le> b"
  defines "m' \<equiv> (\<lambda>k. if make_block_key c a \<le> k \<and> k \<le> make_block_key c b then None else m k)
      (make_block_ranges_key c \<mapsto> serialize_block_ranges (subtract_range rs (BlockRange a b)))"
  shows "db_inv m'" and "abs_of m' = abs_delete c a b (abs_of m)" and "db_canonical m \<Longrightarrow> db_canonical m'"
proof -
  obtain ids where ids: "chain_ids_of m = Inr ids" using inv by (rule db_invD)
  note D = db_invD_full [OF inv ids]
  have meta: "m' k = m k" if "metadata_key k" "k \<noteq> make_block_ranges_key c" for k
    using that metadata_key_less_block_key [of k c a] by (auto simp: m'_def)
  have keys: "metadata_key VERSION_KEY" "metadata_key CHAIN_IDS_KEY" "metadata_key (make_block_ranges_key c')"
    "metadata_key (make_rules_update_heights_key c')" "metadata_key (make_corrections_key c')"
    "metadata_key (make_failed_bundles_key c')" for c' by (auto simp: metadata_key_def)
  have r: "ranges_of m' c' = (if c' = c then Inr (subtract_range rs (BlockRange a b)) else ranges_of m c')" for c'
    using meta [OF keys(3) [of c']] by (auto simp: ranges_of_def) (simp add: m'_def)
  have b: "m' (make_block_key c' k) =
      (if c' = c \<and> a \<le> k \<and> k \<le> b then None else m (make_block_key c' k))" for c' k
    by (auto simp: m'_def make_block_key_le)
  have ids': "chain_ids_of m' = Inr ids" using ids meta [OF keys(2)] by (simp add: chain_ids_of_def)
  note meta' = meta [OF keys(1)] meta [OF keys(4)] meta [OF keys(5)] meta [OF keys(6)]
  show "db_inv m'"
  proof (rule db_invI)
    show "m' VERSION_KEY = Some (serialize_version CURRENT_VERSION)" using D(1) meta' by simp
    show "known_key k" if "m' k \<noteq> None" for k
      using that D(2) [of k] by (auto simp: m'_def split: if_splits)
    show "chain_ids_of m' = Inr ids" by (fact ids')
    show "sorted_wrt (<) ids" by (fact D(3))
    show "\<exists>rs. ranges_of m' c' = Inr rs \<and> nonempty_ranges rs \<and> ranges_set rs = {k. m' (make_block_key c' k) \<noteq> None}" for c'
      using D(4) [of c'] rs ab by (auto simp: r b ranges_set_subtract_range)
    show "(\<forall>k. m' (make_block_key c' k) = None) \<and> m' (make_rules_update_heights_key c') = None \<and>
        m' (make_corrections_key c') = None \<and> m' (make_failed_bundles_key c') = None"
      if "c' \<notin> set ids" for c'
      using D(5) [OF that] by (simp add: b meta')
  qed
  show "abs_of m' = abs_delete c a b (abs_of m)"
    by (rule abs_db_eqI) (use ids ids' in \<open>auto simp: b meta' abs_delete_def fun_eq_iff\<close>)
  show "db_canonical m'" if "db_canonical m"
    using that rs ab
    by (auto simp: db_canonical_def r canonical_subtract_range ranges_set_subtract_range)
qed

subsection \<open>Operations on any store that meets the contract\<close>

text \<open>The outcome of an operation: an error that leaves the stored pairs as they were, or a
  new state that satisfies the invariant and abstracts to the expected one.\<close>

definition outcome :: "(abs_db \<Rightarrow> abs_db) \<Rightarrow> store \<Rightarrow> error + unit \<Rightarrow> store \<Rightarrow> bool" where
  "outcome g m r m' \<longleftrightarrow>
     (case r of Inl e \<Rightarrow> m' = m | Inr u \<Rightarrow> db_inv m' \<and> abs_of m' = g (abs_of m))"

lemma outcome_simps [simp]:
  "outcome g m (Inl e) m' \<longleftrightarrow> m' = m"
  "outcome g m (Inr u) m' \<longleftrightarrow> db_inv m' \<and> abs_of m' = g (abs_of m)"
  by (simp_all add: outcome_def)

context kv_store
begin

lemma get_chain_ids_ok: "get_chain_ids kv d = Inr ids \<Longrightarrow> chain_ids_of (view d) = Inr ids"
  by (auto simp: get_chain_ids_def chain_ids_of_def unwrap_or_default_def opt_transpose_Inr_iff
      dest!: get_ok)

lemma get_ranges_ok: "get_ranges_of_chain_id kv d c = Inr rs \<Longrightarrow> ranges_of (view d) c = Inr rs"
  by (auto simp: get_ranges_of_chain_id_def ranges_of_def unwrap_or_default_def opt_transpose_Inr_iff
      dest!: get_ok)

lemma execute_in_batch_ok:
  "execute_in_batch kv d f = (Inr u, d') \<Longrightarrow> view d' = bview (f (kv_batch_raw kv d)) (view d)"
  by (simp add: execute_in_batch_def write_ok)

lemma execute_in_batch_err: "execute_in_batch kv d f = (Inl e, d') \<Longrightarrow> view d' = view d"
  by (simp add: execute_in_batch_def write_err)

text \<open>The shape of all writes: read the metadata, apply a batch, write it atomically.\<close>

lemma execute_in_batch_outcome:
  assumes "execute_in_batch kv d f = (r, d')"
    and "\<And>u. r = Inr u \<Longrightarrow> view d' = bview (f (kv_batch_raw kv d)) (view d) \<Longrightarrow>
        db_inv (view d') \<and> abs_of (view d') = g (abs_of (view d))"
  shows "outcome g (view d) r (view d')"
  using assms execute_in_batch_ok execute_in_batch_err by (cases r) auto

lemma put_bytes_outcome:
  assumes inv: "db_inv (view d)" and run: "put_bytes kv d c n data = (r, d')"
  shows "outcome (abs_put c n data) (view d) r (view d')"
    and "db_canonical (view d) \<Longrightarrow> n \<noteq> u64_max \<Longrightarrow> db_canonical (view d')"
proof -
  have "outcome (abs_put c n data) (view d) r (view d') \<and>
      (db_canonical (view d) \<longrightarrow> n \<noteq> u64_max \<longrightarrow> db_canonical (view d'))"
  proof (cases "\<exists>ids rs. get_chain_ids kv d = Inr ids \<and> get_ranges_of_chain_id kv d c = Inr rs")
    case True
    then obtain ids rs where g: "get_chain_ids kv d = Inr ids" "get_ranges_of_chain_id kv d c = Inr rs"
      by blast
    note P = db_inv_put_block [OF inv get_chain_ids_ok [OF g(1)] get_ranges_ok [OF g(2)], of n data]
    show ?thesis
      using run P by (cases r)
        (auto simp: put_bytes_def g batch_put batch_empty dest!: execute_in_batch_ok execute_in_batch_err)
  next
    case False
    then show ?thesis using run by (auto simp: put_bytes_def split: sum.splits)
  qed
  then show "outcome (abs_put c n data) (view d) r (view d')"
    and "db_canonical (view d) \<Longrightarrow> n \<noteq> u64_max \<Longrightarrow> db_canonical (view d')" by blast+
qed

lemma delete_range_outcome:
  assumes inv: "db_inv (view d)" and run: "delete_range kv d c a b = (r, d')"
  shows "outcome (abs_delete c a b) (view d) r (view d')"
    and "db_canonical (view d) \<Longrightarrow> db_canonical (view d')"
proof -
  have "outcome (abs_delete c a b) (view d) r (view d') \<and> (db_canonical (view d) \<longrightarrow> db_canonical (view d'))"
  proof (cases "\<exists>rs. get_ranges_of_chain_id kv d c = Inr rs \<and> a \<le> b")
    case True
    then obtain rs where g: "get_ranges_of_chain_id kv d c = Inr rs" and ab: "a \<le> b" by blast
    then have nlt: "(b < a) = False" by simp
    have key: "make_block_key c a \<le> make_block_key c b" using ab by (simp add: make_block_key_le)
    note del = batch_delete_range [OF key, of "kv_batch_raw kv d", unfolded batch_empty]
    show ?thesis
      using run ab db_inv_delete_range [OF inv get_ranges_ok [OF g] ab] by (cases r)
        (auto simp: delete_range_def g nlt batch_put batch_empty del
          dest!: execute_in_batch_ok execute_in_batch_err)
  next
    case False
    then show ?thesis using run by (auto simp: delete_range_def split: sum.splits if_splits)
  qed
  then show "outcome (abs_delete c a b) (view d) r (view d')"
    and "db_canonical (view d) \<Longrightarrow> db_canonical (view d')" by blast+
qed

lemma put_meta_outcome:
  assumes inv: "db_inv (view d)"
    and key: "key = make_rules_update_heights_key c \<or> key = make_corrections_key c \<or> key = make_failed_bundles_key c"
    and run: "(case get_chain_ids kv d of Inl e \<Rightarrow> (Inl e, d)
        | Inr chain_ids \<Rightarrow> execute_in_batch kv d (\<lambda>batch.
            batch_put_raw kv (batch_put_raw kv batch key data)
              CHAIN_IDS_KEY (serialize_chain_ids (insert_sorted c chain_ids)))) = (r, d')"
    and g: "\<And>ids. chain_ids_of (view d) = Inr ids \<Longrightarrow>
        abs_of ((view d)(key \<mapsto> data, CHAIN_IDS_KEY \<mapsto> serialize_chain_ids (insert_sorted c ids))) = g (abs_of (view d))"
  shows "outcome g (view d) r (view d') \<and> (db_canonical (view d) \<longrightarrow> db_canonical (view d'))"
proof (cases "get_chain_ids kv d")
  case (Inl e)
  then show ?thesis using run by auto
next
  case (Inr ids)
  note P = db_inv_put_meta [OF inv get_chain_ids_ok [OF Inr] key, of data]
  show ?thesis
    using run P g [OF get_chain_ids_ok [OF Inr]] by (cases r)
      (auto simp: Inr batch_put batch_empty db_canonical_def dest!: execute_in_batch_ok execute_in_batch_err)
qed

lemma abs_of_put_meta:
  assumes "db_inv m" and "chain_ids_of m = Inr ids"
  shows "abs_of (m(make_rules_update_heights_key c \<mapsto> data, CHAIN_IDS_KEY \<mapsto> serialize_chain_ids (insert_sorted c ids)))
      = abs_put_rules c data (abs_of m)"
    and "abs_of (m(make_corrections_key c \<mapsto> data, CHAIN_IDS_KEY \<mapsto> serialize_chain_ids (insert_sorted c ids)))
      = abs_put_corrections c data (abs_of m)"
    and "abs_of (m(make_failed_bundles_key c \<mapsto> data, CHAIN_IDS_KEY \<mapsto> serialize_chain_ids (insert_sorted c ids)))
      = abs_put_failed_bundles c data (abs_of m)"
  by (rule abs_db_eqI;
      use assms insert_sorted_correct [OF db_invD_full(3) [OF assms], of c] in \<open>auto simp: abs_op_defs fun_eq_iff\<close>)+

lemma put_metadata_outcomes:
  assumes "db_inv (view d)"
  shows "put_rules_update_heights kv d c data = (r, d') \<Longrightarrow>
      outcome (abs_put_rules c data) (view d) r (view d') \<and> (db_canonical (view d) \<longrightarrow> db_canonical (view d'))"
    and "put_corrections kv d c data = (r, d') \<Longrightarrow>
      outcome (abs_put_corrections c data) (view d) r (view d') \<and> (db_canonical (view d) \<longrightarrow> db_canonical (view d'))"
    and "put_failed_bundles kv d c data = (r, d') \<Longrightarrow>
      outcome (abs_put_failed_bundles c data) (view d) r (view d') \<and> (db_canonical (view d) \<longrightarrow> db_canonical (view d'))"
  unfolding put_rules_update_heights_def put_corrections_def put_failed_bundles_def
  by (erule put_meta_outcome [OF assms, rotated]; simp add: abs_of_put_meta assms)+

end

subsection \<open>Batches\<close>

text \<open>A batch holds a sequence of puts when its key-value batch applies them in order and its
  ranges denote, chain by chain, the block numbers put.\<close>

definition put_keys :: "(u64 \<times> u64 \<times> bytes) list \<Rightarrow> store \<Rightarrow> store" where
  "put_keys puts m = fold (\<lambda>(c, n, data) m. m(make_block_key c n \<mapsto> data)) puts m"

definition numbers_of :: "(u64 \<times> u64 \<times> bytes) list \<Rightarrow> u64 \<Rightarrow> u64 set" where
  "numbers_of puts c = {n. \<exists>data. (c, n, data) \<in> set puts}"

definition batch_holds ::
  "('b \<Rightarrow> store \<Rightarrow> store) \<Rightarrow> 'b kv_batch_wrapper \<Rightarrow> (u64 \<times> u64 \<times> bytes) list \<Rightarrow> bool" where
  "batch_holds bview batch puts \<longleftrightarrow>
     (\<forall>m. bview (kv_batch batch) m = put_keys puts m) \<and>
     distinct (map fst (block_ranges batch)) \<and>
     fst ` set (block_ranges batch) = fst ` set puts \<and>
     (\<forall>c rs. (c, rs) \<in> set (block_ranges batch) \<longrightarrow> ranges_set rs = numbers_of puts c)"

lemma fst_add_to_entry [simp]: "fst ` set (add_to_entry c r xs) = insert c (fst ` set xs)"
  by (induction c r xs rule: add_to_entry.induct) auto

lemma distinct_add_to_entry:
  "distinct (map fst xs) \<Longrightarrow> distinct (map fst (add_to_entry c r xs))"
proof (induction c r xs rule: add_to_entry.induct)
  case (2 c r d rs xs)
  then show ?case using fst_add_to_entry [of c r xs] by (auto simp del: fst_add_to_entry)
qed simp

lemma add_to_entry_ranges:
  assumes "distinct (map fst xs)" and "\<forall>c' rs. (c', rs) \<in> set xs \<longrightarrow> ranges_set rs = f c'"
    and "c \<notin> fst ` set xs \<Longrightarrow> f c = {}"
    and "(c', rs) \<in> set (add_to_entry c r xs)"
  shows "ranges_set rs = (if c' = c then f c \<union> range_set r else f c')"
  using assms by (induction c r xs rule: add_to_entry.induct) (force split: if_splits)+

lemma put_keys_snoc [simp]: "put_keys (puts @ [(c, n, data)]) m = (put_keys puts m)(make_block_key c n \<mapsto> data)"
  by (simp add: put_keys_def)

lemma put_keys_other: "(\<And>c n. k \<noteq> make_block_key c n) \<Longrightarrow> put_keys puts m k = m k"
  by (induction puts rule: rev_induct) (auto simp: put_keys_def)

lemma put_keys_block: "put_keys puts (m :: store) (make_block_key c n) = blocks (abs_put_all puts (abs_of m)) c n"
  by (induction puts rule: rev_induct) (auto simp: put_keys_def abs_put_all_def abs_put_def)

lemma put_keys_dom: "put_keys puts m (make_block_key c n) \<noteq> None \<longleftrightarrow> n \<in> numbers_of puts c \<or> m (make_block_key c n) \<noteq> None"
  by (induction puts rule: rev_induct) (auto simp: put_keys_def numbers_of_def split: if_splits)

lemma abs_put_all_sel [simp]:
  "chains (abs_put_all puts s) = chains s \<union> fst ` set puts"
  "rules (abs_put_all puts s) = rules s" "corrections (abs_put_all puts s) = corrections s"
  "failed_bundles (abs_put_all puts s) = failed_bundles s"
  by (induction puts rule: rev_induct) (simp_all add: abs_put_all_def abs_put_def case_prod_beta)

lemma canonical_foldl_add_range:
  "canonical rs \<Longrightarrow> u64_max \<notin> ranges_set rs \<union> ranges_set qs \<Longrightarrow> canonical (foldl add_range rs qs)"
proof (induction qs arbitrary: rs)
  case (Cons q qs)
  then show ?case by (simp add: canonical_add_range)
qed simp

lemma db_inv_put_all:
  assumes inv: "db_inv m" and ids: "chain_ids_of m = Inr ids"
    and ids': "chain_ids_of m' = Inr ids'" "sorted_wrt (<) ids'" "set ids' = set ids \<union> fst ` set puts"
    and rng: "\<And>c. c \<in> fst ` set puts \<Longrightarrow> \<exists>rs rs'. ranges_of m c = Inr rs \<and> ranges_of m' c = Inr rs' \<and>
        (nonempty_ranges rs \<longrightarrow> nonempty_ranges rs') \<and> ranges_set rs' = ranges_set rs \<union> numbers_of puts c"
    and rng': "\<And>c. c \<notin> fst ` set puts \<Longrightarrow> ranges_of m' c = ranges_of m c"
    and other: "\<And>k. k \<noteq> CHAIN_IDS_KEY \<Longrightarrow> k \<notin> range make_block_ranges_key \<Longrightarrow> m' k = put_keys puts m k"
  shows "db_inv m'" and "abs_of m' = abs_put_all puts (abs_of m)"
proof -
  note D = db_invD_full [OF inv ids]
  have b: "m' (make_block_key c n) = put_keys puts m (make_block_key c n)" for c n
    by (rule other) auto
  have meta: "m' VERSION_KEY = m VERSION_KEY" "m' (make_rules_update_heights_key c) = m (make_rules_update_heights_key c)"
    "m' (make_corrections_key c) = m (make_corrections_key c)"
    "m' (make_failed_bundles_key c) = m (make_failed_bundles_key c)" for c
    by (subst other; auto simp: put_keys_other)+
  have num: "n \<in> numbers_of puts c \<Longrightarrow> c \<in> fst ` set puts" for n c by (force simp: numbers_of_def)
  show "db_inv m'"
  proof (rule db_invI)
    show "m' VERSION_KEY = Some (serialize_version CURRENT_VERSION)" using D(1) meta by simp
    show "known_key k" if k: "m' k \<noteq> None" for k
    proof (cases "k = CHAIN_IDS_KEY \<or> k \<in> range make_block_ranges_key \<or> (\<exists>c n. k = make_block_key c n)")
      case False
      then have "m' k = m k" using other [of k] put_keys_other [of k puts m] by auto
      then show ?thesis using k D(2) by simp
    qed auto
    show "chain_ids_of m' = Inr ids'" and "sorted_wrt (<) ids'" by (fact ids')+
    show "\<exists>rs. ranges_of m' c = Inr rs \<and> nonempty_ranges rs \<and> ranges_set rs = {n. m' (make_block_key c n) \<noteq> None}" for c
    proof (cases "c \<in> fst ` set puts")
      case True
      then show ?thesis using rng [OF True] D(4) [of c] unfolding b put_keys_dom by auto
    next
      case False
      then show ?thesis using rng' [OF False] D(4) [of c] num unfolding b put_keys_dom by auto
    qed
    show "(\<forall>n. m' (make_block_key c n) = None) \<and> m' (make_rules_update_heights_key c) = None \<and>
        m' (make_corrections_key c) = None \<and> m' (make_failed_bundles_key c) = None"
      if "c \<notin> set ids'" for c
    proof -
      have "c \<notin> set ids" "c \<notin> fst ` set puts" using that ids'(3) by auto
      with D(5) [of c] num put_keys_dom [of puts m c] have "put_keys puts m (make_block_key c n) = None" for n
        by blast
      with D(5) [of c] \<open>c \<notin> set ids\<close> show ?thesis by (simp add: meta b)
    qed
  qed
  show "abs_of m' = abs_put_all puts (abs_of m)"
    by (rule abs_db_eqI) (use ids ids' in \<open>auto simp: meta b put_keys_block fun_eq_iff\<close>)
qed

context kv_store
begin

lemma new_batch_holds: "batch_holds bview (new_batch kv d) []"
  by (simp add: batch_holds_def new_batch_def batch_empty put_keys_def)

lemma batch_put_bytes_holds:
  assumes "batch_holds bview batch puts"
  shows "batch_holds bview (batch_put_bytes kv batch c n data) (puts @ [(c, n, data)])"
proof -
  have "ranges_set rs = numbers_of (puts @ [(c, n, data)]) c'"
    if "(c', rs) \<in> set (add_to_entry c (BlockRange n n) (block_ranges batch))" for c' rs
  proof -
    have "c \<notin> fst ` set puts \<Longrightarrow> numbers_of puts c = {}" by (force simp: numbers_of_def)
    then show ?thesis
      using add_to_entry_ranges [OF _ _ _ that, of "numbers_of puts"] assms
      by (auto simp: batch_holds_def numbers_of_def)
  qed
  then show ?thesis
    using assms by (simp add: batch_holds_def batch_put_bytes_def batch_put distinct_add_to_entry)
qed

lemma write_batch_loop_ok:
  assumes "write_batch_loop kv d xs ids b = Inr (ids', b')" and "sorted_wrt (<) ids"
    and "distinct (map fst xs)"
  shows "sorted_wrt (<) ids' \<and> set ids' = set ids \<union> fst ` set xs \<and>
     (\<forall>c new. (c, new) \<in> set xs \<longrightarrow> (\<exists>rs. ranges_of (view d) c = Inr rs \<and>
        bview b' m (make_block_ranges_key c) = Some (serialize_block_ranges (foldl add_range rs new)))) \<and>
     (\<forall>k. k \<notin> make_block_ranges_key ` fst ` set xs \<longrightarrow> bview b' m k = bview b m k)"
  using assms
proof (induction xs arbitrary: ids b)
  case Nil
  then show ?case by simp
next
  case (Cons x xs)
  obtain c new where x: "x = (c, new)" by (cases x)
  from Cons.prems obtain rs where rs: "get_ranges_of_chain_id kv d c = Inr rs"
    and run: "write_batch_loop kv d xs (insert_sorted c ids)
        (batch_put_raw kv b (make_block_ranges_key c) (serialize_block_ranges (foldl add_range rs new))) = Inr (ids', b')"
    by (auto simp: x)
  note ins = insert_sorted_correct [OF Cons.prems(2), of c]
  have IH: "sorted_wrt (<) ids' \<and> set ids' = set (insert_sorted c ids) \<union> fst ` set xs \<and>
     (\<forall>c new. (c, new) \<in> set xs \<longrightarrow> (\<exists>rs. ranges_of (view d) c = Inr rs \<and>
        bview b' m (make_block_ranges_key c) = Some (serialize_block_ranges (foldl add_range rs new)))) \<and>
     (\<forall>k. k \<notin> make_block_ranges_key ` fst ` set xs \<longrightarrow> bview b' m k =
        ((bview b m)(make_block_ranges_key c \<mapsto> serialize_block_ranges (foldl add_range rs new))) k)"
    using Cons.IH [OF run] ins Cons.prems(3) by (simp add: x batch_put)
  have "make_block_ranges_key c \<notin> make_block_ranges_key ` fst ` set xs"
    using Cons.prems(3) by (force simp: x)
  then have "bview b' m (make_block_ranges_key c) = Some (serialize_block_ranges (foldl add_range rs new))"
    using IH by simp
  with IH get_ranges_ok [OF rs] ins show ?case by (auto simp: x)
qed

lemma write_batch_outcome:
  assumes inv: "db_inv (view d)" and holds: "batch_holds bview batch puts"
    and ho: "mset (ho (block_ranges batch)) = mset (block_ranges batch)"
    and run: "write_batch kv ho d batch = (r, d')"
  shows "outcome (abs_put_all puts) (view d) r (view d') \<and>
    (db_canonical (view d) \<longrightarrow> (\<forall>c. u64_max \<notin> numbers_of puts c) \<longrightarrow> db_canonical (view d'))"
proof -
  define xs where "xs = ho (block_ranges batch)"
  have set_xs: "set xs = set (block_ranges batch)" using ho mset_eq_setD xs_def by blast
  have "mset (map fst xs) = mset (map fst (block_ranges batch))" using ho by (simp add: xs_def)
  from mset_eq_imp_distinct_iff [OF this] have dist: "distinct (map fst xs)"
    using holds by (simp add: batch_holds_def)
  have keys: "fst ` set xs = fst ` set puts" and
    num: "\<And>c rs. (c, rs) \<in> set xs \<Longrightarrow> ranges_set rs = numbers_of puts c"
    using holds by (auto simp: batch_holds_def set_xs)
  consider (empty) "block_ranges batch = []" "r = Inr ()" "d' = d" | (err) e where "r = Inl e" "d' = d"
    | (store) ids ids' b' where "get_chain_ids kv d = Inr ids"
        "write_batch_loop kv d xs ids (kv_batch batch) = Inr (ids', b')"
        "kv_write_batch_raw kv d (batch_put_raw kv b' CHAIN_IDS_KEY (serialize_chain_ids ids')) = (r, d')"
    using run by (auto simp: write_batch_def xs_def split: if_splits sum.splits)
  then show ?thesis
  proof cases
    case empty
    then have "puts = []" using holds by (simp add: batch_holds_def)
    then show ?thesis using empty inv by (simp add: abs_put_all_def)
  next
    case err
    then show ?thesis by simp
  next
    case store
    define m m' where "m = view d" and
      "m' = (bview b' (view d))(CHAIN_IDS_KEY \<mapsto> serialize_chain_ids ids')"
    note ids = get_chain_ids_ok [OF store(1), folded m_def]
    note L = write_batch_loop_ok [OF store(2) db_invD_full(3) [OF inv [folded m_def] ids] dist, of m, folded m_def]
    have rng: "\<exists>rs rs'. ranges_of m c = Inr rs \<and> ranges_of m' c = Inr rs' \<and>
        (nonempty_ranges rs \<longrightarrow> nonempty_ranges rs') \<and> ranges_set rs' = ranges_set rs \<union> numbers_of puts c \<and>
        (canonical rs \<longrightarrow> u64_max \<notin> ranges_set rs \<union> numbers_of puts c \<longrightarrow> canonical rs')"
      if c: "c \<in> fst ` set puts" for c
    proof -
      from c keys obtain new where new: "(c, new) \<in> set xs" by (metis imageE prod.collapse)
      then obtain rs where rs: "ranges_of m c = Inr rs"
        "bview b' m (make_block_ranges_key c) = Some (serialize_block_ranges (foldl add_range rs new))"
        using L by blast
      then have "ranges_of m' c = Inr (foldl add_range rs new)"
        unfolding ranges_of_def [of m'] by (simp add: m'_def m_def)
      with rs(1) show ?thesis
        using num [OF new] ranges_set_foldl_add_range canonical_foldl_add_range nonempty_ranges_foldl_add_range by simp
    qed
    have rng': "ranges_of m' c = ranges_of m c" if "c \<notin> fst ` set puts" for c
      using L that holds keys
      by (auto simp: m'_def m_def ranges_of_def batch_holds_def put_keys_other image_iff)
    have other: "m' k = put_keys puts m k" if "k \<noteq> CHAIN_IDS_KEY" "k \<notin> range make_block_ranges_key" for k
    proof -
      have "k \<notin> make_block_ranges_key ` fst ` set xs" using that(2) by blast
      then show ?thesis using L that(1) holds by (simp add: m'_def m_def batch_holds_def)
    qed
    have ids': "chain_ids_of m' = Inr ids'" "sorted_wrt (<) ids'" "set ids' = set ids \<union> fst ` set puts"
      using L keys by (simp_all add: m'_def)
    have rng2: "\<exists>rs rs'. ranges_of m c = Inr rs \<and> ranges_of m' c = Inr rs' \<and>
        (nonempty_ranges rs \<longrightarrow> nonempty_ranges rs') \<and> ranges_set rs' = ranges_set rs \<union> numbers_of puts c" if "c \<in> fst ` set puts" for c
      using rng [OF that] by blast
    note P = db_inv_put_all [OF inv [folded m_def] ids ids' rng2 rng' other]
    have C: "db_canonical m'" if "db_canonical m" "\<forall>c. u64_max \<notin> numbers_of puts c"
      using that rng rng' unfolding db_canonical_def by (metis UnE sum.inject(2))
    show ?thesis
    proof (cases r)
      case (Inl e)
      then show ?thesis using store(3) write_err by simp
    next
      case (Inr u)
      then have "view d' = m'" using store(3) write_ok by (simp add: m'_def batch_put)
      then show ?thesis using Inr P C by (simp add: m_def)
    qed
  qed
qed

end

subsection \<open>Iteration\<close>

lemma takeWhile_eq_filter:
  "sorted_wrt (\<lambda>x y. P y \<longrightarrow> P x) xs \<Longrightarrow> takeWhile P xs = filter P xs"
  by (induction xs) (auto simp: filter_empty_conv [symmetric] simp del: filter_empty_conv intro: sym filter_False)

lemma sorted_list_of_set_filter:
  "finite S \<Longrightarrow> filter P (sorted_list_of_set S) = sorted_list_of_set {x \<in> S. P x}"
  by (rule sorted_distinct_set_unique) (auto intro: sorted_wrt_filter)

lemma sorted_list_of_set_strict_mono_image:
  fixes f :: "'a::linorder \<Rightarrow> 'b::linorder"
  assumes "finite S" and "\<And>x y. f x < f y \<longleftrightarrow> x < y"
  shows "sorted_list_of_set (f ` S) = map f (sorted_list_of_set S)"
proof (rule sorted_distinct_set_unique)
  have "sorted_wrt (\<lambda>x y. f x < f y) (sorted_list_of_set S)"
    using strict_sorted_list_of_set [of S] by (simp add: assms(2))
  then have "sorted_wrt (<) (map f (sorted_list_of_set S))" by (simp add: sorted_wrt_map)
  then show "sorted (map f (sorted_list_of_set S))" "distinct (map f (sorted_list_of_set S))"
    by (auto simp: strict_sorted_iff)
qed (use assms(1) in auto)

definition chain_key :: "u64 \<Rightarrow> bytes \<Rightarrow> bool" where
  "chain_key c k \<longleftrightarrow> (\<exists>n. k = make_block_key c n)"

lemma iter_item_block:
  "iter_item c (Inr (make_block_key c' n, v)) = (if c' = c then Some (Inr (n, v)) else None)"
  by (simp add: iter_item_def make_block_key_def)

lemma iter_item_metadata: "metadata_key k \<Longrightarrow> iter_item c (Inr (k, v)) = None"
  using metadata_key_length by (auto simp: iter_item_def)

lemma iter_item_known: "known_key k \<Longrightarrow> \<not> chain_key c k \<Longrightarrow> iter_item c (Inr (k, v)) = None"
  by (auto simp: known_key_def chain_key_def iter_item_block iter_item_metadata)

lemma map_while_stop_stream:
  assumes "stream_of (map (\<lambda>n. (make_block_key c n, f n)) ns @ rest) rs"
    and "rest = [] \<or> iter_item c (Inr (hd rest)) = None"
  shows "stream_of (map (\<lambda>n. (n, f n)) ns) (map_while_stop False (map (iter_item c) rs))"
proof -
  have all: "map_while_stop False (map (iter_item c) (map (\<lambda>n. Inr (make_block_key c n, f n)) ns @ xs)) =
      map (\<lambda>n. Inr (n, f n)) ns @ map_while_stop False (map (iter_item c) xs)" for ns xs
    by (induction ns) (simp_all add: iter_item_block)
  have rest: "map_while_stop False (map (iter_item c) (map Inr (take k rest) @ xs)) = []" if "0 < k" "rest \<noteq> []" for k xs
    using assms(2) that by (cases rest; cases k) simp_all
  have err: "map_while_stop False (map (iter_item c) [Inl e]) = [Inl e]" for e by (simp add: iter_item_def)
  from assms(1) consider "rs = map Inr (map (\<lambda>n. (make_block_key c n, f n)) ns @ rest)"
    | k e where "rs = map Inr (take k (map (\<lambda>n. (make_block_key c n, f n)) ns @ rest)) @ [Inl e]"
    by (auto simp: stream_of_def)
  then show ?thesis
  proof cases
    case 1
    then have "map_while_stop False (map (iter_item c) rs) = map Inr (map (\<lambda>n. (n, f n)) ns)"
      using all [of ns "map Inr rest"] rest [of "length rest" "[]"] by (cases "rest = []") (auto simp: comp_def)
    then show ?thesis by (simp add: stream_of_def)
  next
    case 2
    show ?thesis
    proof (cases "length ns < k \<and> rest \<noteq> []")
      case True
      then have "map_while_stop False (map (iter_item c) rs) = map Inr (map (\<lambda>n. (n, f n)) ns)"
        using 2 all [of ns "map Inr (take (k - length ns) rest) @ [Inl e]"] rest [of "k - length ns" "[Inl e]"]
        by (simp add: comp_def take_map)
      then show ?thesis by (simp add: stream_of_def)
    next
      case False
      then have "rs = map (\<lambda>n. Inr (make_block_key c n, f n)) (take k ns) @ [Inl e]"
        using 2 by (auto simp: take_map comp_def)
      then have "map_while_stop False (map (iter_item c) rs) = map Inr (take k (map (\<lambda>n. (n, f n)) ns)) @ [Inl e]"
        using all [of "take k ns" "[Inl e]"] err by (simp add: take_map comp_def)
      then show ?thesis unfolding stream_of_def by blast
    qed
  qed
qed

definition dir_keys :: "store \<Rightarrow> bytes \<Rightarrow> iteration_direction \<Rightarrow> bytes list" where
  "dir_keys m k dir =
     (case dir of
        Forward \<Rightarrow> sorted_list_of_set {x \<in> dom m. k \<le> x}
      | Reverse \<Rightarrow> rev (sorted_list_of_set {x \<in> dom m. x \<le> k}))"

lemma known_key_order:
  assumes "known_key x" and "chain_key c y"
  shows "make_block_key c n \<le> x \<Longrightarrow> x < y \<Longrightarrow> chain_key c x"
    and "x \<le> make_block_key c n \<Longrightarrow> y < x \<Longrightarrow> chain_key c x"
proof -
  have m: "\<not> make_block_key c k \<le> x" if "metadata_key x" for k
    using metadata_key_less_block_key [OF that, of c k] by simp
  show "make_block_key c n \<le> x \<Longrightarrow> x < y \<Longrightarrow> chain_key c x"
    using assms m by (auto simp: known_key_def chain_key_def make_block_key_le make_block_key_less)
  show "x \<le> make_block_key c n \<Longrightarrow> y < x \<Longrightarrow> chain_key c x"
    using assms m less_imp_le by (fastforce simp: known_key_def chain_key_def make_block_key_le make_block_key_less)
qed

lemma dir_keys_initial:
  assumes "finite (dom m)" and known: "\<And>k. m k \<noteq> None \<Longrightarrow> known_key k"
  shows "takeWhile (chain_key c) (dir_keys m (make_block_key c n) dir) =
    filter (chain_key c) (dir_keys m (make_block_key c n) dir)"
proof (rule takeWhile_eq_filter)
  let ?k = "make_block_key c n" and ?Q = "\<lambda>x y. chain_key c y \<longrightarrow> chain_key c x"
  show "sorted_wrt ?Q (dir_keys m ?k dir)"
  proof (cases dir)
    case Forward
    have "sorted_wrt (<) (dir_keys m ?k dir)" using Forward assms(1) by (simp add: dir_keys_def)
    moreover have "?Q x y" if "x \<in> set (dir_keys m ?k dir)" "x < y" for x y
      using that Forward assms(1) known_key_order(1) [OF known, of x c y n]
      by (auto simp: dir_keys_def)
    ultimately show ?thesis by (rule sorted_wrt_mono_rel [rotated])
  next
    case Reverse
    have "sorted_wrt (>) (dir_keys m ?k dir)" using Reverse assms(1) by (simp add: dir_keys_def sorted_wrt_rev)
    moreover have "?Q x y" if "x \<in> set (dir_keys m ?k dir)" "y < x" for x y
      using that Reverse assms(1) known_key_order(2) [OF known, of x c y n]
      by (auto simp: dir_keys_def)
    ultimately show ?thesis by (rule sorted_wrt_mono_rel [rotated])
  qed
qed

lemma filter_chain_key:
  assumes "finite (dom m)"
  shows "filter (chain_key c) (dir_keys m (make_block_key c n) dir) =
    map (make_block_key c) (map fst (block_entries (abs_of m) c n dir))"
proof -
  have img: "{x \<in> dom m. make_block_key c n \<le> x \<and> chain_key c x} = make_block_key c ` {k \<in> stored (abs_of m) c. n \<le> k}"
    "{x \<in> dom m. x \<le> make_block_key c n \<and> chain_key c x} = make_block_key c ` {k \<in> stored (abs_of m) c. k \<le> n}"
    by (auto simp: chain_key_def make_block_key_le)
  have mono: "make_block_key c x < make_block_key c y \<longleftrightarrow> x < y" for x y by (simp add: make_block_key_less)
  show ?thesis
    using assms by (cases dir)
      (simp_all add: dir_keys_def block_entries_def comp_def sorted_list_of_set_filter img rev_map
        sorted_list_of_set_strict_mono_image [OF _ mono] del: stored_abs_of flip: rev_filter)
qed

lemma entries_split:
  assumes inv: "db_inv m" and fin: "finite (dom m)"
  shows "\<exists>rest. entries m (make_block_key c n) dir =
      map (\<lambda>k. (make_block_key c k, the (m (make_block_key c k)))) (map fst (block_entries (abs_of m) c n dir)) @ rest \<and>
      (rest = [] \<or> iter_item c (Inr (hd rest)) = None)"
proof (intro exI conjI)
  let ?K = "dir_keys m (make_block_key c n) dir" and ?g = "\<lambda>x. (x, the (m x))"
  have known: "known_key k" if "m k \<noteq> None" for k using inv that by (auto simp: db_inv_def)
  have init: "takeWhile (chain_key c) ?K = filter (chain_key c) ?K"
    using dir_keys_initial [OF fin, of c n dir] known by blast
  have "entries m (make_block_key c n) dir = map ?g (takeWhile (chain_key c) ?K @ dropWhile (chain_key c) ?K)"
    by (simp add: entries_def dir_keys_def)
  also have "\<dots> = map (\<lambda>k. (make_block_key c k, the (m (make_block_key c k)))) (map fst (block_entries (abs_of m) c n dir))
      @ map ?g (dropWhile (chain_key c) ?K)"
    unfolding map_append init filter_chain_key [OF fin] by simp
  finally show "entries m (make_block_key c n) dir = \<dots>" .
  have "iter_item c (Inr (hd (map ?g (dropWhile (chain_key c) ?K)))) = None" if ne: "dropWhile (chain_key c) ?K \<noteq> []"
  proof -
    let ?x = "hd (dropWhile (chain_key c) ?K)"
    have "?x \<in> set ?K" using ne by (meson hd_in_set set_dropWhileD)
    then have "m ?x \<noteq> None" using fin by (auto simp: dir_keys_def split: iteration_direction.splits)
    then show ?thesis using iter_item_known [OF known] hd_dropWhile [OF ne] ne by (simp add: hd_map)
  qed
  then show "map ?g (dropWhile (chain_key c) ?K) = [] \<or> iter_item c (Inr (hd (map ?g (dropWhile (chain_key c) ?K)))) = None"
    by (metis list.map_disc_iff)
qed

lemma block_entries_fst:
  "map (\<lambda>k. (k, the (m (make_block_key c k)))) (map fst (block_entries (abs_of m) c n dir)) = block_entries (abs_of m) c n dir"
  by (simp add: block_entries_def comp_def)

context kv_store
begin

lemma iterate_bytes_stream:
  assumes "db_inv (view d)"
  shows "stream_of (block_entries (abs_of (view d)) c n dir) (iterate_bytes kv d c n dir)"
proof -
  from entries_split [OF assms finite_view] obtain rest where
    e: "entries (view d) (make_block_key c n) dir =
      map (\<lambda>k. (make_block_key c k, the (view d (make_block_key c k)))) (map fst (block_entries (abs_of (view d)) c n dir)) @ rest"
    and r: "rest = [] \<or> iter_item c (Inr (hd rest)) = None" by blast
  from map_while_stop_stream [OF iterate_stream [of d "make_block_key c n" dir, unfolded e] r]
  show ?thesis unfolding iterate_bytes_def block_entries_fst .
qed

lemma reads_ok:
  "get_bytes kv d c n = Inr r \<Longrightarrow> r = blocks (abs_of (view d)) c n"
  "get_rules_update_heights kv d c = Inr r \<Longrightarrow> r = rules (abs_of (view d)) c"
  "get_corrections kv d c = Inr r \<Longrightarrow> r = corrections (abs_of (view d)) c"
  "get_failed_bundles kv d c = Inr r \<Longrightarrow> r = failed_bundles (abs_of (view d)) c"
  by (simp_all add: get_bytes_def get_rules_update_heights_def get_corrections_def get_failed_bundles_def get_ok)

lemma metadata_reads_ok:
  assumes "db_inv (view d)"
  shows "get_chain_ids kv d = Inr ids \<Longrightarrow> sorted_wrt (<) ids \<and> set ids = chains (abs_of (view d))"
    and "get_ranges_of_chain_id kv d c = Inr rs \<Longrightarrow> nonempty_ranges rs \<and> ranges_set rs = stored (abs_of (view d)) c \<and>
        (db_canonical (view d) \<longrightarrow> canonical rs)"
proof -
  show "sorted_wrt (<) ids \<and> set ids = chains (abs_of (view d))" if "get_chain_ids kv d = Inr ids"
    using db_invD_full(3) [OF assms get_chain_ids_ok [OF that]] get_chain_ids_ok [OF that] by simp
  obtain ids where "chain_ids_of (view d) = Inr ids" using assms by (rule db_invD)
  then show "nonempty_ranges rs \<and> ranges_set rs = stored (abs_of (view d)) c \<and> (db_canonical (view d) \<longrightarrow> canonical rs)"
    if "get_ranges_of_chain_id kv d c = Inr rs"
    using db_invD_full(4) [OF assms, of ids c] get_ranges_ok [OF that] by (auto simp: db_canonical_def)
qed

lemma create_ok:
  assumes "create kv d = (Inr u, d')"
  shows "view d = Map.empty" and "db_inv (view d')" and "db_canonical (view d')"
    and "abs_of (view d') = \<lparr>chains = {}, blocks = (\<lambda>_. Map.empty), rules = Map.empty,
           corrections = Map.empty, failed_bundles = Map.empty\<rparr>"
proof -
  have "kv_iterate_raw kv d [] Forward = []"
    and put: "kv_put_raw kv d VERSION_KEY (serialize_version CURRENT_VERSION) = (Inr u, d')"
    using assms by (auto simp: create_def split: list.splits sum.splits)
  then have "entries (view d) [] Forward = []"
    using iterate_stream [of d "[]" Forward] by (auto simp: stream_of_def)
  then show e: "view d = Map.empty" using set_entries [OF finite_view, of d "[]" Forward] by fastforce
  have v: "view d' = [VERSION_KEY \<mapsto> serialize_version CURRENT_VERSION]"
    using put_ok [OF put] e by simp
  have r: "ranges_of (view d') c = Inr []" for c by (simp add: v ranges_of_def)
  have ids: "chain_ids_of (view d') = Inr []" by (simp add: v chain_ids_of_def)
  show "db_canonical (view d')" by (simp add: db_canonical_def r)
  show "db_inv (view d')"
    by (rule db_invI [OF _ _ ids]) (auto simp: r, auto simp: v split: if_splits)
  show "abs_of (view d') = \<lparr>chains = {}, blocks = (\<lambda>_. Map.empty), rules = Map.empty,
      corrections = Map.empty, failed_bundles = Map.empty\<rparr>"
    by (rule abs_db_eqI) (use ids in \<open>auto simp: v fun_eq_iff\<close>)
qed

lemma create_err: "create kv d = (Inl e, d') \<Longrightarrow> view d' = view d"
  by (auto simp: create_def put_err split: list.splits sum.splits)

lemma open_db_ok: "db_inv (view d) \<Longrightarrow> open_db kv d = Inr d' \<Longrightarrow> d' = d"
  by (auto simp: open_db_def split: option.splits if_splits)

end

subsection \<open>Histories\<close>

text \<open>Every operation that changes the database, as a value; a \<open>WriteBatch\<close> fills a
  fresh batch with \<open>put_bytes\<close> and writes it.\<close>

datatype db_op =
    PutBytes u64 u64 bytes
  | PutRulesUpdateHeights u64 bytes
  | PutCorrections u64 bytes
  | PutFailedBundles u64 bytes
  | DeleteRange u64 u64 u64
  | WriteBatch "(u64 \<times> u64 \<times> bytes) list"

definition batch_of :: "('d, 'b) kvdb \<Rightarrow> 'd \<Rightarrow> (u64 \<times> u64 \<times> bytes) list \<Rightarrow> 'b kv_batch_wrapper" where
  "batch_of kv d puts = foldl (\<lambda>b (c, n, data). batch_put_bytes kv b c n data) (new_batch kv d) puts"

fun run_op :: "('d, 'b) kvdb \<Rightarrow> hash_order \<Rightarrow> 'd \<Rightarrow> db_op \<Rightarrow> (error + unit) \<times> 'd" where
  "run_op kv ho d (PutBytes c n data) = put_bytes kv d c n data"
| "run_op kv ho d (PutRulesUpdateHeights c data) = put_rules_update_heights kv d c data"
| "run_op kv ho d (PutCorrections c data) = put_corrections kv d c data"
| "run_op kv ho d (PutFailedBundles c data) = put_failed_bundles kv d c data"
| "run_op kv ho d (DeleteRange c a b) = delete_range kv d c a b"
| "run_op kv ho d (WriteBatch puts) = write_batch kv ho d (batch_of kv d puts)"

fun abs_op :: "db_op \<Rightarrow> abs_db \<Rightarrow> abs_db" where
  "abs_op (PutBytes c n data) = abs_put c n data"
| "abs_op (PutRulesUpdateHeights c data) = abs_put_rules c data"
| "abs_op (PutCorrections c data) = abs_put_corrections c data"
| "abs_op (PutFailedBundles c data) = abs_put_failed_bundles c data"
| "abs_op (DeleteRange c a b) = abs_delete c a b"
| "abs_op (WriteBatch puts) = abs_put_all puts"

fun op_numbers :: "db_op \<Rightarrow> u64 set" where
  "op_numbers (PutBytes c n data) = {n}"
| "op_numbers (WriteBatch puts) = (\<lambda>(c, n, data). n) ` set puts"
| "op_numbers opn = {}"

definition abs_empty :: abs_db where
  "abs_empty = \<lparr>chains = {}, blocks = (\<lambda>_. Map.empty), rules = Map.empty,
     corrections = Map.empty, failed_bundles = Map.empty\<rparr>"

text \<open>A history: a database is created, then operations run one after the other, each of which
  may fail. The second argument is the abstract state in which exactly the successful ones took
  effect, the third the block numbers written.\<close>

inductive db_history :: "('d, 'b) kvdb \<Rightarrow> hash_order \<Rightarrow> 'd \<Rightarrow> abs_db \<Rightarrow> u64 set \<Rightarrow> bool"
  for kv :: "('d, 'b) kvdb" and ho :: hash_order where
  created: "create kv d = (Inr (), d') \<Longrightarrow> db_history kv ho d' abs_empty {}"
| opened: "db_history kv ho d s N \<Longrightarrow> open_db kv d = Inr d' \<Longrightarrow> db_history kv ho d' s N"
| succeeded: "db_history kv ho d s N \<Longrightarrow> run_op kv ho d opn = (Inr (), d') \<Longrightarrow>
    db_history kv ho d' (abs_op opn s) (N \<union> op_numbers opn)"
| failed: "db_history kv ho d s N \<Longrightarrow> run_op kv ho d opn = (Inl e, d') \<Longrightarrow> db_history kv ho d' s N"

definition order_only :: "hash_order \<Rightarrow> bool" where
  "order_only ho \<longleftrightarrow> (\<forall>xs. mset (ho xs) = mset xs)"

context kv_store
begin

lemma batch_of_holds: "batch_holds bview (batch_of kv d puts) puts"
proof (induction puts rule: rev_induct)
  case Nil
  then show ?case by (simp add: batch_of_def new_batch_holds)
next
  case (snoc x puts)
  obtain c n data where "x = (c, n, data)" by (cases x)
  with snoc batch_put_bytes_holds show ?case by (simp add: batch_of_def)
qed

lemma run_op_outcome:
  assumes "db_inv (view d)" and "order_only ho" and "run_op kv ho d opn = (r, d')"
  shows "outcome (abs_op opn) (view d) r (view d') \<and>
    (db_canonical (view d) \<longrightarrow> u64_max \<notin> op_numbers opn \<longrightarrow> db_canonical (view d'))"
proof (cases opn)
  case (PutBytes c n data)
  with assms put_bytes_outcome [OF assms(1)] show ?thesis by auto
next
  case (PutRulesUpdateHeights c data)
  with assms put_metadata_outcomes(1) [OF assms(1)] show ?thesis by auto
next
  case (PutCorrections c data)
  with assms put_metadata_outcomes(2) [OF assms(1)] show ?thesis by auto
next
  case (PutFailedBundles c data)
  with assms put_metadata_outcomes(3) [OF assms(1)] show ?thesis by auto
next
  case (DeleteRange c a b)
  with assms delete_range_outcome [OF assms(1)] show ?thesis by auto
next
  case (WriteBatch puts)
  have "mset (ho (block_ranges (batch_of kv d puts))) = mset (block_ranges (batch_of kv d puts))"
    using assms(2) by (simp add: order_only_def)
  from write_batch_outcome [where ho = ho, OF assms(1) batch_of_holds this] assms(3) show ?thesis
    by (force simp: WriteBatch numbers_of_def)
qed

lemma db_history_refines:
  assumes "db_history kv ho d s N" and "order_only ho"
  shows "db_inv (view d) \<and> abs_of (view d) = s \<and> (u64_max \<notin> N \<longrightarrow> db_canonical (view d))"
  using assms(1)
proof (induction rule: db_history.induct)
  case (created d d')
  then show ?case using create_ok [of d "()" d'] by (simp add: abs_empty_def)
next
  case (opened d s N d')
  then show ?case using open_db_ok by blast
next
  case (succeeded d s N opn d')
  then show ?case using run_op_outcome [OF _ assms(2) succeeded.hyps(2)] by auto
next
  case (failed d s N opn e d')
  then show ?case using run_op_outcome [OF _ assms(2) failed.hyps(2)] by auto
qed

end

context kv_store_live
begin

lemma unwrap_transpose: "map_ok unwrap_or_default (opt_transpose (Some r)) = r"
  by (cases r) (simp_all add: unwrap_or_default_def)

lemma reads_live:
  assumes "live d"
  shows "get_bytes kv d c n = Inr (blocks (abs_of (view d)) c n)"
    and "get_rules_update_heights kv d c = Inr (rules (abs_of (view d)) c)"
    and "get_corrections kv d c = Inr (corrections (abs_of (view d)) c)"
    and "get_failed_bundles kv d c = Inr (failed_bundles (abs_of (view d)) c)"
    and "get_chain_ids kv d = chain_ids_of (view d)"
    and "get_ranges_of_chain_id kv d c = ranges_of (view d) c"
  using assms by (simp_all add: get_bytes_def get_rules_update_heights_def get_corrections_def
      get_failed_bundles_def get_chain_ids_def get_ranges_of_chain_id_def chain_ids_of_def ranges_of_def
      get_live unwrap_transpose split: option.split) (simp_all add: unwrap_or_default_def)

lemma metadata_reads_live:
  assumes "live d" and "db_inv (view d)"
  obtains ids where "get_chain_ids kv d = Inr ids" and "\<forall>c. \<exists>rs. get_ranges_of_chain_id kv d c = Inr rs"
proof -
  obtain ids where ids: "chain_ids_of (view d) = Inr ids" using assms(2) by (rule db_invD)
  show thesis
    using that [of ids] ids db_invD_full(4) [OF assms(2) ids] unfolding reads_live [OF assms(1)] by blast
qed

lemma execute_in_batch_live: "live d \<Longrightarrow> \<exists>d'. execute_in_batch kv d f = (Inr (), d') \<and> live d'"
  by (simp add: execute_in_batch_def write_live)

lemma write_batch_loop_live:
  assumes "\<forall>c. \<exists>rs. get_ranges_of_chain_id kv d c = Inr rs"
  shows "\<exists>ids' b'. write_batch_loop kv d xs ids b = Inr (ids', b')"
proof (induction xs arbitrary: ids b)
  case (Cons x xs)
  obtain c new where "x = (c, new)" by (cases x)
  moreover obtain rs where "get_ranges_of_chain_id kv d c = Inr rs" using assms by blast
  ultimately show ?case using Cons.IH by simp
qed simp

lemma run_op_live:
  assumes "live d" and "db_inv (view d)" and "\<And>c a b. opn = DeleteRange c a b \<Longrightarrow> a \<le> b"
  shows "\<exists>d'. run_op kv ho d opn = (Inr (), d') \<and> live d'"
proof -
  obtain ids where ids: "get_chain_ids kv d = Inr ids" and rng: "\<forall>c. \<exists>rs. get_ranges_of_chain_id kv d c = Inr rs"
    using assms(1,2) by (rule metadata_reads_live)
  show ?thesis
  proof (cases opn)
    case (PutBytes c n data)
    with ids spec [OF rng, of c] assms(1) show ?thesis by (auto simp: put_bytes_def intro: execute_in_batch_live)
  next
    case (DeleteRange c a b)
    then have "\<not> b < a" using assms(3) by auto
    with DeleteRange spec [OF rng, of c] assms show ?thesis by (auto simp: delete_range_def intro: execute_in_batch_live)
  next
    case (WriteBatch puts)
    obtain ids' b' where "write_batch_loop kv d (ho (block_ranges (batch_of kv d puts))) ids (kv_batch (batch_of kv d puts)) = Inr (ids', b')"
      using write_batch_loop_live [OF rng] by blast
    with WriteBatch ids assms(1) write_live show ?thesis by (simp add: write_batch_def)
  qed (use ids assms(1) in \<open>auto simp: put_rules_update_heights_def put_corrections_def put_failed_bundles_def
      intro: execute_in_batch_live\<close>)
qed

lemma iterate_bytes_live:
  assumes "live d" and "db_inv (view d)"
  shows "iterate_bytes kv d c n dir = map Inr (block_entries (abs_of (view d)) c n dir)"
proof -
  from entries_split [OF assms(2) finite_view] obtain rest where
    e: "entries (view d) (make_block_key c n) dir =
      map (\<lambda>k. (make_block_key c k, the (view d (make_block_key c k)))) (map fst (block_entries (abs_of (view d)) c n dir)) @ rest"
    and r: "rest = [] \<or> iter_item c (Inr (hd rest)) = None" by blast
  have "map_while_stop False (map (iter_item c) (map Inr (map (\<lambda>k. (make_block_key c k, f k)) ns @ rest))) =
      map Inr (map (\<lambda>k. (k, f k)) ns)" for f ns
    using r by (induction ns; cases rest) (simp_all add: iter_item_block)
  then show ?thesis
    unfolding iterate_bytes_def iterate_live [OF assms(1)] e by (metis block_entries_fst)
qed

lemma create_live:
  assumes "live d" and "view d = Map.empty"
  shows "\<exists>d'. create kv d = (Inr (), d') \<and> live d' \<and> open_db kv d' = Inr d'"
proof -
  have "kv_iterate_raw kv d [] Forward = []"
    using iterate_live [OF assms(1)] assms(2) by (simp add: entries_def)
  then obtain d' where c: "create kv d = (Inr (), d')" "live d'"
    using put_live [OF assms(1)] by (auto simp: create_def)
  have "view d' VERSION_KEY = Some (serialize_version CURRENT_VERSION)"
    using create_ok(2) [OF c(1)] by (simp add: db_inv_def)
  then have "open_db kv d' = Inr d'"
    by (simp add: open_db_def get_live [OF c(2)] deserialize_version_def serialize_version_def)
  with c show ?thesis by blast
qed

lemma create_initialized:
  assumes "live d" and "view d \<noteq> Map.empty"
  shows "create kv d = (Inl (StorageLayer AlreadyInitialized), d)"
proof -
  obtain k v where "view d k = Some v" using assms(2) by (auto simp: fun_eq_iff)
  then have "(k, v) \<in> set (entries (view d) [] Forward)" by (simp add: set_entries [OF finite_view])
  then obtain x xs where "entries (view d) [] Forward = x # xs" by (cases "entries (view d) [] Forward") auto
  then show ?thesis by (simp add: create_def iterate_live [OF assms(1)])
qed

end

subsection \<open>Properties of the database over RocksDB\<close>

abbreviation mem_kvdb :: "(mem_db rocks_db, mem_op list) kvdb" where
  "mem_kvdb \<equiv> rocks_kvdb mem_rocksdb"

definition ex_db0 :: "mem_db rocks_db" where
  "ex_db0 = \<lparr>rocks_inner = \<lparr>mem_entries = [], mem_fault = None\<rparr>, secondary_path = None\<rparr>"

definition ex_db1 :: "mem_db rocks_db" where
  "ex_db1 = snd (create mem_kvdb ex_db0)"

definition ex_batch :: db_op where
  "ex_batch = WriteBatch [(2, 7, [1]), (1, 6, [2]), (1, 5, [3]), (1, 9, [4])]"

definition ex_db2 :: "mem_db rocks_db" where
  "ex_db2 = snd (run_op mem_kvdb rev ex_db1 ex_batch)"

lemma ex_created: "create mem_kvdb ex_db0 = (Inr (), ex_db1)"
  by code_simp

lemma ex_written: "run_op mem_kvdb rev ex_db1 ex_batch = (Inr (), ex_db2)"
  by code_simp

lemma ex_healthy: "mem_fault (rocks_inner ex_db0) = None \<and> mem_fault (rocks_inner ex_db1) = None \<and>
    mem_fault (rocks_inner ex_db2) = None"
  by code_simp

lemma order_only_rev: "order_only rev"
  by (simp add: order_only_def)

lemma ex_history:
  "db_history mem_kvdb rev ex_db2 (abs_op ex_batch abs_empty) ({} \<union> op_numbers ex_batch)"
  using db_history.created [OF ex_created] ex_written by (rule db_history.succeeded)

lemmas mem_store = rocksdb_crate.rocks_store [OF mem.rocksdb_crate_axioms]

lemma ex_inv: "db_inv (mem_view (rocks_inner ex_db2))"
  using kv_store.db_history_refines [OF mem_store ex_history order_only_rev] by simp

text \<open>C1: refinement. In every state that a sequence of operations, each of which may fail,
  reaches from a created database, the invariant holds, the stored pairs abstract to the state
  in which exactly the successful operations took effect, and what the database reads back
  (blocks, chain IDs, block ranges, chain metadata) is that state; the ranges of a chain are in
  canonical form as long as no block with number \<open>u64::MAX\<close> was written.\<close>

theorem database_refines_spec:
  assumes "rocksdb_crate R rview wview healthy" and "order_only ho"
    and "db_history (rocks_kvdb R) ho d s N"
  shows "db_inv (rview (rocks_inner d)) \<and> abs_of (rview (rocks_inner d)) = s \<and>
    (\<forall>c n r. get_bytes (rocks_kvdb R) d c n = Inr r \<longrightarrow> r = blocks s c n) \<and>
    (\<forall>ids. get_chain_ids (rocks_kvdb R) d = Inr ids \<longrightarrow> sorted_wrt (<) ids \<and> set ids = chains s) \<and>
    (\<forall>c rs. get_ranges_of_chain_id (rocks_kvdb R) d c = Inr rs \<longrightarrow>
       nonempty_ranges rs \<and> ranges_set rs = stored s c \<and> (u64_max \<notin> N \<longrightarrow> canonical rs)) \<and>
    (\<forall>c r. get_rules_update_heights (rocks_kvdb R) d c = Inr r \<longrightarrow> r = rules s c) \<and>
    (\<forall>c r. get_corrections (rocks_kvdb R) d c = Inr r \<longrightarrow> r = corrections s c) \<and>
    (\<forall>c r. get_failed_bundles (rocks_kvdb R) d c = Inr r \<longrightarrow> r = failed_bundles s c)"
proof -
  note S = rocksdb_crate.rocks_store [OF assms(1)]
  note H = kv_store.db_history_refines [OF S assms(3,2)]
  then have inv: "db_inv (rview (rocks_inner d))" by blast
  show ?thesis
    using H kv_store.reads_ok [OF S, where d = d] kv_store.metadata_reads_ok [OF S inv] by blast
qed

theorem database_refines_spec_witness:
  "get_bytes mem_kvdb ex_db2 1 6 = Inr (Some [2]) \<and> blocks (abs_op ex_batch abs_empty) 1 6 = Some [2] \<and>
   get_ranges_of_chain_id mem_kvdb ex_db2 1 = Inr [BlockRange 5 6, BlockRange 9 9] \<and>
   canonical [BlockRange 5 6, BlockRange 9 9]"
proof -
  note W = database_refines_spec [OF mem.rocksdb_crate_axioms order_only_rev ex_history]
  have g: "get_bytes mem_kvdb ex_db2 1 6 = Inr (Some [2])" by code_simp
  have r: "get_ranges_of_chain_id mem_kvdb ex_db2 1 = Inr [BlockRange 5 6, BlockRange 9 9]" by code_simp
  have "u64_max \<notin> {} \<union> op_numbers ex_batch" by (simp add: ex_batch_def)
  with W r have "canonical [BlockRange 5 6, BlockRange 9 9]" by blast
  moreover have "Some [2] = blocks (abs_op ex_batch abs_empty) 1 6" using W g by blast
  ultimately show ?thesis using g r by simp
qed

text \<open>C6: atomicity. An operation on a consistent database that fails, at whatever point,
  leaves the stored pairs exactly as they were; one that succeeds establishes the invariant
  again and has exactly its abstract effect, data and metadata together.\<close>

theorem operations_atomic:
  assumes "rocksdb_crate R rview wview healthy" and "order_only ho"
    and "db_inv (rview (rocks_inner d))" and "run_op (rocks_kvdb R) ho d opn = (r, d')"
  shows "case r of
      Inl e \<Rightarrow> rview (rocks_inner d') = rview (rocks_inner d)
    | Inr _ \<Rightarrow> db_inv (rview (rocks_inner d')) \<and>
        abs_of (rview (rocks_inner d')) = abs_op opn (abs_of (rview (rocks_inner d)))"
  using kv_store.run_op_outcome [OF rocksdb_crate.rocks_store [OF assms(1)] assms(3,2,4)]
  by (simp add: outcome_def)

definition ex_faulty :: "mem_db rocks_db" where
  "ex_faulty = ex_db2\<lparr>rocks_inner := (rocks_inner ex_db2)\<lparr>mem_fault := Some ''disk full''\<rparr>\<rparr>"

theorem operations_atomic_witness:
  "db_inv (mem_view (rocks_inner (snd (run_op mem_kvdb rev ex_db2 (DeleteRange 1 6 8))))) \<and>
   fst (run_op mem_kvdb rev ex_faulty (DeleteRange 1 6 8)) = Inl (StorageLayer (RocksDbMessage ''disk full''))"
proof -
  let ?r = "run_op mem_kvdb rev ex_db2 (DeleteRange 1 6 8)"
  have "fst ?r = Inr ()" by code_simp
  then have "?r = (Inr (), snd ?r)" by (metis prod.collapse)
  from operations_atomic [OF mem.rocksdb_crate_axioms order_only_rev ex_inv this]
  have "db_inv (mem_view (rocks_inner (snd ?r)))" by simp
  moreover have "fst (run_op mem_kvdb rev ex_faulty (DeleteRange 1 6 8)) = Inl (StorageLayer (RocksDbMessage ''disk full''))"
    by code_simp
  ultimately show ?thesis by blast
qed

text \<open>C8: progress. While the store does not fail, every operation on a consistent database
  succeeds (deletions with a start after their end excepted, which are refused without
  touching the database), so the abstract effect is always reached.\<close>

theorem operations_succeed:
  assumes "rocksdb_crate R rview wview healthy" and "healthy (rocks_inner d)"
    and "db_inv (rview (rocks_inner d))"
  shows "(\<exists>d'. run_op (rocks_kvdb R) ho d opn = (Inr (), d') \<and> healthy (rocks_inner d')) \<or>
    (\<exists>c a b. opn = DeleteRange c a b \<and> b < a \<and>
       run_op (rocks_kvdb R) ho d opn = (Inl (StorageLayer (InvalidBlockRange a b)), d))"
proof (cases "\<exists>c a b. opn = DeleteRange c a b \<and> b < a")
  case True
  then show ?thesis by (auto simp: delete_range_def)
next
  case False
  then have le: "a \<le> b" if "opn = DeleteRange c a b" for c a b using that by (simp add: not_less)
  show ?thesis
    using kv_store_live.run_op_live [OF rocksdb_crate.rocks_store_live [OF assms(1)] assms(2,3), of opn ho] le
    by blast
qed

theorem operations_succeed_witness:
  "\<exists>d'. run_op mem_kvdb rev ex_db2 (DeleteRange 1 6 8) = (Inr (), d') \<and> mem_fault (rocks_inner d') = None"
  using operations_succeed [OF mem.rocksdb_crate_axioms conjunct2 [OF conjunct2 [OF ex_healthy]] ex_inv,
      of rev "DeleteRange 1 6 8"] by simp

text \<open>C7: iteration over a chain yields the stored blocks of that chain and of no other, from
  the start block on, in ascending or descending order of their numbers, whatever else the
  database holds; an error of the store cuts the sequence short and is its last element, and
  without one the sequence is complete.\<close>

theorem iterate_bytes_correct:
  assumes "rocksdb_crate R rview wview healthy" and "db_inv (rview (rocks_inner d))"
  shows "stream_of (block_entries (abs_of (rview (rocks_inner d))) c n dir) (iterate_bytes (rocks_kvdb R) d c n dir) \<and>
    (healthy (rocks_inner d) \<longrightarrow>
       iterate_bytes (rocks_kvdb R) d c n dir = map Inr (block_entries (abs_of (rview (rocks_inner d))) c n dir))"
  using kv_store.iterate_bytes_stream [OF rocksdb_crate.rocks_store [OF assms(1)] assms(2)]
    kv_store_live.iterate_bytes_live [OF rocksdb_crate.rocks_store_live [OF assms(1)] _ assms(2)]
  by blast

theorem iterate_bytes_correct_witness:
  "map Inr (block_entries (abs_of (mem_view (rocks_inner ex_db2))) 1 6 Reverse) =
     ([Inr (6, [2]), Inr (5, [3])] :: (error + u64 \<times> bytes) list)"
proof -
  have "iterate_bytes mem_kvdb ex_db2 1 6 Reverse = [Inr (6, [2]), Inr (5, [3])]" by code_simp
  with iterate_bytes_correct [OF mem.rocksdb_crate_axioms ex_inv, of 1 6 Reverse] ex_healthy
  show ?thesis by metis
qed

text \<open>C28: on a store that does not fail, creating a database in an empty store succeeds, gives
  the empty database and one that opens again; in a store that holds anything at all it is
  refused and changes nothing.\<close>

theorem create_correct:
  assumes "rocksdb_crate R rview wview healthy" and "healthy (rocks_inner d)"
  shows "if rview (rocks_inner d) = Map.empty
    then \<exists>d'. create (rocks_kvdb R) d = (Inr (), d') \<and> open_db (rocks_kvdb R) d' = Inr d' \<and>
       db_inv (rview (rocks_inner d')) \<and> abs_of (rview (rocks_inner d')) = abs_empty
    else create (rocks_kvdb R) d = (Inl (StorageLayer AlreadyInitialized), d)"
proof -
  note L = rocksdb_crate.rocks_store_live [OF assms(1)] and S = rocksdb_crate.rocks_store [OF assms(1)]
  show ?thesis
    using kv_store_live.create_live [OF L assms(2)] kv_store_live.create_initialized [OF L assms(2)]
      kv_store.create_ok [OF S, of d "()"] by (auto simp: abs_empty_def)
qed

theorem create_correct_witness:
  "create mem_kvdb ex_db2 = (Inl (StorageLayer AlreadyInitialized), ex_db2) \<and>
   (\<exists>d'. create mem_kvdb ex_db0 = (Inr (), d') \<and> open_db mem_kvdb d' = Inr d')"
proof -
  have "mem_view (rocks_inner ex_db0) = Map.empty" by (simp add: mem_view_def ex_db0_def)
  moreover have "mem_view (rocks_inner ex_db2) \<noteq> Map.empty"
    using ex_inv by (auto simp: db_inv_def)
  ultimately show ?thesis
    using create_correct [OF mem.rocksdb_crate_axioms, of ex_db0] create_correct [OF mem.rocksdb_crate_axioms, of ex_db2]
      ex_healthy by auto
qed

end
