(* ===== verification/Chain_Types.thy ===== *)
theory Chain_Types
  imports Bertha_Prelude
begin

section \<open>Blocks, transactions and receipts\<close>

text \<open>
  The data model of the crate bertha-types: transactions of the five Ethereum kinds, receipts,
  logs, withdrawals, ommer headers and blocks. Structs are records whose fields carry a prefix
  (field names are shared between the structs), enums are datatypes. A fixed-size array is a
  byte list; its length, which the Rust type guarantees, is stated by the \<open>wf_\<close>
  predicates, and conversions that check a length are modelled with that check.
  \<open>U256\<close> is a 256-bit word. Construction of defaults and the conversion between a
  transaction type and its number are defined here; the encodings are in the theories that
  follow.
\<close>

type_synonym hash = bytes
type_synonym address = bytes
type_synonym bloom = bytes

definition zero_bytes :: "nat \<Rightarrow> bytes" where
  "zero_bytes n = replicate n 0"

definition EMPTY_OMMERS_HASH :: hash where
  "EMPTY_OMMERS_HASH =
     [0x1d, 0xcc, 0x4d, 0xe8, 0xde, 0xc7, 0x5d, 0x7a,
      0xab, 0x85, 0xb5, 0x67, 0xb6, 0xcc, 0xd4, 0x1a,
      0xd3, 0x12, 0x45, 0x1b, 0x94, 0x8a, 0x74, 0x13,
      0xf0, 0xa1, 0x42, 0xfd, 0x40, 0xd4, 0x93, 0x47]"

definition EMPTY_TREE_ROOT_HASH :: hash where
  "EMPTY_TREE_ROOT_HASH =
     [0x56, 0xe8, 0x1f, 0x17, 0x1b, 0xcc, 0x55, 0xa6,
      0xff, 0x83, 0x45, 0xe6, 0x92, 0xc0, 0xf8, 0x6e,
      0x5b, 0x48, 0xe0, 0x1b, 0x99, 0x6c, 0xad, 0xc0,
      0x01, 0x62, 0x2f, 0xb5, 0xe3, 0x63, 0xb4, 0x21]"

subsection \<open>Transactions\<close>

record access_list_entry =
  ale_address :: address
  ale_storage_keys :: "hash list"

record set_code_authorization =
  sca_chain_id :: u256
  sca_address :: address
  sca_nonce :: u64
  sca_y_parity :: u8
  sca_r :: u256
  sca_s :: u256

datatype transaction_type = Legacy | AccessList | DynamicFee | Blob | SetCode

datatype conversion_message =
    ExpectedFound transaction_type transaction_type
  | RequiresTo transaction_type

datatype transaction_error =
    ConversionError conversion_message
  | InvalidTransactionType u8

fun transaction_type_as_u8 :: "transaction_type \<Rightarrow> u8" where
  "transaction_type_as_u8 Legacy = 0"
| "transaction_type_as_u8 AccessList = 1"
| "transaction_type_as_u8 DynamicFee = 2"
| "transaction_type_as_u8 Blob = 3"
| "transaction_type_as_u8 SetCode = 4"

definition transaction_type_try_from :: "u8 \<Rightarrow> transaction_error + transaction_type" where
  "transaction_type_try_from value =
     (if value = 0 then Inr Legacy
      else if value = 1 then Inr AccessList
      else if value = 2 then Inr DynamicFee
      else if value = 3 then Inr Blob
      else if value = 4 then Inr SetCode
      else Inl (InvalidTransactionType value))"

record transaction =
  tx_transaction_type :: transaction_type
  tx_chain_id :: u256
  tx_nonce :: u64
  tx_gas_price :: u256
  tx_gas_limit :: u64
  tx_to :: "address option"
  tx_value :: u256
  tx_data :: bytes
  tx_access_list :: "access_list_entry list"
  tx_max_fee_per_gas :: u256
  tx_max_priority_fee_per_gas :: u256
  tx_blob_versioned_hashes :: "hash list"
  tx_max_fee_per_blob_gas :: u256
  tx_authorization_list :: "set_code_authorization list"
  tx_y_parity :: u256
  tx_r :: u256
  tx_s :: u256

definition default_transaction :: transaction where
  "default_transaction =
     \<lparr>tx_transaction_type = Legacy, tx_chain_id = 0, tx_nonce = 0, tx_gas_price = 0,
      tx_gas_limit = 0, tx_to = Some (zero_bytes 20), tx_value = 0, tx_data = [],
      tx_access_list = [], tx_max_fee_per_gas = 0, tx_max_priority_fee_per_gas = 0,
      tx_blob_versioned_hashes = [], tx_max_fee_per_blob_gas = 0, tx_authorization_list = [],
      tx_y_parity = 0, tx_r = 0, tx_s = 0\<rparr>"

subsection \<open>Receipts\<close>

record log_entry =
  log_address :: address
  log_topics :: "hash list"
  log_data :: bytes

datatype post_state_or_status = PostState hash | Status u64

record transaction_receipt =
  tr_transaction_type :: transaction_type
  tr_post_state_or_status :: post_state_or_status
  tr_cumulative_gas_used :: u64
  tr_logs :: "log_entry list"

definition default_receipt :: transaction_receipt where
  "default_receipt =
     \<lparr>tr_transaction_type = Legacy, tr_post_state_or_status = Status 0,
      tr_cumulative_gas_used = 0, tr_logs = []\<rparr>"

subsection \<open>Blocks\<close>

record withdrawal =
  wd_index :: u64
  wd_validator_index :: u64
  wd_address :: address
  wd_amount :: u64

record ommer_header =
  om_beneficiary :: address
  om_number :: u64

record block =
  b_parent_hash :: hash
  b_ommers_hash :: hash
  b_beneficiary :: address
  b_state_root :: hash
  b_difficulty :: u64
  b_number :: u64
  b_gas_limit :: u64
  b_timestamp :: u64
  b_extra_data :: bytes
  b_prev_randao :: hash
  b_nonce :: bytes
  b_transactions :: "transaction list"
  b_receipts :: "transaction_receipt list"
  b_base_fee_per_gas :: "u256 option"
  b_withdrawals_root :: "hash option"
  b_withdrawals :: "withdrawal list"
  b_blob_gas_used :: "u64 option"
  b_excess_blob_gas :: "u64 option"
  b_parent_beacon_block_root :: "hash option"
  b_requests_hash :: "hash option"
  b_ommer_headers :: "ommer_header list"
  b_verkle_state_root :: "hash option"
  b_binary_state_root :: "hash option"

definition default_block :: block where
  "default_block =
     \<lparr>b_parent_hash = zero_bytes 32, b_ommers_hash = zero_bytes 32, b_beneficiary = zero_bytes 20,
      b_state_root = zero_bytes 32, b_difficulty = 0, b_number = 0, b_gas_limit = 0,
      b_timestamp = 0, b_extra_data = [], b_prev_randao = zero_bytes 32, b_nonce = zero_bytes 8,
      b_transactions = [], b_receipts = [], b_base_fee_per_gas = None, b_withdrawals_root = None,
      b_withdrawals = [], b_blob_gas_used = None, b_excess_blob_gas = None,
      b_parent_beacon_block_root = None, b_requests_hash = None, b_ommer_headers = [],
      b_verkle_state_root = None, b_binary_state_root = None\<rparr>"

definition default_sonic :: block where
  "default_sonic =
     default_block\<lparr>b_ommers_hash := EMPTY_OMMERS_HASH, b_extra_data := zero_bytes 12,
       b_withdrawals_root := Some EMPTY_TREE_ROOT_HASH, b_base_fee_per_gas := Some 0,
       b_blob_gas_used := Some 0, b_excess_blob_gas := Some 0\<rparr>"

record block_header =
  bh_parent_hash :: hash
  bh_ommers_hash :: hash
  bh_beneficiary :: address
  bh_state_root :: hash
  bh_transactions_root :: hash
  bh_receipts_root :: hash
  bh_logs_bloom :: bloom
  bh_difficulty :: u256
  bh_number :: u64
  bh_gas_limit :: u64
  bh_gas_used :: u64
  bh_timestamp :: u64
  bh_extra_data :: bytes
  bh_prev_randao :: hash
  bh_nonce :: bytes
  bh_base_fee_per_gas :: "u256 option"
  bh_withdrawals_root :: "hash option"
  bh_blob_gas_used :: "u64 option"
  bh_excess_blob_gas :: "u64 option"
  bh_parent_beacon_block_root :: "hash option"
  bh_requests_hash :: "hash option"

definition default_header :: block_header where
  "default_header =
     \<lparr>bh_parent_hash = zero_bytes 32, bh_ommers_hash = zero_bytes 32, bh_beneficiary = zero_bytes 20,
      bh_state_root = zero_bytes 32, bh_transactions_root = zero_bytes 32,
      bh_receipts_root = zero_bytes 32, bh_logs_bloom = zero_bytes 256, bh_difficulty = 0,
      bh_number = 0, bh_gas_limit = 0, bh_gas_used = 0, bh_timestamp = 0, bh_extra_data = [],
      bh_prev_randao = zero_bytes 32, bh_nonce = zero_bytes 8, bh_base_fee_per_gas = None,
      bh_withdrawals_root = None, bh_blob_gas_used = None, bh_excess_blob_gas = None,
      bh_parent_beacon_block_root = None, bh_requests_hash = None\<rparr>"

subsection \<open>Well-formedness: the lengths of fixed-size arrays\<close>

definition len_ok :: "nat \<Rightarrow> bytes \<Rightarrow> bool" where
  "len_ok n bs \<longleftrightarrow> length bs = n"

definition wf_access_list_entry :: "access_list_entry \<Rightarrow> bool" where
  "wf_access_list_entry a \<longleftrightarrow> len_ok 20 (ale_address a) \<and> list_all (len_ok 32) (ale_storage_keys a)"

definition wf_authorization :: "set_code_authorization \<Rightarrow> bool" where
  "wf_authorization a \<longleftrightarrow> len_ok 20 (sca_address a)"

definition wf_transaction :: "transaction \<Rightarrow> bool" where
  "wf_transaction t \<longleftrightarrow>
     pred_option (len_ok 20) (tx_to t) \<and> list_all wf_access_list_entry (tx_access_list t) \<and>
     list_all (len_ok 32) (tx_blob_versioned_hashes t) \<and> list_all wf_authorization (tx_authorization_list t)"

definition wf_log :: "log_entry \<Rightarrow> bool" where
  "wf_log l \<longleftrightarrow> len_ok 20 (log_address l) \<and> list_all (len_ok 32) (log_topics l)"

fun wf_post_state :: "post_state_or_status \<Rightarrow> bool" where
  "wf_post_state (PostState h) \<longleftrightarrow> len_ok 32 h"
| "wf_post_state (Status n) \<longleftrightarrow> True"

definition wf_receipt :: "transaction_receipt \<Rightarrow> bool" where
  "wf_receipt r \<longleftrightarrow> wf_post_state (tr_post_state_or_status r) \<and> list_all wf_log (tr_logs r)"

definition wf_block :: "block \<Rightarrow> bool" where
  "wf_block b \<longleftrightarrow>
     len_ok 32 (b_parent_hash b) \<and> len_ok 32 (b_ommers_hash b) \<and> len_ok 20 (b_beneficiary b) \<and>
     len_ok 32 (b_state_root b) \<and> len_ok 32 (b_prev_randao b) \<and> len_ok 8 (b_nonce b) \<and>
     list_all wf_transaction (b_transactions b) \<and> list_all wf_receipt (b_receipts b) \<and>
     pred_option (len_ok 32) (b_withdrawals_root b) \<and>
     list_all (\<lambda>w. len_ok 20 (wd_address w)) (b_withdrawals b) \<and>
     pred_option (len_ok 32) (b_parent_beacon_block_root b) \<and> pred_option (len_ok 32) (b_requests_hash b) \<and>
     list_all (\<lambda>h. len_ok 20 (om_beneficiary h)) (b_ommer_headers b) \<and>
     pred_option (len_ok 32) (b_verkle_state_root b) \<and> pred_option (len_ok 32) (b_binary_state_root b)"

definition wf_header :: "block_header \<Rightarrow> bool" where
  "wf_header h \<longleftrightarrow>
     len_ok 32 (bh_parent_hash h) \<and> len_ok 32 (bh_ommers_hash h) \<and> len_ok 20 (bh_beneficiary h) \<and>
     len_ok 32 (bh_state_root h) \<and> len_ok 32 (bh_transactions_root h) \<and> len_ok 32 (bh_receipts_root h) \<and>
     len_ok 256 (bh_logs_bloom h) \<and> len_ok 32 (bh_prev_randao h) \<and> len_ok 8 (bh_nonce h) \<and>
     pred_option (len_ok 32) (bh_withdrawals_root h) \<and>
     pred_option (len_ok 32) (bh_parent_beacon_block_root h) \<and> pred_option (len_ok 32) (bh_requests_hash h)"

text \<open>The derived order of \<open>TransactionType\<close> is that of the discriminants.\<close>

instantiation transaction_type :: linorder
begin

definition less_eq_transaction_type :: "transaction_type \<Rightarrow> transaction_type \<Rightarrow> bool" where
  "less_eq_transaction_type t u \<longleftrightarrow> transaction_type_as_u8 t \<le> transaction_type_as_u8 u"

definition less_transaction_type :: "transaction_type \<Rightarrow> transaction_type \<Rightarrow> bool" where
  "less_transaction_type t u \<longleftrightarrow> transaction_type_as_u8 t < transaction_type_as_u8 u"

instance
proof
  show "t = u" if "t \<le> u" "u \<le> t" for t u :: transaction_type
  proof -
    have "transaction_type_as_u8 t = transaction_type_as_u8 u" using that by (simp add: less_eq_transaction_type_def)
    then show ?thesis by (cases t; cases u) simp_all
  qed
qed (auto simp: less_eq_transaction_type_def less_transaction_type_def)

end

lemma transaction_type_roundtrip [simp]:
  "transaction_type_try_from (transaction_type_as_u8 t) = Inr t"
  by (cases t) (simp_all add: transaction_type_try_from_def)

lemma transaction_type_try_from_Inr:
  "transaction_type_try_from v = Inr t \<longleftrightarrow> v = transaction_type_as_u8 t"
  by (cases t) (auto simp: transaction_type_try_from_def split: if_splits)

lemma wf_defaults [simp]:
  "wf_block default_block" "wf_block default_sonic" "wf_transaction default_transaction"
  "wf_receipt default_receipt" "wf_header default_header"
  by (simp_all add: wf_block_def default_block_def default_sonic_def wf_transaction_def
      default_transaction_def wf_receipt_def default_receipt_def wf_header_def default_header_def
      len_ok_def zero_bytes_def EMPTY_OMMERS_HASH_def EMPTY_TREE_ROOT_HASH_def)

end
