(* ===== verification/Proto_Convert.thy ===== *)
theory Proto_Convert
  imports Chain_Types Db_Keys
begin

section \<open>Conversion between blocks and protobuf messages\<close>

text \<open>
  The conversions of blockservice/src/db/proto.rs between the types of bertha-types and the
  messages of proto/block.proto, in which all hashes, addresses and 256-bit integers are byte
  strings of arbitrary length and all small integers are \<open>uint64\<close>. Shown for every
  message type: converting a value and converting back returns the value, and a message that
  converts back is the image of exactly one well-formed value, so the conversion is a bijection
  between well-formed values and the messages that the checks accept.
\<close>

subsection \<open>Messages\<close>

record proto_access_list_entry =
  pale_address :: bytes
  pale_storage_keys :: "bytes list"

record proto_set_code_authorization =
  psca_chain_id :: bytes
  psca_address :: bytes
  psca_nonce :: u64
  psca_y_parity :: u64
  psca_r :: bytes
  psca_s :: bytes

record proto_transaction =
  ptx_transaction_type :: u64
  ptx_chain_id :: bytes
  ptx_nonce :: u64
  ptx_gas_price :: bytes
  ptx_gas_limit :: u64
  ptx_to :: "bytes option"
  ptx_value :: bytes
  ptx_data :: bytes
  ptx_access_list :: "proto_access_list_entry list"
  ptx_max_fee_per_gas :: bytes
  ptx_max_priority_fee_per_gas :: bytes
  ptx_blob_versioned_hashes :: "bytes list"
  ptx_max_fee_per_blob_gas :: bytes
  ptx_authorization_list :: "proto_set_code_authorization list"
  ptx_y_parity :: bytes
  ptx_r :: bytes
  ptx_s :: bytes

record proto_log =
  plog_address :: bytes
  plog_topics :: "bytes list"
  plog_data :: bytes

datatype proto_post_state_or_status = ProtoPostState bytes | ProtoStatus u64

record proto_transaction_receipt =
  ptr_transaction_type :: u64
  ptr_post_state_or_status :: "proto_post_state_or_status option"
  ptr_cumulative_gas_used :: u64
  ptr_logs :: "proto_log list"

record proto_withdrawal =
  pwd_index :: u64
  pwd_validator_index :: u64
  pwd_address :: bytes
  pwd_amount :: u64

record proto_ommer_header =
  pom_beneficiary :: bytes
  pom_number :: u64

record proto_block =
  pb_parent_hash :: bytes
  pb_ommers_hash :: bytes
  pb_beneficiary :: bytes
  pb_state_root :: bytes
  pb_difficulty :: u64
  pb_number :: u64
  pb_gas_limit :: u64
  pb_timestamp :: u64
  pb_extra_data :: bytes
  pb_prev_randao :: bytes
  pb_nonce :: bytes
  pb_transactions :: "proto_transaction list"
  pb_receipts :: "proto_transaction_receipt list"
  pb_base_fee_per_gas :: "bytes option"
  pb_withdrawals_root :: "bytes option"
  pb_blob_gas_used :: "u64 option"
  pb_excess_blob_gas :: "u64 option"
  pb_parent_beacon_block_root :: "bytes option"
  pb_requests_hash :: "bytes option"
  pb_verkle_state_root :: "bytes option"
  pb_binary_state_root :: "bytes option"
  pb_withdrawals :: "proto_withdrawal list"
  pb_ommer_headers :: "proto_ommer_header list"

subsection \<open>To messages\<close>

definition proto_of_access_list_entry :: "access_list_entry \<Rightarrow> proto_access_list_entry" where
  "proto_of_access_list_entry value =
     \<lparr>pale_address = ale_address value, pale_storage_keys = ale_storage_keys value\<rparr>"

definition proto_of_authorization :: "set_code_authorization \<Rightarrow> proto_set_code_authorization" where
  "proto_of_authorization value =
     \<lparr>psca_chain_id = u256_to_be_bytes (sca_chain_id value), psca_address = sca_address value,
      psca_nonce = sca_nonce value, psca_y_parity = ucast (sca_y_parity value),
      psca_r = u256_to_be_bytes (sca_r value), psca_s = u256_to_be_bytes (sca_s value)\<rparr>"

definition proto_of_transaction :: "transaction \<Rightarrow> proto_transaction" where
  "proto_of_transaction value =
     \<lparr>ptx_transaction_type = ucast (transaction_type_as_u8 (tx_transaction_type value)),
      ptx_chain_id = u256_to_be_bytes (tx_chain_id value), ptx_nonce = tx_nonce value,
      ptx_gas_price = u256_to_be_bytes (tx_gas_price value),
      ptx_gas_limit = tx_gas_limit value, ptx_to = tx_to value,
      ptx_value = u256_to_be_bytes (tx_value value), ptx_data = tx_data value,
      ptx_access_list = map proto_of_access_list_entry (tx_access_list value),
      ptx_max_fee_per_gas = u256_to_be_bytes (tx_max_fee_per_gas value),
      ptx_max_priority_fee_per_gas = u256_to_be_bytes (tx_max_priority_fee_per_gas value),
      ptx_blob_versioned_hashes = tx_blob_versioned_hashes value,
      ptx_max_fee_per_blob_gas = u256_to_be_bytes (tx_max_fee_per_blob_gas value),
      ptx_authorization_list = map proto_of_authorization (tx_authorization_list value),
      ptx_y_parity = u256_to_be_bytes (tx_y_parity value),
      ptx_r = u256_to_be_bytes (tx_r value), ptx_s = u256_to_be_bytes (tx_s value)\<rparr>"

definition proto_of_log :: "log_entry \<Rightarrow> proto_log" where
  "proto_of_log value =
     \<lparr>plog_address = log_address value, plog_topics = log_topics value,
      plog_data = log_data value\<rparr>"

definition proto_of_receipt :: "transaction_receipt \<Rightarrow> proto_transaction_receipt" where
  "proto_of_receipt value =
     \<lparr>ptr_transaction_type = ucast (transaction_type_as_u8 (tr_transaction_type value)),
      ptr_post_state_or_status = (case tr_post_state_or_status value of PostState post_state \<Rightarrow> Some (ProtoPostState post_state) | Status status \<Rightarrow> Some (ProtoStatus status)),
      ptr_cumulative_gas_used = tr_cumulative_gas_used value,
      ptr_logs = map proto_of_log (tr_logs value)\<rparr>"

definition proto_of_withdrawal :: "withdrawal \<Rightarrow> proto_withdrawal" where
  "proto_of_withdrawal value =
     \<lparr>pwd_index = wd_index value, pwd_validator_index = wd_validator_index value,
      pwd_address = wd_address value, pwd_amount = wd_amount value\<rparr>"

definition proto_of_ommer_header :: "ommer_header \<Rightarrow> proto_ommer_header" where
  "proto_of_ommer_header value =
     \<lparr>pom_beneficiary = om_beneficiary value, pom_number = om_number value\<rparr>"

definition proto_of_block :: "block \<Rightarrow> proto_block" where
  "proto_of_block value =
     \<lparr>pb_parent_hash = b_parent_hash value, pb_ommers_hash = b_ommers_hash value,
      pb_beneficiary = b_beneficiary value, pb_state_root = b_state_root value,
      pb_difficulty = b_difficulty value, pb_number = b_number value,
      pb_gas_limit = b_gas_limit value, pb_timestamp = b_timestamp value,
      pb_extra_data = b_extra_data value, pb_prev_randao = b_prev_randao value,
      pb_nonce = b_nonce value,
      pb_transactions = map proto_of_transaction (b_transactions value),
      pb_receipts = map proto_of_receipt (b_receipts value),
      pb_base_fee_per_gas = map_option u256_to_be_bytes (b_base_fee_per_gas value),
      pb_withdrawals_root = b_withdrawals_root value, pb_blob_gas_used = b_blob_gas_used value,
      pb_excess_blob_gas = b_excess_blob_gas value,
      pb_parent_beacon_block_root = b_parent_beacon_block_root value,
      pb_requests_hash = b_requests_hash value,
      pb_verkle_state_root = b_verkle_state_root value,
      pb_binary_state_root = b_binary_state_root value,
      pb_withdrawals = map proto_of_withdrawal (b_withdrawals value),
      pb_ommer_headers = map proto_of_ommer_header (b_ommer_headers value)\<rparr>"

subsection \<open>From messages\<close>

definition convert_to_fixed_size :: "nat \<Rightarrow> bytes \<Rightarrow> error + bytes" where
  "convert_to_fixed_size n data = (if length data = n then Inr data else Inl TypeConversion)"

definition convert_to_u256 :: "bytes \<Rightarrow> error + u256" where
  "convert_to_u256 data = map_ok u256_from_be_bytes (convert_to_fixed_size 32 data)"

definition u8_try_from_u64 :: "u64 \<Rightarrow> u8 option" where
  "u8_try_from_u64 v = (if unat v < 256 then Some (ucast v) else None)"

definition convert_to_transaction_type :: "u64 \<Rightarrow> error + transaction_type" where
  "convert_to_transaction_type v =
     (case u8_try_from_u64 v of
        None \<Rightarrow> Inl TypeConversion
      | Some b \<Rightarrow> map_err (\<lambda>_. TypeConversion) (transaction_type_try_from b))"

definition access_list_entry_of_proto :: "proto_access_list_entry \<Rightarrow> error + access_list_entry" where
  "access_list_entry_of_proto value =
     res_bind (collect_results (map (convert_to_fixed_size 32) (pale_storage_keys value))) (\<lambda>storage_keys.
     res_bind (convert_to_fixed_size 20 (pale_address value)) (\<lambda>address.
     Inr \<lparr>ale_address = address, ale_storage_keys = storage_keys\<rparr>))"

definition authorization_of_proto :: "proto_set_code_authorization \<Rightarrow> error + set_code_authorization" where
  "authorization_of_proto value =
     res_bind (convert_to_u256 (psca_chain_id value)) (\<lambda>chain_id.
     res_bind (convert_to_fixed_size 20 (psca_address value)) (\<lambda>address.
     res_bind (case u8_try_from_u64 (psca_y_parity value) of None \<Rightarrow> Inl TypeConversion | Some v \<Rightarrow> Inr v) (\<lambda>y_parity.
     res_bind (convert_to_u256 (psca_r value)) (\<lambda>r.
     res_bind (convert_to_u256 (psca_s value)) (\<lambda>s.
     Inr \<lparr>sca_chain_id = chain_id, sca_address = address, sca_nonce = psca_nonce value,
         sca_y_parity = y_parity, sca_r = r, sca_s = s\<rparr>)))))"

definition transaction_of_proto :: "proto_transaction \<Rightarrow> error + transaction" where
  "transaction_of_proto value =
     res_bind (collect_results (map access_list_entry_of_proto (ptx_access_list value))) (\<lambda>access_list.
     res_bind (collect_results (map (convert_to_fixed_size 32) (ptx_blob_versioned_hashes value))) (\<lambda>blob_versioned_hashes.
     res_bind (collect_results (map authorization_of_proto (ptx_authorization_list value))) (\<lambda>authorization_list.
     res_bind (convert_to_transaction_type (ptx_transaction_type value)) (\<lambda>transaction_type.
     res_bind (convert_to_u256 (ptx_chain_id value)) (\<lambda>chain_id.
     res_bind (convert_to_u256 (ptx_gas_price value)) (\<lambda>gas_price.
     res_bind (opt_transpose (map_option (convert_to_fixed_size 20) (ptx_to value))) (\<lambda>to.
     res_bind (convert_to_u256 (ptx_value value)) (\<lambda>v.
     res_bind (convert_to_u256 (ptx_max_fee_per_gas value)) (\<lambda>max_fee_per_gas.
     res_bind (convert_to_u256 (ptx_max_priority_fee_per_gas value)) (\<lambda>max_priority_fee_per_gas.
     res_bind (convert_to_u256 (ptx_max_fee_per_blob_gas value)) (\<lambda>max_fee_per_blob_gas.
     res_bind (convert_to_u256 (ptx_y_parity value)) (\<lambda>y_parity.
     res_bind (convert_to_u256 (ptx_r value)) (\<lambda>r.
     res_bind (convert_to_u256 (ptx_s value)) (\<lambda>s.
     Inr \<lparr>tx_transaction_type = transaction_type, tx_chain_id = chain_id,
         tx_nonce = ptx_nonce value, tx_gas_price = gas_price, tx_gas_limit = ptx_gas_limit value,
         tx_to = to, tx_value = v, tx_data = ptx_data value, tx_access_list = access_list,
         tx_max_fee_per_gas = max_fee_per_gas,
         tx_max_priority_fee_per_gas = max_priority_fee_per_gas,
         tx_blob_versioned_hashes = blob_versioned_hashes,
         tx_max_fee_per_blob_gas = max_fee_per_blob_gas,
         tx_authorization_list = authorization_list, tx_y_parity = y_parity, tx_r = r, tx_s = s\<rparr>))))))))))))))"

definition log_of_proto :: "proto_log \<Rightarrow> error + log_entry" where
  "log_of_proto value =
     res_bind (convert_to_fixed_size 20 (plog_address value)) (\<lambda>address.
     res_bind (collect_results (map (convert_to_fixed_size 32) (plog_topics value))) (\<lambda>topics.
     Inr \<lparr>log_address = address, log_topics = topics, log_data = plog_data value\<rparr>))"

definition post_state_of_proto :: "proto_post_state_or_status option \<Rightarrow> error + post_state_or_status" where
  "post_state_of_proto value =
     (case value of
        Some (ProtoStatus status) \<Rightarrow> Inr (Status status)
      | Some (ProtoPostState post_state) \<Rightarrow>
          if length post_state = 32 then Inr (PostState post_state) else Inl TypeConversion
      | None \<Rightarrow> Inl TypeConversion)"

definition receipt_of_proto :: "proto_transaction_receipt \<Rightarrow> error + transaction_receipt" where
  "receipt_of_proto value =
     res_bind (collect_results (map log_of_proto (ptr_logs value))) (\<lambda>logs.
     res_bind (convert_to_transaction_type (ptr_transaction_type value)) (\<lambda>transaction_type.
     res_bind (post_state_of_proto (ptr_post_state_or_status value)) (\<lambda>post_state_or_status.
     Inr \<lparr>tr_transaction_type = transaction_type, tr_post_state_or_status = post_state_or_status,
         tr_cumulative_gas_used = ptr_cumulative_gas_used value, tr_logs = logs\<rparr>)))"

definition withdrawal_of_proto :: "proto_withdrawal \<Rightarrow> error + withdrawal" where
  "withdrawal_of_proto value =
     res_bind (convert_to_fixed_size 20 (pwd_address value)) (\<lambda>address.
     Inr \<lparr>wd_index = pwd_index value, wd_validator_index = pwd_validator_index value,
         wd_address = address, wd_amount = pwd_amount value\<rparr>)"

definition ommer_header_of_proto :: "proto_ommer_header \<Rightarrow> error + ommer_header" where
  "ommer_header_of_proto value =
     res_bind (convert_to_fixed_size 20 (pom_beneficiary value)) (\<lambda>beneficiary.
     Inr \<lparr>om_beneficiary = beneficiary, om_number = pom_number value\<rparr>)"

definition block_of_proto :: "proto_block \<Rightarrow> error + block" where
  "block_of_proto value =
     res_bind (collect_results (map transaction_of_proto (pb_transactions value))) (\<lambda>transactions.
     res_bind (collect_results (map receipt_of_proto (pb_receipts value))) (\<lambda>receipts.
     res_bind (collect_results (map withdrawal_of_proto (pb_withdrawals value))) (\<lambda>withdrawals.
     res_bind (collect_results (map ommer_header_of_proto (pb_ommer_headers value))) (\<lambda>ommer_headers.
     res_bind (convert_to_fixed_size 32 (pb_parent_hash value)) (\<lambda>parent_hash.
     res_bind (convert_to_fixed_size 32 (pb_ommers_hash value)) (\<lambda>ommers_hash.
     res_bind (convert_to_fixed_size 20 (pb_beneficiary value)) (\<lambda>beneficiary.
     res_bind (convert_to_fixed_size 32 (pb_state_root value)) (\<lambda>state_root.
     res_bind (convert_to_fixed_size 32 (pb_prev_randao value)) (\<lambda>prev_randao.
     res_bind (convert_to_fixed_size 8 (pb_nonce value)) (\<lambda>nonce.
     res_bind (opt_transpose (map_option convert_to_u256 (pb_base_fee_per_gas value))) (\<lambda>base_fee_per_gas.
     res_bind (opt_transpose (map_option (convert_to_fixed_size 32) (pb_withdrawals_root value))) (\<lambda>withdrawals_root.
     res_bind (opt_transpose (map_option (convert_to_fixed_size 32) (pb_parent_beacon_block_root value))) (\<lambda>parent_beacon_block_root.
     res_bind (opt_transpose (map_option (convert_to_fixed_size 32) (pb_requests_hash value))) (\<lambda>requests_hash.
     res_bind (opt_transpose (map_option (convert_to_fixed_size 32) (pb_verkle_state_root value))) (\<lambda>verkle_state_root.
     res_bind (opt_transpose (map_option (convert_to_fixed_size 32) (pb_binary_state_root value))) (\<lambda>binary_state_root.
     Inr \<lparr>b_parent_hash = parent_hash, b_ommers_hash = ommers_hash, b_beneficiary = beneficiary,
         b_state_root = state_root, b_difficulty = pb_difficulty value,
         b_number = pb_number value, b_gas_limit = pb_gas_limit value,
         b_timestamp = pb_timestamp value, b_extra_data = pb_extra_data value,
         b_prev_randao = prev_randao, b_nonce = nonce, b_transactions = transactions,
         b_receipts = receipts, b_base_fee_per_gas = base_fee_per_gas,
         b_withdrawals_root = withdrawals_root, b_withdrawals = withdrawals,
         b_blob_gas_used = pb_blob_gas_used value, b_excess_blob_gas = pb_excess_blob_gas value,
         b_parent_beacon_block_root = parent_beacon_block_root, b_requests_hash = requests_hash,
         b_ommer_headers = ommer_headers, b_verkle_state_root = verkle_state_root,
         b_binary_state_root = binary_state_root\<rparr>))))))))))))))))"

subsection \<open>The conversions are inverse to each other\<close>

lemma collect_results_map_iff:
  assumes "\<And>x y. f x = Inr y \<longleftrightarrow> P y \<and> g y = x"
  shows "collect_results (map f xs) = Inr ys \<longleftrightarrow> list_all P ys \<and> map g ys = xs"
  unfolding collect_results_Inr_iff
proof (induction xs arbitrary: ys)
  case Nil
  then show ?case by auto
next
  case (Cons x xs)
  show ?case using Cons.IH [of "tl ys"] assms [of x "hd ys"] by (cases ys) auto
qed

lemma opt_transpose_map_iff:
  assumes "\<And>x y. f x = Inr y \<longleftrightarrow> P y \<and> g y = x"
  shows "opt_transpose (map_option f r) = Inr y \<longleftrightarrow> pred_option P y \<and> map_option g y = r"
  by (cases r; cases y) (auto simp: opt_transpose_Inr_iff assms)

lemma convert_to_fixed_size_iff: "convert_to_fixed_size n data = Inr v \<longleftrightarrow> len_ok n v \<and> v = data"
  by (auto simp: convert_to_fixed_size_def len_ok_def)

lemma convert_to_u256_iff: "convert_to_u256 data = Inr v \<longleftrightarrow> u256_to_be_bytes v = data"
proof
  assume "convert_to_u256 data = Inr v"
  then show "u256_to_be_bytes v = data"
    by (auto simp: convert_to_u256_def convert_to_fixed_size_def to_from_be_bytes split: if_splits)
next
  assume "u256_to_be_bytes v = data"
  then show "convert_to_u256 data = Inr v"
    by (auto simp: convert_to_u256_def convert_to_fixed_size_def)
qed

lemma u8_try_from_u64_iff: "u8_try_from_u64 v = Some b \<longleftrightarrow> (ucast b :: u64) = v"
proof
  assume a: "u8_try_from_u64 v = Some b"
  then have lt: "unat v < 256" and b: "b = ucast v" by (auto simp: u8_try_from_u64_def split: if_splits)
  have "unat (ucast (ucast v :: u8) :: u64) = unat v"
    using lt by (simp add: unsigned_ucast_eq unsigned_take_bit_eq take_bit_nat_eq_self)
  then show "(ucast b :: u64) = v" unfolding b by (rule word_unat_eq_iff [THEN iffD2])
next
  assume v: "(ucast b :: u64) = v"
  have "unat b < 256" using unsigned_less [of b, where ?'a = nat] by simp
  then show "u8_try_from_u64 v = Some b"
    unfolding v [symmetric] u8_try_from_u64_def by (simp add: unsigned_ucast_eq take_bit_nat_eq_self take_bit_word_eq_self)
qed

lemma convert_to_transaction_type_iff:
  "convert_to_transaction_type v = Inr t \<longleftrightarrow> (ucast (transaction_type_as_u8 t) :: u64) = v"
  unfolding u8_try_from_u64_iff [symmetric]
  by (auto simp: convert_to_transaction_type_def transaction_type_try_from_Inr split: option.splits)

lemma convert_lists_iff:
  "collect_results (map (convert_to_fixed_size n) xs) = Inr ys \<longleftrightarrow> list_all (len_ok n) ys \<and> ys = xs"
  "opt_transpose (map_option (convert_to_fixed_size n) x) = Inr y \<longleftrightarrow> pred_option (len_ok n) y \<and> y = x"
  "opt_transpose (map_option convert_to_u256 x) = Inr z \<longleftrightarrow> map_option u256_to_be_bytes z = x"
  using collect_results_map_iff [of "convert_to_fixed_size n" "len_ok n" "\<lambda>x. x" xs ys]
    opt_transpose_map_iff [of "convert_to_fixed_size n" "len_ok n" "\<lambda>x. x" x y]
    opt_transpose_map_iff [of convert_to_u256 "\<lambda>_. True" u256_to_be_bytes x z]
  by (auto simp: convert_to_fixed_size_iff convert_to_u256_iff option.map_ident pred_option_def)

lemmas convert_iff = convert_to_fixed_size_iff convert_to_u256_iff convert_to_transaction_type_iff convert_lists_iff

lemma access_list_entry_of_proto_iff:
  "access_list_entry_of_proto p = Inr a \<longleftrightarrow> wf_access_list_entry a \<and> proto_of_access_list_entry a = p"
  by (cases p; cases a)
    (auto simp: access_list_entry_of_proto_def proto_of_access_list_entry_def wf_access_list_entry_def convert_iff)

lemma authorization_of_proto_iff:
  "authorization_of_proto p = Inr a \<longleftrightarrow> wf_authorization a \<and> proto_of_authorization a = p"
proof -
  have "(case u8_try_from_u64 v of None \<Rightarrow> Inl TypeConversion | Some b \<Rightarrow> Inr b) = Inr b \<longleftrightarrow> (ucast b :: u64) = v" for v b
    unfolding u8_try_from_u64_iff [symmetric] by (auto split: option.splits)
  then show ?thesis
    by (cases p; cases a) (auto simp: authorization_of_proto_def proto_of_authorization_def wf_authorization_def convert_iff)
qed

lemmas tx_lists_iff = collect_results_map_iff [OF access_list_entry_of_proto_iff]
  collect_results_map_iff [OF authorization_of_proto_iff]

lemma transaction_of_proto_iff:
  "transaction_of_proto p = Inr t \<longleftrightarrow> wf_transaction t \<and> proto_of_transaction t = p"
  by (cases p; cases t)
    (auto simp: transaction_of_proto_def proto_of_transaction_def wf_transaction_def convert_iff tx_lists_iff)

lemma log_of_proto_iff: "log_of_proto p = Inr l \<longleftrightarrow> wf_log l \<and> proto_of_log l = p"
  by (cases p; cases l) (auto simp: log_of_proto_def proto_of_log_def wf_log_def convert_iff)

lemma post_state_of_proto_iff:
  "post_state_of_proto p = Inr s \<longleftrightarrow> wf_post_state s \<and>
     (case s of PostState h \<Rightarrow> Some (ProtoPostState h) | Status n \<Rightarrow> Some (ProtoStatus n)) = p"
  by (cases s) (auto simp: post_state_of_proto_def len_ok_def
      split: option.splits proto_post_state_or_status.splits if_splits)

lemma receipt_of_proto_iff: "receipt_of_proto p = Inr r \<longleftrightarrow> wf_receipt r \<and> proto_of_receipt r = p"
  by (cases p; cases r)
    (auto simp: receipt_of_proto_def proto_of_receipt_def wf_receipt_def convert_iff post_state_of_proto_iff
      collect_results_map_iff [OF log_of_proto_iff])

lemma withdrawal_of_proto_iff:
  "withdrawal_of_proto p = Inr w \<longleftrightarrow> len_ok 20 (wd_address w) \<and> proto_of_withdrawal w = p"
  by (cases p; cases w) (auto simp: withdrawal_of_proto_def proto_of_withdrawal_def convert_iff)

lemma ommer_header_of_proto_iff:
  "ommer_header_of_proto p = Inr h \<longleftrightarrow> len_ok 20 (om_beneficiary h) \<and> proto_of_ommer_header h = p"
  by (cases p; cases h) (auto simp: ommer_header_of_proto_def proto_of_ommer_header_def convert_iff)

lemmas block_lists_iff = collect_results_map_iff [OF transaction_of_proto_iff]
  collect_results_map_iff [OF receipt_of_proto_iff] collect_results_map_iff [OF withdrawal_of_proto_iff]
  collect_results_map_iff [OF ommer_header_of_proto_iff]

lemma block_of_proto_iff: "block_of_proto p = Inr b \<longleftrightarrow> wf_block b \<and> proto_of_block b = p"
  by (cases p; cases b)
    (auto simp: block_of_proto_def proto_of_block_def wf_block_def convert_iff block_lists_iff)

end
