(* ===== verification/Block_Store.thy ===== *)
theory Block_Store
  imports Block_Db_Spec Proto_Convert
begin

section \<open>The BlockDb trait and its contract\<close>

text \<open>
  The traits \<open>BlockDb\<close> and \<open>BlockDbBatch\<close> of blockservice/src/db/blockdb.rs as
  a record of operations, and their implementation \<open>kv_blockdb\<close> by
  \<open>KvDbBackedBlockDb\<close>, with the typed operations \<open>get\<close>, \<open>put\<close> and
  \<open>iterate\<close>, which go through the protobuf encoding. The prost crate is the parameter
  \<open>pr\<close>; what the code relies on is that it decodes what it encoded (locale
  \<open>prost_crate\<close>). The commands and the server are written against the trait, so their
  lemmas are proved in the locales \<open>block_store\<close> (what each operation does when it
  returns) and \<open>block_store_live\<close> (and that it returns). The sublocale commands show that
  the database over RocksDB meets both contracts; the interpretation \<open>memdb\<close> is an
  executable instance.
\<close>

subsection \<open>Typed operations\<close>

record prost =
  prost_encode :: "proto_block \<Rightarrow> bytes"
  prost_decode :: "bytes \<Rightarrow> string + proto_block"

definition encode_block :: "prost \<Rightarrow> block \<Rightarrow> bytes" where
  "encode_block pr b = prost_encode pr (proto_of_block b)"

definition decode_block :: "prost \<Rightarrow> bytes \<Rightarrow> error + block" where
  "decode_block pr data = res_bind (map_err Protobuf (prost_decode pr data)) block_of_proto"

definition get_block :: "('d, 'b) kvdb \<Rightarrow> prost \<Rightarrow> 'd \<Rightarrow> u64 \<Rightarrow> u64 \<Rightarrow> error + block option" where
  "get_block kv pr d chain_id block_number =
     res_bind (get_bytes kv d chain_id block_number) (\<lambda>r. opt_transpose (map_option (decode_block pr) r))"

definition put_block :: "('d, 'b) kvdb \<Rightarrow> prost \<Rightarrow> 'd \<Rightarrow> u64 \<Rightarrow> block \<Rightarrow> (error + unit) \<times> 'd" where
  "put_block kv pr d chain_id b = put_bytes kv d chain_id (b_number b) (encode_block pr b)"

definition decode_item :: "(bytes \<Rightarrow> error + block) \<Rightarrow> error + u64 \<times> bytes \<Rightarrow> error + u64 \<times> block" where
  "decode_item dec result =
     res_bind result (\<lambda>(block_number, data). map_ok (\<lambda>b. (block_number, b)) (dec data))"

definition iterate_blocks ::
  "('d, 'b) kvdb \<Rightarrow> prost \<Rightarrow> 'd \<Rightarrow> u64 \<Rightarrow> u64 \<Rightarrow> iteration_direction \<Rightarrow> (error + u64 \<times> block) list" where
  "iterate_blocks kv pr d chain_id start_block_number direction =
     map (decode_item (decode_block pr)) (iterate_bytes kv d chain_id start_block_number direction)"

subsection \<open>The trait\<close>

record ('d, 'b) blockdb =
  db_get_chain_ids :: "'d \<Rightarrow> error + u64 list"
  db_get_ranges_of_chain_id :: "'d \<Rightarrow> u64 \<Rightarrow> error + block_range list"
  db_get_rules_update_heights :: "'d \<Rightarrow> u64 \<Rightarrow> error + bytes option"
  db_put_rules_update_heights :: "'d \<Rightarrow> u64 \<Rightarrow> bytes \<Rightarrow> (error + unit) \<times> 'd"
  db_get_corrections :: "'d \<Rightarrow> u64 \<Rightarrow> error + bytes option"
  db_put_corrections :: "'d \<Rightarrow> u64 \<Rightarrow> bytes \<Rightarrow> (error + unit) \<times> 'd"
  db_get_failed_bundles :: "'d \<Rightarrow> u64 \<Rightarrow> error + bytes option"
  db_put_failed_bundles :: "'d \<Rightarrow> u64 \<Rightarrow> bytes \<Rightarrow> (error + unit) \<times> 'd"
  db_get :: "'d \<Rightarrow> u64 \<Rightarrow> u64 \<Rightarrow> error + block option"
  db_get_bytes :: "'d \<Rightarrow> u64 \<Rightarrow> u64 \<Rightarrow> error + bytes option"
  db_put :: "'d \<Rightarrow> u64 \<Rightarrow> block \<Rightarrow> (error + unit) \<times> 'd"
  db_put_bytes :: "'d \<Rightarrow> u64 \<Rightarrow> u64 \<Rightarrow> bytes \<Rightarrow> (error + unit) \<times> 'd"
  db_delete_range :: "'d \<Rightarrow> u64 \<Rightarrow> u64 \<Rightarrow> u64 \<Rightarrow> (error + unit) \<times> 'd"
  db_iterate :: "'d \<Rightarrow> u64 \<Rightarrow> u64 \<Rightarrow> iteration_direction \<Rightarrow> (error + u64 \<times> block) list"
  db_iterate_bytes :: "'d \<Rightarrow> u64 \<Rightarrow> u64 \<Rightarrow> iteration_direction \<Rightarrow> (error + u64 \<times> bytes) list"
  db_batch :: "'d \<Rightarrow> 'b"
  db_write_batch :: "'d \<Rightarrow> 'b \<Rightarrow> (error + unit) \<times> 'd"
  db_try_catch_up_with_primary :: "'d \<Rightarrow> (error + unit) \<times> 'd"
  bb_put_bytes :: "'b \<Rightarrow> u64 \<Rightarrow> u64 \<Rightarrow> bytes \<Rightarrow> 'b"
  bb_size :: "'b \<Rightarrow> nat"

definition kv_blockdb ::
  "('d, 'b) kvdb \<Rightarrow> hash_order \<Rightarrow> prost \<Rightarrow> ('d, 'b kv_batch_wrapper) blockdb" where
  "kv_blockdb kv ho pr =
     \<lparr>db_get_chain_ids = get_chain_ids kv, db_get_ranges_of_chain_id = get_ranges_of_chain_id kv,
      db_get_rules_update_heights = get_rules_update_heights kv,
      db_put_rules_update_heights = put_rules_update_heights kv,
      db_get_corrections = get_corrections kv, db_put_corrections = put_corrections kv,
      db_get_failed_bundles = get_failed_bundles kv, db_put_failed_bundles = put_failed_bundles kv,
      db_get = get_block kv pr, db_get_bytes = get_bytes kv, db_put = put_block kv pr,
      db_put_bytes = put_bytes kv, db_delete_range = delete_range kv,
      db_iterate = iterate_blocks kv pr, db_iterate_bytes = iterate_bytes kv,
      db_batch = new_batch kv, db_write_batch = write_batch kv ho,
      db_try_catch_up_with_primary = try_catch_up_with_primary kv,
      bb_put_bytes = batch_put_bytes kv, bb_size = batch_wrapper_size kv\<rparr>"

lemma kv_blockdb_sel [simp]:
  "db_get_chain_ids (kv_blockdb kv ho pr) = get_chain_ids kv"
  "db_get_ranges_of_chain_id (kv_blockdb kv ho pr) = get_ranges_of_chain_id kv"
  "db_get_rules_update_heights (kv_blockdb kv ho pr) = get_rules_update_heights kv"
  "db_put_rules_update_heights (kv_blockdb kv ho pr) = put_rules_update_heights kv"
  "db_get_corrections (kv_blockdb kv ho pr) = get_corrections kv"
  "db_put_corrections (kv_blockdb kv ho pr) = put_corrections kv"
  "db_get_failed_bundles (kv_blockdb kv ho pr) = get_failed_bundles kv"
  "db_put_failed_bundles (kv_blockdb kv ho pr) = put_failed_bundles kv"
  "db_get (kv_blockdb kv ho pr) = get_block kv pr"
  "db_get_bytes (kv_blockdb kv ho pr) = get_bytes kv"
  "db_put (kv_blockdb kv ho pr) = put_block kv pr"
  "db_put_bytes (kv_blockdb kv ho pr) = put_bytes kv"
  "db_delete_range (kv_blockdb kv ho pr) = delete_range kv"
  "db_iterate (kv_blockdb kv ho pr) = iterate_blocks kv pr"
  "db_iterate_bytes (kv_blockdb kv ho pr) = iterate_bytes kv"
  "db_batch (kv_blockdb kv ho pr) = new_batch kv"
  "db_write_batch (kv_blockdb kv ho pr) = write_batch kv ho"
  "db_try_catch_up_with_primary (kv_blockdb kv ho pr) = try_catch_up_with_primary kv"
  "bb_put_bytes (kv_blockdb kv ho pr) = batch_put_bytes kv"
  "bb_size (kv_blockdb kv ho pr) = batch_wrapper_size kv"
  by (simp_all add: kv_blockdb_def)

subsection \<open>Contracts\<close>

definition effect :: "(abs_db \<Rightarrow> abs_db) \<Rightarrow> error + unit \<Rightarrow> abs_db \<Rightarrow> abs_db" where
  "effect g r s = (case r of Inl e \<Rightarrow> s | Inr u \<Rightarrow> g s)"

lemma effect_simps [simp]: "effect g (Inl e) s = s" "effect g (Inr u) s = g s"
  by (simp_all add: effect_def)

locale block_store =
  fixes D :: "('d, 'b) blockdb"
    and inv :: "'d \<Rightarrow> bool"
    and abs :: "'d \<Rightarrow> abs_db"
    and holds :: "'b \<Rightarrow> (u64 \<times> u64 \<times> bytes) list \<Rightarrow> bool"
    and enc :: "block \<Rightarrow> bytes"
    and dec :: "bytes \<Rightarrow> error + block"
  assumes chain_ids_law: "inv d \<Longrightarrow> db_get_chain_ids D d = Inr ids \<Longrightarrow> sorted_wrt (<) ids \<and> set ids = chains (abs d)"
    and ranges_law: "inv d \<Longrightarrow> db_get_ranges_of_chain_id D d c = Inr rs \<Longrightarrow>
      nonempty_ranges rs \<and> ranges_set rs = stored (abs d) c"
    and rules_law: "db_get_rules_update_heights D d c = Inr v \<Longrightarrow> v = rules (abs d) c"
    and corrections_law: "db_get_corrections D d c = Inr v \<Longrightarrow> v = corrections (abs d) c"
    and failed_bundles_law: "db_get_failed_bundles D d c = Inr v \<Longrightarrow> v = failed_bundles (abs d) c"
    and get_bytes_law: "db_get_bytes D d c n = Inr v \<Longrightarrow> v = blocks (abs d) c n"
    and get_law: "db_get D d c n = res_bind (db_get_bytes D d c n) (\<lambda>r. opt_transpose (map_option dec r))"
    and put_law: "db_put D d c blk = db_put_bytes D d c (b_number blk) (enc blk)"
    and put_bytes_law: "inv d \<Longrightarrow> db_put_bytes D d c n data = (r, d') \<Longrightarrow>
      inv d' \<and> abs d' = effect (abs_put c n data) r (abs d)"
    and put_rules_law: "inv d \<Longrightarrow> db_put_rules_update_heights D d c data = (r, d') \<Longrightarrow>
      inv d' \<and> abs d' = effect (abs_put_rules c data) r (abs d)"
    and put_corrections_law: "inv d \<Longrightarrow> db_put_corrections D d c data = (r, d') \<Longrightarrow>
      inv d' \<and> abs d' = effect (abs_put_corrections c data) r (abs d)"
    and put_failed_bundles_law: "inv d \<Longrightarrow> db_put_failed_bundles D d c data = (r, d') \<Longrightarrow>
      inv d' \<and> abs d' = effect (abs_put_failed_bundles c data) r (abs d)"
    and delete_law: "inv d \<Longrightarrow> db_delete_range D d c from to = (r, d') \<Longrightarrow>
      inv d' \<and> abs d' = effect (abs_delete c from to) r (abs d)"
    and iterate_bytes_law: "inv d \<Longrightarrow> stream_of (block_entries (abs d) c n dir) (db_iterate_bytes D d c n dir)"
    and iterate_law: "db_iterate D d c n dir = map (decode_item dec) (db_iterate_bytes D d c n dir)"
    and batch_law: "holds (db_batch D d) []"
    and batch_put_law: "holds bt puts \<Longrightarrow> holds (bb_put_bytes D bt c n data) (puts @ [(c, n, data)])"
    and write_batch_law: "inv d \<Longrightarrow> holds bt puts \<Longrightarrow> db_write_batch D d bt = (r, d') \<Longrightarrow>
      inv d' \<and> abs d' = effect (abs_put_all puts) r (abs d)"

locale block_store_live = block_store D inv abs holds enc dec
  for D :: "('d, 'b) blockdb" and inv :: "'d \<Rightarrow> bool" and abs :: "'d \<Rightarrow> abs_db"
    and holds :: "'b \<Rightarrow> (u64 \<times> u64 \<times> bytes) list \<Rightarrow> bool" and enc :: "block \<Rightarrow> bytes"
    and dec :: "bytes \<Rightarrow> error + block" +
  fixes live :: "'d \<Rightarrow> bool"
  assumes ranges_live: "live d \<Longrightarrow> inv d \<Longrightarrow> \<exists>rs. db_get_ranges_of_chain_id D d c = Inr rs"
    and chain_ids_live: "live d \<Longrightarrow> inv d \<Longrightarrow> \<exists>ids. db_get_chain_ids D d = Inr ids"
    and rules_live: "live d \<Longrightarrow> \<exists>r. db_get_rules_update_heights D d c = Inr r"
    and corrections_live: "live d \<Longrightarrow> \<exists>r. db_get_corrections D d c = Inr r"
    and failed_bundles_live: "live d \<Longrightarrow> \<exists>r. db_get_failed_bundles D d c = Inr r"
    and get_bytes_live: "live d \<Longrightarrow> \<exists>r. db_get_bytes D d c n = Inr r"
    and put_bytes_live: "live d \<Longrightarrow> inv d \<Longrightarrow> \<exists>d'. db_put_bytes D d c n data = (Inr (), d') \<and> live d'"
    and delete_live: "live d \<Longrightarrow> inv d \<Longrightarrow> from \<le> to \<Longrightarrow> \<exists>d'. db_delete_range D d c from to = (Inr (), d') \<and> live d'"
    and iterate_bytes_live: "live d \<Longrightarrow> inv d \<Longrightarrow>
      db_iterate_bytes D d c n dir = map Inr (block_entries (abs d) c n dir)"
    and write_batch_live: "live d \<Longrightarrow> inv d \<Longrightarrow> holds bt puts \<Longrightarrow>
      \<exists>d'. db_write_batch D d bt = (Inr (), d') \<and> live d'"

locale prost_crate =
  fixes pr :: prost
  assumes decode_encode: "prost_decode pr (prost_encode pr p) = Inr p"
begin

lemma decode_encode_block: "wf_block b \<Longrightarrow> decode_block pr (encode_block pr b) = Inr b"
  by (simp add: decode_block_def encode_block_def decode_encode block_of_proto_iff)

end

subsection \<open>The implementation meets the contract\<close>

locale kv_block_db = kv_store kv view bview
  for kv :: "('d, 'b) kvdb" and view :: "'d \<Rightarrow> store" and bview :: "'b \<Rightarrow> store \<Rightarrow> store" +
  fixes ho :: hash_order and pr :: prost
  assumes ho: "order_only ho"

lemma outcome_effect: "db_inv m \<Longrightarrow> outcome g m r m' \<Longrightarrow> db_inv m' \<and> abs_of m' = effect g r (abs_of m)"
  by (cases r) auto

sublocale kv_block_db \<subseteq> bs: block_store "kv_blockdb kv ho pr" "\<lambda>d. db_inv (view d)" "\<lambda>d. abs_of (view d)"
  "batch_holds bview" "encode_block pr" "decode_block pr"
proof (unfold_locales, unfold kv_blockdb_sel, goal_cases)
  case (1 d ids)
  then show ?case using metadata_reads_ok by blast
next
  case (2 d c rs)
  then show ?case using metadata_reads_ok by blast
next
  case (3 d c r)
  then show ?case by (rule reads_ok)
next
  case (4 d c r)
  then show ?case by (rule reads_ok)
next
  case (5 d c r)
  then show ?case by (rule reads_ok)
next
  case (6 d c n r)
  then show ?case by (rule reads_ok)
next
  case (7 d c n)
  show ?case by (rule get_block_def)
next
  case (8 d c b)
  show ?case by (rule put_block_def)
next
  case (9 d c n data r d')
  then show ?case by (intro outcome_effect put_bytes_outcome)
next
  case (10 d c data r d')
  then show ?case by (intro outcome_effect conjunct1 [OF put_metadata_outcomes(1)])
next
  case (11 d c data r d')
  then show ?case by (intro outcome_effect conjunct1 [OF put_metadata_outcomes(2)])
next
  case (12 d c data r d')
  then show ?case by (intro outcome_effect conjunct1 [OF put_metadata_outcomes(3)])
next
  case (13 d c a b r d')
  then show ?case by (intro outcome_effect delete_range_outcome)
next
  case (14 d c n dir)
  then show ?case by (rule iterate_bytes_stream)
next
  case (15 d c n dir)
  show ?case by (rule iterate_blocks_def)
next
  case (16 d)
  show ?case by (rule new_batch_holds)
next
  case (17 b puts c n data)
  then show ?case by (rule batch_put_bytes_holds)
next
  case (18 d b puts r d')
  have "mset (ho (block_ranges b)) = mset (block_ranges b)" using ho by (simp add: order_only_def)
  from conjunct1 [OF write_batch_outcome [where ho = ho, OF 18(1,2) this 18(3)]] show ?case
    by (rule outcome_effect [OF 18(1)])
qed

locale kv_block_db_live = kv_block_db kv view bview ho pr + kv_store_live kv view bview live
  for kv :: "('d, 'b) kvdb" and view :: "'d \<Rightarrow> store" and bview :: "'b \<Rightarrow> store \<Rightarrow> store"
    and ho :: hash_order and pr :: prost and live :: "'d \<Rightarrow> bool"

sublocale kv_block_db_live \<subseteq> bsl: block_store_live "kv_blockdb kv ho pr" "\<lambda>d. db_inv (view d)" "\<lambda>d. abs_of (view d)"
  "batch_holds bview" "encode_block pr" "decode_block pr" live
proof (unfold_locales, unfold kv_blockdb_sel, goal_cases)
  case (1 d c)
  then show ?case by (blast elim: metadata_reads_live)
next
  case (2 d)
  then show ?case by (blast elim: metadata_reads_live)
next
  case (7 d c n data)
  then show ?case using run_op_live [of d "PutBytes c n data"] by simp
next
  case (8 d a b c)
  then show ?case using run_op_live [of d "DeleteRange c a b"] by simp
next
  case (9 d c n dir)
  then show ?case by (rule iterate_bytes_live)
next
  case (10 d b puts)
  show ?case
  proof (cases "block_ranges b = []")
    case True
    then show ?thesis using 10 by (simp add: write_batch_def)
  next
    case False
    obtain ids where ids: "get_chain_ids kv d = Inr ids" and rng: "\<forall>c. \<exists>rs. get_ranges_of_chain_id kv d c = Inr rs"
      using 10(1,2) by (rule metadata_reads_live)
    obtain ids' b' where "write_batch_loop kv d (ho (block_ranges b)) ids (kv_batch b) = Inr (ids', b')"
      using write_batch_loop_live [OF rng] by blast
    with False ids write_live [OF 10(1)] show ?thesis by (simp add: write_batch_def)
  qed
qed (simp_all add: reads_live)

locale rocks_block_db = rocksdb_crate R rview wview healthy
  for R :: "('db, 'wb) rocksdb" and rview :: "'db \<Rightarrow> store" and wview :: "'wb \<Rightarrow> store \<Rightarrow> store"
    and healthy :: "'db \<Rightarrow> bool" +
  fixes ho :: hash_order and pr :: prost
  assumes rocks_order: "order_only ho"

sublocale rocks_block_db \<subseteq> rdb: kv_block_db_live "rocks_kvdb R" "\<lambda>d. rview (rocks_inner d)" wview ho pr
  "\<lambda>d. healthy (rocks_inner d)"
  by unfold_locales (rule rocks_order)

abbreviation rocks_blockdb ::
  "('db, 'wb) rocksdb \<Rightarrow> hash_order \<Rightarrow> prost \<Rightarrow> ('db rocks_db, 'wb kv_batch_wrapper) blockdb" where
  "rocks_blockdb R ho pr \<equiv> kv_blockdb (rocks_kvdb R) ho pr"

context rocks_block_db
begin

lemma rocks_block_store:
  "block_store (rocks_blockdb R ho pr) (\<lambda>d. db_inv (rview (rocks_inner d))) (\<lambda>d. abs_of (rview (rocks_inner d)))
     (batch_holds wview) (encode_block pr) (decode_block pr)"
  by (rule rdb.bs.block_store_axioms)

lemma rocks_block_store_live:
  "block_store_live (rocks_blockdb R ho pr) (\<lambda>d. db_inv (rview (rocks_inner d))) (\<lambda>d. abs_of (rview (rocks_inner d)))
     (batch_holds wview) (encode_block pr) (decode_block pr) (\<lambda>d. healthy (rocks_inner d))"
  by (rule rdb.bsl.block_store_live_axioms)

end

end
