(* ===== verification/Wire_Instance.thy ===== *)
theory Wire_Instance
  imports Block_Store
begin

section \<open>An executable value for the protobuf parameter\<close>

text \<open>
  A self-delimiting wire format for the messages of \<open>Proto_Convert\<close>, which shows that
  the law stated for the prost crate can hold and makes the typed database operations
  executable. It is not the protobuf format; the development uses nothing of it but the law.
  The interpretation \<open>memdb\<close> puts it together with the in-memory store.
\<close>

fun join :: "bytes list \<Rightarrow> bytes" where
  "join [] = [0]"
| "join (x # xs) = concat (map (\<lambda>b. [2, b]) x) @ 1 # join xs"

fun split_acc :: "bytes list \<Rightarrow> bytes \<Rightarrow> bytes \<Rightarrow> bytes list" where
  "split_acc acc cur [] = rev acc"
| "split_acc acc cur [x] = rev acc"
| "split_acc acc cur (x # b # r) =
     (if x = 0 then rev acc
      else if x = 1 then split_acc (rev cur # acc) [] (b # r)
      else split_acc acc (b # cur) r)"

definition split_all :: "bytes \<Rightarrow> bytes list" where
  "split_all bs = split_acc [] [] bs"

definition field :: "nat \<Rightarrow> bytes list \<Rightarrow> bytes" where
  "field i fs = (if i < length fs then fs ! i else [])"

fun opt_list :: "'a option \<Rightarrow> 'a list" where
  "opt_list None = []"
| "opt_list (Some x) = [x]"

fun list_opt :: "'a list \<Rightarrow> 'a option" where
  "list_opt [] = None"
| "list_opt (x # xs) = Some x"

lemma split_acc_item: "split_acc acc cur (concat (map (\<lambda>b. [2, b]) x) @ 1 # b # r) = split_acc ((rev cur @ x) # acc) [] (b # r)"
  by (induction x arbitrary: cur) simp_all

lemma join_nonempty: "\<exists>b r. join xs = b # r"
  by (cases "join xs"; cases xs) auto

lemma split_acc_join: "split_acc acc [] (join xs) = rev acc @ xs"
proof (induction xs arbitrary: acc)
  case (Cons x xs)
  obtain b r where "join xs = b # r" using join_nonempty by blast
  with Cons.IH [of "x # acc"] split_acc_item [of acc "[]" x b r] show ?case by simp
qed simp

lemma split_join [simp]: "split_all (join xs) = xs"
  by (simp add: split_all_def split_acc_join)

declare join.simps [simp del]

lemma list_opt_opt_list [simp]: "list_opt (opt_list x) = x" "list_opt (map f (opt_list x)) = map_option f x"
  by (cases x; simp)+

lemma field_simps [simp]: "field 0 (x # xs) = x" "field (Suc i) (x # xs) = field i xs"
  by (simp_all add: field_def)

lemma field_numeral [simp]: "field (numeral k) (x # xs) = field (pred_numeral k) xs"
  by (simp add: numeral_eq_Suc)

fun wire_post :: "proto_post_state_or_status option \<Rightarrow> bytes" where
  "wire_post None = []"
| "wire_post (Some (ProtoPostState h)) = 0 # h"
| "wire_post (Some (ProtoStatus n)) = 1 # u64_to_be_bytes n"

fun unwire_post :: "bytes \<Rightarrow> proto_post_state_or_status option" where
  "unwire_post [] = None"
| "unwire_post (x # r) = Some (if x = 0 then ProtoPostState r else ProtoStatus (u64_from_be_bytes r))"

lemma unwire_wire_post [simp]: "unwire_post (wire_post p) = p"
  by (cases p rule: wire_post.cases) simp_all

definition wire_access_list_entry :: "proto_access_list_entry \<Rightarrow> bytes" where
  "wire_access_list_entry m =
     join [pale_address m, join (pale_storage_keys m)]"

definition unwire_access_list_entry :: "bytes \<Rightarrow> proto_access_list_entry" where
  "unwire_access_list_entry bs =
     (let fs = split_all bs in
     \<lparr>pale_address = field 0 fs, pale_storage_keys = split_all (field 1 fs)\<rparr>)"

lemma unwire_wire_access_list_entry [simp]: "unwire_access_list_entry (wire_access_list_entry m) = m"
  by (cases m) (simp add: unwire_access_list_entry_def wire_access_list_entry_def comp_def option.map_ident Let_def)

definition wire_set_code_authorization :: "proto_set_code_authorization \<Rightarrow> bytes" where
  "wire_set_code_authorization m =
     join [psca_chain_id m, psca_address m, u64_to_be_bytes (psca_nonce m),
      u64_to_be_bytes (psca_y_parity m), psca_r m, psca_s m]"

definition unwire_set_code_authorization :: "bytes \<Rightarrow> proto_set_code_authorization" where
  "unwire_set_code_authorization bs =
     (let fs = split_all bs in
     \<lparr>psca_chain_id = field 0 fs, psca_address = field 1 fs,
      psca_nonce = u64_from_be_bytes (field 2 fs),
      psca_y_parity = u64_from_be_bytes (field 3 fs), psca_r = field 4 fs,
      psca_s = field 5 fs\<rparr>)"

lemma unwire_wire_set_code_authorization [simp]: "unwire_set_code_authorization (wire_set_code_authorization m) = m"
  by (cases m) (simp add: unwire_set_code_authorization_def wire_set_code_authorization_def comp_def option.map_ident Let_def)

definition wire_transaction :: "proto_transaction \<Rightarrow> bytes" where
  "wire_transaction m =
     join [u64_to_be_bytes (ptx_transaction_type m), ptx_chain_id m,
      u64_to_be_bytes (ptx_nonce m), ptx_gas_price m, u64_to_be_bytes (ptx_gas_limit m),
      join (opt_list (ptx_to m)), ptx_value m, ptx_data m,
      join (map wire_access_list_entry (ptx_access_list m)), ptx_max_fee_per_gas m,
      ptx_max_priority_fee_per_gas m, join (ptx_blob_versioned_hashes m),
      ptx_max_fee_per_blob_gas m,
      join (map wire_set_code_authorization (ptx_authorization_list m)), ptx_y_parity m,
      ptx_r m, ptx_s m]"

definition unwire_transaction :: "bytes \<Rightarrow> proto_transaction" where
  "unwire_transaction bs =
     (let fs = split_all bs in
     \<lparr>ptx_transaction_type = u64_from_be_bytes (field 0 fs), ptx_chain_id = field 1 fs,
      ptx_nonce = u64_from_be_bytes (field 2 fs), ptx_gas_price = field 3 fs,
      ptx_gas_limit = u64_from_be_bytes (field 4 fs),
      ptx_to = list_opt (split_all (field 5 fs)), ptx_value = field 6 fs,
      ptx_data = field 7 fs,
      ptx_access_list = map unwire_access_list_entry (split_all (field 8 fs)),
      ptx_max_fee_per_gas = field 9 fs, ptx_max_priority_fee_per_gas = field 10 fs,
      ptx_blob_versioned_hashes = split_all (field 11 fs),
      ptx_max_fee_per_blob_gas = field 12 fs,
      ptx_authorization_list = map unwire_set_code_authorization (split_all (field 13 fs)),
      ptx_y_parity = field 14 fs, ptx_r = field 15 fs, ptx_s = field 16 fs\<rparr>)"

lemma unwire_wire_transaction [simp]: "unwire_transaction (wire_transaction m) = m"
  by (cases m) (simp add: unwire_transaction_def wire_transaction_def comp_def option.map_ident Let_def)

definition wire_log :: "proto_log \<Rightarrow> bytes" where
  "wire_log m =
     join [plog_address m, join (plog_topics m), plog_data m]"

definition unwire_log :: "bytes \<Rightarrow> proto_log" where
  "unwire_log bs =
     (let fs = split_all bs in
     \<lparr>plog_address = field 0 fs, plog_topics = split_all (field 1 fs),
      plog_data = field 2 fs\<rparr>)"

lemma unwire_wire_log [simp]: "unwire_log (wire_log m) = m"
  by (cases m) (simp add: unwire_log_def wire_log_def comp_def option.map_ident Let_def)

definition wire_transaction_receipt :: "proto_transaction_receipt \<Rightarrow> bytes" where
  "wire_transaction_receipt m =
     join [u64_to_be_bytes (ptr_transaction_type m), wire_post (ptr_post_state_or_status m),
      u64_to_be_bytes (ptr_cumulative_gas_used m), join (map wire_log (ptr_logs m))]"

definition unwire_transaction_receipt :: "bytes \<Rightarrow> proto_transaction_receipt" where
  "unwire_transaction_receipt bs =
     (let fs = split_all bs in
     \<lparr>ptr_transaction_type = u64_from_be_bytes (field 0 fs),
      ptr_post_state_or_status = unwire_post (field 1 fs),
      ptr_cumulative_gas_used = u64_from_be_bytes (field 2 fs),
      ptr_logs = map unwire_log (split_all (field 3 fs))\<rparr>)"

lemma unwire_wire_transaction_receipt [simp]: "unwire_transaction_receipt (wire_transaction_receipt m) = m"
  by (cases m) (simp add: unwire_transaction_receipt_def wire_transaction_receipt_def comp_def option.map_ident Let_def)

definition wire_withdrawal :: "proto_withdrawal \<Rightarrow> bytes" where
  "wire_withdrawal m =
     join [u64_to_be_bytes (pwd_index m), u64_to_be_bytes (pwd_validator_index m), pwd_address m,
      u64_to_be_bytes (pwd_amount m)]"

definition unwire_withdrawal :: "bytes \<Rightarrow> proto_withdrawal" where
  "unwire_withdrawal bs =
     (let fs = split_all bs in
     \<lparr>pwd_index = u64_from_be_bytes (field 0 fs),
      pwd_validator_index = u64_from_be_bytes (field 1 fs), pwd_address = field 2 fs,
      pwd_amount = u64_from_be_bytes (field 3 fs)\<rparr>)"

lemma unwire_wire_withdrawal [simp]: "unwire_withdrawal (wire_withdrawal m) = m"
  by (cases m) (simp add: unwire_withdrawal_def wire_withdrawal_def comp_def option.map_ident Let_def)

definition wire_ommer_header :: "proto_ommer_header \<Rightarrow> bytes" where
  "wire_ommer_header m =
     join [pom_beneficiary m, u64_to_be_bytes (pom_number m)]"

definition unwire_ommer_header :: "bytes \<Rightarrow> proto_ommer_header" where
  "unwire_ommer_header bs =
     (let fs = split_all bs in
     \<lparr>pom_beneficiary = field 0 fs, pom_number = u64_from_be_bytes (field 1 fs)\<rparr>)"

lemma unwire_wire_ommer_header [simp]: "unwire_ommer_header (wire_ommer_header m) = m"
  by (cases m) (simp add: unwire_ommer_header_def wire_ommer_header_def comp_def option.map_ident Let_def)

definition wire_block :: "proto_block \<Rightarrow> bytes" where
  "wire_block m =
     join [pb_parent_hash m, pb_ommers_hash m, pb_beneficiary m, pb_state_root m,
      u64_to_be_bytes (pb_difficulty m), u64_to_be_bytes (pb_number m),
      u64_to_be_bytes (pb_gas_limit m), u64_to_be_bytes (pb_timestamp m), pb_extra_data m,
      pb_prev_randao m, pb_nonce m, join (map wire_transaction (pb_transactions m)),
      join (map wire_transaction_receipt (pb_receipts m)),
      join (opt_list (pb_base_fee_per_gas m)), join (opt_list (pb_withdrawals_root m)),
      join (map u64_to_be_bytes (opt_list (pb_blob_gas_used m))),
      join (map u64_to_be_bytes (opt_list (pb_excess_blob_gas m))),
      join (opt_list (pb_parent_beacon_block_root m)), join (opt_list (pb_requests_hash m)),
      join (opt_list (pb_verkle_state_root m)), join (opt_list (pb_binary_state_root m)),
      join (map wire_withdrawal (pb_withdrawals m)),
      join (map wire_ommer_header (pb_ommer_headers m))]"

definition unwire_block :: "bytes \<Rightarrow> proto_block" where
  "unwire_block bs =
     (let fs = split_all bs in
     \<lparr>pb_parent_hash = field 0 fs, pb_ommers_hash = field 1 fs, pb_beneficiary = field 2 fs,
      pb_state_root = field 3 fs, pb_difficulty = u64_from_be_bytes (field 4 fs),
      pb_number = u64_from_be_bytes (field 5 fs),
      pb_gas_limit = u64_from_be_bytes (field 6 fs),
      pb_timestamp = u64_from_be_bytes (field 7 fs), pb_extra_data = field 8 fs,
      pb_prev_randao = field 9 fs, pb_nonce = field 10 fs,
      pb_transactions = map unwire_transaction (split_all (field 11 fs)),
      pb_receipts = map unwire_transaction_receipt (split_all (field 12 fs)),
      pb_base_fee_per_gas = list_opt (split_all (field 13 fs)),
      pb_withdrawals_root = list_opt (split_all (field 14 fs)),
      pb_blob_gas_used = list_opt (map u64_from_be_bytes (split_all (field 15 fs))),
      pb_excess_blob_gas = list_opt (map u64_from_be_bytes (split_all (field 16 fs))),
      pb_parent_beacon_block_root = list_opt (split_all (field 17 fs)),
      pb_requests_hash = list_opt (split_all (field 18 fs)),
      pb_verkle_state_root = list_opt (split_all (field 19 fs)),
      pb_binary_state_root = list_opt (split_all (field 20 fs)),
      pb_withdrawals = map unwire_withdrawal (split_all (field 21 fs)),
      pb_ommer_headers = map unwire_ommer_header (split_all (field 22 fs))\<rparr>)"

lemma unwire_wire_block [simp]: "unwire_block (wire_block m) = m"
  by (cases m) (simp add: unwire_block_def wire_block_def comp_def option.map_ident Let_def)

definition wire_prost :: prost where
  "wire_prost = \<lparr>prost_encode = wire_block, prost_decode = (\<lambda>bs. Inr (unwire_block bs))\<rparr>"

interpretation wire: prost_crate wire_prost
  by unfold_locales (simp add: wire_prost_def)

interpretation memdb: rocks_block_db mem_rocksdb mem_view "fold mem_op_view" "\<lambda>db. mem_fault db = None" rev wire_prost
  by unfold_locales (rule order_only_rev)

abbreviation mem_blockdb :: "(mem_db rocks_db, mem_op list kv_batch_wrapper) blockdb" where
  "mem_blockdb \<equiv> rocks_blockdb mem_rocksdb rev wire_prost"

end
