(* ===== verification/Rpc.thy ===== *)
theory Rpc
  imports Wire_Instance
begin

section \<open>The gRPC service: server, client and authentication\<close>

text \<open>
  blockservice/src/grpc: the handlers of \<open>RpcServer\<close>, the requests that
  \<open>RpcClient\<close> makes, and the token check between them. The handlers are functions of a
  \<open>BlockDb\<close> (the dictionary \<open>D\<close> and a state of it). The stub generated by tonic and
  the connection are not part of the repository: a \<open>block_rpc\<close> value is what the client
  holds, a function from requests to responses; \<open>block_rpc_server\<close> is the one that a
  served database answers with. A streamed response is the list of messages sent to a receiver
  that takes all of them. Conversion of tokens to and from header values by tonic is the
  parameter \<open>api\<close>. Log lines on the server's console are not modelled.
\<close>

subsection \<open>Messages\<close>

datatype auth_failure = InvalidAuthToken | MissingAuthToken

datatype status =
    InvalidArgument
  | Internal error
  | Unauthenticated auth_failure
  | Unavailable string

record proto_block_range =
  pbr_from :: u64
  pbr_to :: u64

definition proto_of_range :: "block_range \<Rightarrow> proto_block_range" where
  "proto_of_range r = \<lparr>pbr_from = range_start r, pbr_to = range_end r\<rparr>"

definition range_of_proto :: "proto_block_range \<Rightarrow> block_range" where
  "range_of_proto r = BlockRange (pbr_from r) (pbr_to r)"

record block_range_request =
  brq_chain_id :: u64
  brq_from :: u64
  brq_to :: u64

record encoded_block =
  eb_data :: bytes
  eb_number :: u64

record chain_listing =
  cl_chain_id :: u64
  cl_block_ranges :: "proto_block_range list"
  cl_has_rules_update_heights :: bool
  cl_has_corrections :: bool

record metadata =
  md_rules_update_heights :: "bytes option"
  md_corrections :: "bytes option"

record 'm request =
  req_authorization :: "string option"
  req_message :: 'm

record block_rpc =
  rpc_get_block_range :: "block_range_request request \<Rightarrow> status + (status + encoded_block) list"
  rpc_list :: "u64 option request \<Rightarrow> status + chain_listing list"
  rpc_get_metadata :: "u64 request \<Rightarrow> status + metadata"

subsection \<open>Authentication\<close>

record metadata_api =
  mv_from_str :: "string \<Rightarrow> string + string"
  mv_to_str :: "string \<Rightarrow> string + string"

datatype token_error = NoBearerPrefix | InvisibleCharacters

definition token_to_metadata_value :: "metadata_api \<Rightarrow> string \<Rightarrow> string + string" where
  "token_to_metadata_value api token = mv_from_str api (''Bearer '' @ token)"

definition extract_user_token :: "metadata_api \<Rightarrow> string \<Rightarrow> token_error + string" where
  "extract_user_token api value =
     (case mv_to_str api value of
        Inr token \<Rightarrow>
          if take 7 token = ''Bearer '' then Inr (drop 7 token) else Inl NoBearerPrefix
      | Inl _ \<Rightarrow> Inl InvisibleCharacters)"

definition check_token :: "string option \<Rightarrow> 'm request \<Rightarrow> status + 'm request" where
  "check_token auth_token req =
     (case auth_token of
        Some token \<Rightarrow>
          (case req_authorization req of
             Some t \<Rightarrow> if t = token then Inr req else Inl (Unauthenticated InvalidAuthToken)
           | None \<Rightarrow> Inl (Unauthenticated MissingAuthToken))
      | None \<Rightarrow> Inr req)"

subsection \<open>Server\<close>

fun send_blocks :: "u64 \<Rightarrow> (error + u64 \<times> bytes) list \<Rightarrow> (status + encoded_block) list" where
  "send_blocks to [] = []"
| "send_blocks to (Inr (number, block) # rest) =
     (if number > to then []
      else Inr \<lparr>eb_data = block, eb_number = number\<rparr> # send_blocks to rest)"
| "send_blocks to (Inl e # rest) = [Inl (Internal e)]"

definition server_get_block_range ::
  "('d, 'b) blockdb \<Rightarrow> 'd \<Rightarrow> block_range_request \<Rightarrow> status + (status + encoded_block) list" where
  "server_get_block_range D d req =
     (if brq_from req > brq_to req then Inl InvalidArgument
      else Inr (send_blocks (brq_to req) (db_iterate_bytes D d (brq_chain_id req) (brq_from req) Forward)))"

definition server_chain_listing :: "('d, 'b) blockdb \<Rightarrow> 'd \<Rightarrow> u64 \<Rightarrow> error + chain_listing" where
  "server_chain_listing D d chain_id =
     res_bind (db_get_ranges_of_chain_id D d chain_id) (\<lambda>ranges.
     res_bind (db_get_rules_update_heights D d chain_id) (\<lambda>rules_update_heights.
     res_bind (db_get_corrections D d chain_id) (\<lambda>corrections.
       Inr \<lparr>cl_chain_id = chain_id, cl_block_ranges = map proto_of_range ranges,
            cl_has_rules_update_heights = rules_update_heights \<noteq> None,
            cl_has_corrections = corrections \<noteq> None\<rparr>)))"

definition server_list :: "('d, 'b) blockdb \<Rightarrow> 'd \<Rightarrow> u64 option \<Rightarrow> status + chain_listing list" where
  "server_list D d chain_id =
     map_err Internal
       (res_bind (case chain_id of Some cid \<Rightarrow> Inr [cid] | None \<Rightarrow> db_get_chain_ids D d) (\<lambda>chain_ids.
          collect_results (map (server_chain_listing D d) chain_ids)))"

definition server_get_metadata :: "('d, 'b) blockdb \<Rightarrow> 'd \<Rightarrow> u64 \<Rightarrow> status + metadata" where
  "server_get_metadata D d chain_id =
     res_bind (map_err Internal (db_get_rules_update_heights D d chain_id)) (\<lambda>rules_update_heights.
     res_bind (map_err Internal (db_get_corrections D d chain_id)) (\<lambda>corrections.
       Inr \<lparr>md_rules_update_heights = rules_update_heights, md_corrections = corrections\<rparr>))"

definition block_rpc_server :: "('d, 'b) blockdb \<Rightarrow> 'd \<Rightarrow> string option \<Rightarrow> block_rpc" where
  "block_rpc_server D d auth_token =
     \<lparr>rpc_get_block_range = (\<lambda>req. res_bind (check_token auth_token req) (\<lambda>r. server_get_block_range D d (req_message r))),
      rpc_list = (\<lambda>req. res_bind (check_token auth_token req) (\<lambda>r. server_list D d (req_message r))),
      rpc_get_metadata = (\<lambda>req. res_bind (check_token auth_token req) (\<lambda>r. server_get_metadata D d (req_message r)))\<rparr>"

subsection \<open>Client\<close>

record rpc_client =
  rc_client :: block_rpc
  rc_auth_token :: "string option"

definition client_get_block_range ::
  "rpc_client \<Rightarrow> u64 \<Rightarrow> u64 \<Rightarrow> u64 \<Rightarrow> status + (status + encoded_block) list" where
  "client_get_block_range client chain_id from to =
     rpc_get_block_range (rc_client client)
       \<lparr>req_authorization = rc_auth_token client,
        req_message = \<lparr>brq_chain_id = chain_id, brq_from = from, brq_to = to\<rparr>\<rparr>"

definition client_list :: "rpc_client \<Rightarrow> u64 option \<Rightarrow> status + chain_listing list" where
  "client_list client chain_id =
     rpc_list (rc_client client) \<lparr>req_authorization = rc_auth_token client, req_message = chain_id\<rparr>"

definition client_get_metadata :: "rpc_client \<Rightarrow> u64 \<Rightarrow> status + metadata" where
  "client_get_metadata client chain_id =
     rpc_get_metadata (rc_client client) \<lparr>req_authorization = rc_auth_token client, req_message = chain_id\<rparr>"

subsection \<open>Lemmas\<close>

lemma range_of_proto_of_range [simp]: "range_of_proto (proto_of_range r) = r"
  by (cases r) (simp add: range_of_proto_def proto_of_range_def)

lemma check_token_Inr: "check_token token req = Inr r \<longleftrightarrow> r = req \<and> (token = None \<or> req_authorization req = token)"
  by (auto simp: check_token_def split: option.splits)

definition encoded :: "u64 \<times> bytes \<Rightarrow> encoded_block" where
  "encoded x = \<lparr>eb_data = snd x, eb_number = fst x\<rparr>"

lemma send_blocks_map:
  "send_blocks to (map Inr xs) = map (\<lambda>x. Inr (encoded x)) (takeWhile (\<lambda>x. fst x \<le> to) xs)"
  by (induction xs) (auto simp: encoded_def not_less)

lemma send_blocks_error:
  "send_blocks to (map Inr xs @ [Inl e]) =
     (if list_all (\<lambda>x. fst x \<le> to) xs then map (\<lambda>x. Inr (encoded x)) xs @ [Inl (Internal e)]
      else map (\<lambda>x. Inr (encoded x)) (takeWhile (\<lambda>x. fst x \<le> to) xs))"
  by (induction xs) (auto simp: encoded_def not_less)

lemma take_takeWhile: "list_all P (take k xs) \<Longrightarrow> take k (takeWhile P xs) = take k xs"
  by (induction xs arbitrary: k) (auto simp: take_Cons split: nat.splits)

lemma send_blocks_stream:
  assumes "stream_of xs rs"
  shows "stream_of (map encoded (takeWhile (\<lambda>x. fst x \<le> to) xs)) (send_blocks to rs)"
proof -
  from assms consider "rs = map Inr xs" | k e where "rs = map Inr (take k xs) @ [Inl e]"
    by (auto simp: stream_of_def)
  then show ?thesis
  proof cases
    case 1
    then show ?thesis by (simp add: stream_of_def send_blocks_map comp_def)
  next
    case 2
    show ?thesis
    proof (cases "list_all (\<lambda>x. fst x \<le> to) (take k xs)")
      case True
      then have "send_blocks to rs = map Inr (take k (map encoded (takeWhile (\<lambda>x. fst x \<le> to) xs))) @ [Inl (Internal e)]"
        using 2 by (simp add: send_blocks_error take_map take_takeWhile comp_def)
      then show ?thesis unfolding stream_of_def by blast
    next
      case False
      then obtain x where "x \<in> set (take k xs)" "\<not> fst x \<le> to" by (auto simp: list_all_iff)
      from takeWhile_append1 [of x "take k xs" "\<lambda>x. fst x \<le> to" "drop k xs", OF this]
      have "takeWhile (\<lambda>x. fst x \<le> to) (take k xs) = takeWhile (\<lambda>x. fst x \<le> to) xs" by simp
      then show ?thesis using 2 False by (simp add: stream_of_def send_blocks_error comp_def)
    qed
  qed
qed

end
