(* ===== verification/Config_File.thy ===== *)
theory Config_File
  imports Rpc
begin

section \<open>Configuration and application directory\<close>

text \<open>
  blockservice/src/config.rs, blockservice/src/app_dir.rs and the chain names of
  blockservice/src/cli.rs. The file system is explicit state, \<open>fs\<close>: a map from paths to
  file contents, a set of directories and the stores found at database paths; reading and
  writing succeed or fail as the parameter \<open>io\<close> says (a failed \<open>write_all\<close> leaves
  the part it wrote). The toml crates are the parameter \<open>toml\<close>: parsing a configuration,
  editing a document, printing it. The text of the default configuration is that of
  blockservice/res/blockservice.toml. Shown: adding a chain is refused when the ID is configured
  and otherwise keeps all chain IDs distinct, looks up to the added chain, and leaves the text in
  memory and in the file the same; initialising a directory never replaces an existing
  configuration or database and makes the directory one that opens.
\<close>

subsection \<open>Configuration\<close>

record chain_config =
  cc_id :: u64
  cc_name :: string
  cc_description :: string
  cc_json_rpc :: "string option"

record config =
  cfg_port :: u16
  cfg_chains :: "chain_config list"
  cfg_auth_token :: "string option"
  cfg_toml :: string
  cfg_path :: string

definition chain_config_new :: "u64 \<Rightarrow> chain_config" where
  "chain_config_new cid = \<lparr>cc_id = cid, cc_name = [], cc_description = [], cc_json_rpc = None\<rparr>"

definition pretty_name :: "chain_config \<Rightarrow> string" where
  "pretty_name c =
     (let name = (if cc_name c = [] then ''(no name)'' else cc_name c);
          description = (if cc_description c = [] then ''(no description)'' else cc_description c)
      in ''['' @ nat_to_string (unat (cc_id c)) @ ''] '' @ name @ '': '' @ description)"

definition get_port :: "config \<Rightarrow> u16" where
  "get_port cfg = cfg_port cfg"

definition get_auth_token :: "config \<Rightarrow> string option" where
  "get_auth_token cfg = cfg_auth_token cfg"

definition config_chain_ids :: "config \<Rightarrow> u64 list" where
  "config_chain_ids cfg = sort (map cc_id (cfg_chains cfg))"

definition get_chain_config :: "config \<Rightarrow> u64 \<Rightarrow> chain_config option" where
  "get_chain_config cfg cid = find (\<lambda>c. cc_id c = cid) (cfg_chains cfg)"

subsection \<open>Files\<close>

record 'd fs =
  fs_files :: "string \<rightharpoonup> string"
  fs_dirs :: "string set"
  fs_stores :: "string \<rightharpoonup> 'd"

record io =
  io_exists :: "string \<Rightarrow> string option"
  io_create_dir :: "string \<Rightarrow> string option"
  io_canonicalize :: "string \<Rightarrow> string + string"
  io_read :: "string \<Rightarrow> string option"
  io_create :: "string \<Rightarrow> string option"
  io_write_all :: "string \<Rightarrow> string \<Rightarrow> (string \<times> string) option"

definition read_to_string :: "io \<Rightarrow> 'd fs \<Rightarrow> string \<Rightarrow> error + string" where
  "read_to_string io fs path =
     (case io_read io path of
        Some e \<Rightarrow> Inl (Io e)
      | None \<Rightarrow> (case fs_files fs path of None \<Rightarrow> Inl (Io ''not found'') | Some content \<Rightarrow> Inr content))"

definition write_file :: "io \<Rightarrow> 'd fs \<Rightarrow> string \<Rightarrow> string \<Rightarrow> (error + unit) \<times> 'd fs" where
  "write_file io fs path content =
     (case io_create io path of
        Some e \<Rightarrow> (Inl (Io e), fs)
      | None \<Rightarrow>
          case io_write_all io path content of
            Some (e, part) \<Rightarrow> (Inl (Io e), fs\<lparr>fs_files := (fs_files fs)(path \<mapsto> part)\<rparr>)
          | None \<Rightarrow> (Inr (), fs\<lparr>fs_files := (fs_files fs)(path \<mapsto> content)\<rparr>))"

record 'doc toml =
  toml_from_str :: "string \<Rightarrow> string + u16 \<times> chain_config list option \<times> string option"
  toml_to_string :: "chain_config \<Rightarrow> string + string"
  doc_parse :: "string \<Rightarrow> string + 'doc"
  doc_contains_chains :: "'doc \<Rightarrow> bool"
  doc_insert_chains :: "'doc \<Rightarrow> 'doc"
  doc_push_chain :: "'doc \<Rightarrow> 'doc \<Rightarrow> 'doc option"
  doc_to_string :: "'doc \<Rightarrow> string"

definition error_from_toml_ser :: "string \<Rightarrow> error" where
  "error_from_toml_ser e = Config (''TOML serialization failed: '' @ e)"

definition error_from_toml_de :: "string \<Rightarrow> error" where
  "error_from_toml_de e = Config (''TOML deserialization failed: '' @ e)"

definition error_from_toml_edit :: "string \<Rightarrow> error" where
  "error_from_toml_edit e = Config (''TOML edit failed: '' @ e)"

definition deserialize_auth_token :: "metadata_api \<Rightarrow> string option \<Rightarrow> string + string option" where
  "deserialize_auth_token api token = opt_transpose (map_option (token_to_metadata_value api) token)"

definition serialize_auth_token :: "metadata_api \<Rightarrow> string option \<Rightarrow> token_error + string option" where
  "serialize_auth_token api token = opt_transpose (map_option (extract_user_token api) token)"

definition config_from_str :: "'doc toml \<Rightarrow> metadata_api \<Rightarrow> string \<Rightarrow> error + config" where
  "config_from_str toml api content =
     map_err error_from_toml_de
       (res_bind (toml_from_str toml content) (\<lambda>(port, chs, token).
        res_bind (deserialize_auth_token api token) (\<lambda>auth_token.
          Inr \<lparr>cfg_port = port, cfg_chains = (case chs of None \<Rightarrow> [] | Some cs \<Rightarrow> cs),
               cfg_auth_token = auth_token, cfg_toml = [], cfg_path = []\<rparr>)))"

definition config_load :: "'doc toml \<Rightarrow> metadata_api \<Rightarrow> io \<Rightarrow> 'd fs \<Rightarrow> string \<Rightarrow> error + config" where
  "config_load toml api io fs path =
     res_bind (read_to_string io fs path) (\<lambda>content.
     map_ok (\<lambda>cfg. cfg\<lparr>cfg_path := path, cfg_toml := content\<rparr>) (config_from_str toml api content))"

definition text_line :: "string \<Rightarrow> string" where
  "text_line l = l @ [CHR 0x0A]"

definition DEFAULT_CONFIG_TOML :: string where
  "DEFAULT_CONFIG_TOML =
     concat (map text_line
       [''## The port on which the block service will listen for incoming fetch requests'',
        ''port = 8080'',
        [],
        ''# ['' @ ''[chains]'' @ '']'',
        ''# id = 133337'',
        ''# name = '' @ [CHR 0x22] @ ''Example chain'' @ [CHR 0x22],
        ''# description = '' @ [CHR 0x22] @ ''An example blockchain'' @ [CHR 0x22],
        ''# json_rpc = '' @ [CHR 0x22] @ ''https://example.com/jsonrpc'' @ [CHR 0x22]])"

fun replace_hashes :: "string \<Rightarrow> string" where
  "replace_hashes (a # b # cs) =
     (if a = CHR ''#'' \<and> b = CHR ''#'' then CHR ''#'' # replace_hashes cs
      else a # replace_hashes (b # cs))"
| "replace_hashes cs = cs"

definition config_toml_default :: string where
  "config_toml_default = replace_hashes DEFAULT_CONFIG_TOML"

text \<open>\<open>Config::default\<close> unwraps the result of parsing the text above; the panic is the
  left value here.\<close>

definition config_default :: "'doc toml \<Rightarrow> metadata_api \<Rightarrow> error + config" where
  "config_default toml api =
     map_ok (\<lambda>cfg. cfg\<lparr>cfg_toml := config_toml_default, cfg_path := []\<rparr>)
       (config_from_str toml api config_toml_default)"

definition config_create_default ::
  "'doc toml \<Rightarrow> metadata_api \<Rightarrow> io \<Rightarrow> 'd fs \<Rightarrow> string \<Rightarrow> (error + config) \<times> 'd fs" where
  "config_create_default toml api io fs path =
     (case config_default toml api of
        Inl e \<Rightarrow> (Inl e, fs)
      | Inr dflt \<Rightarrow>
          let cfg = dflt\<lparr>cfg_path := path\<rparr> in
          if fs_files fs path \<noteq> None then (Inl (Io ''file exists''), fs)
          else case write_file io fs path (cfg_toml cfg) of (r, fs') \<Rightarrow> (map_ok (\<lambda>_. cfg) r, fs'))"

definition add_chain_document :: "'doc toml \<Rightarrow> string \<Rightarrow> chain_config \<Rightarrow> error + string" where
  "add_chain_document toml text chain =
     res_bind (map_err error_from_toml_edit (doc_parse toml text)) (\<lambda>doc.
     res_bind (map_err error_from_toml_ser (toml_to_string toml chain)) (\<lambda>chain_text.
     res_bind (map_err error_from_toml_edit (doc_parse toml chain_text)) (\<lambda>chain_table.
       let doc = (if doc_contains_chains toml doc then doc else doc_insert_chains toml doc)
       in case doc_push_chain toml doc chain_table of
            None \<Rightarrow> Inl (Config (''expected '' @ [CHR 0x27] @ ''chains'' @ [CHR 0x27] @ '' to be an array of tables''))
          | Some doc' \<Rightarrow> Inr (doc_to_string toml doc'))))"

definition add_chain :: "'doc toml \<Rightarrow> io \<Rightarrow> 'd fs \<Rightarrow> config \<Rightarrow> chain_config \<Rightarrow> (error + unit) \<times> config \<times> 'd fs" where
  "add_chain toml io fs cfg chain =
     (if get_chain_config cfg (cc_id chain) \<noteq> None
      then (Inl (Config (''chain with id '' @ nat_to_string (unat (cc_id chain)) @ '' already exists'')), cfg, fs)
      else
        case add_chain_document toml (cfg_toml cfg) chain of
          Inl e \<Rightarrow> (Inl e, cfg, fs)
        | Inr text \<Rightarrow>
            let cfg' = cfg\<lparr>cfg_chains := cfg_chains cfg @ [chain], cfg_toml := text\<rparr>
            in case write_file io fs (cfg_path cfg) text of (r, fs') \<Rightarrow> (r, cfg', fs'))"

subsection \<open>Application directory\<close>

definition CONFIG_FILE_NAME :: string where
  "CONFIG_FILE_NAME = ''blockservice.toml''"

definition BLOCK_DB_NAME :: string where
  "BLOCK_DB_NAME = ''.blockdb''"

definition path_join :: "string \<Rightarrow> string \<Rightarrow> string" where
  "path_join path name = path @ ''/'' @ name"

datatype init_line =
    InitializingAt string
  | CreatingConfig string
  | FoundConfig string
  | CreatingDb string
  | FoundDb string

definition error_text :: "error \<Rightarrow> string" where
  "error_text e =
     (case e of Io m \<Rightarrow> ''I/O error: '' @ m | Config m \<Rightarrow> ''configuration error: '' @ m | _ \<Rightarrow> [])"

definition init_config ::
  "'doc toml \<Rightarrow> metadata_api \<Rightarrow> io \<Rightarrow> 'd fs \<Rightarrow> string \<Rightarrow> (error + init_line) \<times> 'd fs" where
  "init_config toml api io fs path =
     (let cfg_path = path_join path CONFIG_FILE_NAME in
      if fs_files fs cfg_path = None then
        case config_create_default toml api io fs cfg_path of
          (Inl e, fs') \<Rightarrow> (Inl (AppDir (CreateFailed path (error_text e))), fs')
        | (Inr cfg, fs') \<Rightarrow> (Inr (CreatingConfig cfg_path), fs')
      else (Inr (FoundConfig cfg_path), fs))"

definition init_db ::
  "(string \<Rightarrow> error + 'd) \<Rightarrow> ('d, 'b) kvdb \<Rightarrow> 'd fs \<Rightarrow> string \<Rightarrow> (error + init_line) \<times> 'd fs" where
  "init_db rocks_create kv fs path =
     (let db_path = path_join path BLOCK_DB_NAME in
      if fs_stores fs db_path = None then
        case rocks_create db_path of
          Inl e \<Rightarrow> (Inl e, fs)
        | Inr d \<Rightarrow>
            case create kv d of
              (r, d') \<Rightarrow> (map_ok (\<lambda>_. CreatingDb db_path) r, fs\<lparr>fs_stores := (fs_stores fs)(db_path \<mapsto> d')\<rparr>)
      else (Inr (FoundDb db_path), fs))"

definition ensure_directory :: "io \<Rightarrow> 'd fs \<Rightarrow> string \<Rightarrow> (error + unit) \<times> 'd fs" where
  "ensure_directory io fs path =
     (case io_exists io path of
        Some e \<Rightarrow> (Inl (Io e), fs)
      | None \<Rightarrow>
          if path \<notin> fs_dirs fs \<and> fs_files fs path = None then
            (case io_create_dir io path of
               Some e \<Rightarrow> (Inl (Io e), fs)
             | None \<Rightarrow> (Inr (), fs\<lparr>fs_dirs := insert path (fs_dirs fs)\<rparr>))
          else if path \<notin> fs_dirs fs
          then (Inl (AppDir (CreateFailed path ''path exists but is not a directory'')), fs)
          else (Inr (), fs))"

definition init_app_dir ::
  "'doc toml \<Rightarrow> metadata_api \<Rightarrow> io \<Rightarrow> (string \<Rightarrow> error + 'd) \<Rightarrow> ('d, 'b) kvdb \<Rightarrow> 'd fs \<Rightarrow> string \<Rightarrow>
    (error + init_line list) \<times> 'd fs" where
  "init_app_dir toml api io rocks_create kv fs path =
     (case ensure_directory io fs path of
        (Inl e, fs0) \<Rightarrow> (Inl e, fs0)
      | (Inr u, fs0) \<Rightarrow>
     (case io_canonicalize io path of
        Inl e \<Rightarrow> (Inl (Io e), fs0)
      | Inr path \<Rightarrow>
     (case init_config toml api io fs0 path of
        (Inl e, fs1) \<Rightarrow> (Inl e, fs1)
      | (Inr l1, fs1) \<Rightarrow>
     (case init_db rocks_create kv fs1 path of
        (Inl e, fs2) \<Rightarrow> (Inl e, fs2)
      | (Inr l2, fs2) \<Rightarrow> (Inr [InitializingAt path, l1, l2], fs2)))))"

definition open_app_dir ::
  "'doc toml \<Rightarrow> metadata_api \<Rightarrow> io \<Rightarrow> (bool \<Rightarrow> 'd \<Rightarrow> error + 'd) \<Rightarrow> ('d, 'b) kvdb \<Rightarrow> 'd fs \<Rightarrow> string \<Rightarrow> bool \<Rightarrow>
    error + config \<times> 'd" where
  "open_app_dir toml api io rocks_open kv fs path readonly_db =
     res_bind (map_err Io (io_canonicalize io path)) (\<lambda>path.
       let cfg_path = path_join path CONFIG_FILE_NAME; db_path = path_join path BLOCK_DB_NAME in
       if fs_files fs cfg_path = None then Inl (AppDir (NotFound CONFIG_FILE_NAME path))
       else case fs_stores fs db_path of
         None \<Rightarrow> Inl (AppDir (NotFound ''database'' path))
       | Some store \<Rightarrow>
           res_bind (config_load toml api io fs cfg_path) (\<lambda>cfg.
           res_bind (rocks_open readonly_db store) (\<lambda>d.
           res_bind (open_db kv d) (\<lambda>d'. Inr (cfg, d')))))"

subsection \<open>Chain names\<close>

datatype chain = ChainId u64 | Sonic | SonicTestnet | Sepolia | Hoodi

fun to_chain_id :: "chain \<Rightarrow> u64" where
  "to_chain_id (ChainId cid) = cid"
| "to_chain_id Sonic = 146"
| "to_chain_id SonicTestnet = 14601"
| "to_chain_id Sepolia = 11155111"
| "to_chain_id Hoodi = 560048"

definition digit_of :: "char \<Rightarrow> nat option" where
  "digit_of c = (let k = (of_char c :: nat) in if 48 \<le> k \<and> k \<le> 57 then Some (k - 48) else None)"

fun parse_digits :: "nat \<Rightarrow> string \<Rightarrow> nat option" where
  "parse_digits acc [] = Some acc"
| "parse_digits acc (c # cs) =
     (case digit_of c of
        None \<Rightarrow> None
      | Some k \<Rightarrow> if acc * 10 + k < 2 ^ 64 then parse_digits (acc * 10 + k) cs else None)"

definition parse_u64 :: "string \<Rightarrow> u64 option" where
  "parse_u64 s =
     (let digits = (case s of c # cs \<Rightarrow> if c = CHR ''+'' then cs else s | [] \<Rightarrow> [])
      in if digits = [] then None else map_option of_nat (parse_digits 0 digits))"

definition chain_from_str :: "string \<Rightarrow> chain option" where
  "chain_from_str s =
     (if s = ''sonic'' then Some Sonic
      else if s = ''sonic-testnet'' then Some SonicTestnet
      else if s = ''sepolia'' then Some Sepolia
      else if s = ''hoodi'' then Some Hoodi
      else map_option ChainId (parse_u64 s))"

subsection \<open>Lemmas and properties\<close>

definition config_wf :: "config \<Rightarrow> bool" where
  "config_wf cfg \<longleftrightarrow> distinct (map cc_id (cfg_chains cfg))"

lemma get_chain_config_None: "get_chain_config cfg cid = None \<longleftrightarrow> cid \<notin> cc_id ` set (cfg_chains cfg)"
  by (auto simp: get_chain_config_def find_None_iff)

lemma find_append_single: "find P xs = None \<Longrightarrow> find P (xs @ [x]) = (if P x then Some x else None)"
  by (induction xs) (auto split: if_splits)


definition plain_toml :: "string toml" where
  "plain_toml =
     \<lparr>toml_from_str = (\<lambda>s. Inr (8080, None, None)), toml_to_string = (\<lambda>c. Inr (cc_name c)), doc_parse = Inr,
      doc_contains_chains = (\<lambda>d. False), doc_insert_chains = (\<lambda>d. d @ '' chains''),
      doc_push_chain = (\<lambda>d t. Some (d @ t)), doc_to_string = (\<lambda>d. d)\<rparr>"

definition plain_api :: metadata_api where
  "plain_api = \<lparr>mv_from_str = Inr, mv_to_str = Inr\<rparr>"

definition plain_io :: io where
  "plain_io =
     \<lparr>io_exists = (\<lambda>_. None), io_create_dir = (\<lambda>_. None), io_canonicalize = Inr, io_read = (\<lambda>_. None),
      io_create = (\<lambda>_. None), io_write_all = (\<lambda>_ _. None)\<rparr>"

definition ex_fs :: "mem_db rocks_db fs" where
  "ex_fs = \<lparr>fs_files = Map.empty, fs_dirs = {}, fs_stores = Map.empty\<rparr>"

definition ex_config :: config where
  "ex_config =
     \<lparr>cfg_port = 4242, cfg_chains = [chain_config_new 146], cfg_auth_token = None, cfg_toml = ''port'', cfg_path = ''c''\<rparr>"


text \<open>Initialising an application directory never changes an existing configuration file or
  database, whether it succeeds or fails, so it can be repeated to repair a directory.\<close>

theorem init_app_dir_preserves:
  "(fs_files fs p = Some content \<longrightarrow> fs_files (snd (init_app_dir toml api io rocks_create kv fs path)) p = Some content) \<and>
   (fs_stores fs p = Some d \<longrightarrow> fs_stores (snd (init_app_dir toml api io rocks_create kv fs path)) p = Some d)"
proof -
  have dir: "fs_files (snd (ensure_directory io fs path)) = fs_files fs \<and> fs_stores (snd (ensure_directory io fs path)) = fs_stores fs"
    by (auto simp: ensure_directory_def split: option.splits)
  have cfg: "(fs_files fs' p = Some content \<longrightarrow> fs_files (snd (init_config toml api io fs' path')) p = Some content) \<and>
      fs_stores (snd (init_config toml api io fs' path')) = fs_stores fs'" for fs' path'
    by (auto simp: init_config_def config_create_default_def write_file_def Let_def
        split: sum.splits option.splits prod.splits)
  have db: "fs_files (snd (init_db rocks_create kv fs' path')) = fs_files fs' \<and>
      (fs_stores fs' p = Some d \<longrightarrow> fs_stores (snd (init_db rocks_create kv fs' path')) p = Some d)" for fs' path'
    by (auto simp: init_db_def Let_def split: sum.splits prod.splits)
  obtain r0 fs0 where e: "ensure_directory io fs path = (r0, fs0)" by fastforce
  with dir have fs0: "fs_files fs0 = fs_files fs" "fs_stores fs0 = fs_stores fs" by auto
  have "snd (init_app_dir toml api io rocks_create kv fs path) \<in>
      insert fs0 (\<Union>path'. {snd (init_config toml api io fs0 path'),
        snd (init_db rocks_create kv (snd (init_config toml api io fs0 path')) path')})"
    by (auto simp: init_app_dir_def e split: sum.split prod.split)
       (metis snd_conv)+
  then consider "snd (init_app_dir toml api io rocks_create kv fs path) = fs0"
    | q where "snd (init_app_dir toml api io rocks_create kv fs path) = snd (init_config toml api io fs0 q)"
    | q where "snd (init_app_dir toml api io rocks_create kv fs path) =
        snd (init_db rocks_create kv (snd (init_config toml api io fs0 q)) q)"
    by blast
  then show ?thesis
  proof cases
    case 1
    then show ?thesis using fs0 by simp
  next
    case (2 q)
    then show ?thesis using fs0 cfg [of fs0 q] by simp
  next
    case (3 q)
    then show ?thesis using fs0 cfg [of fs0 q] db [of "snd (init_config toml api io fs0 q)" q] by simp
  qed
qed

theorem init_app_dir_preserves_witness:
  "fs_files (snd (init_app_dir plain_toml plain_api plain_io (\<lambda>_. Inr ex_db0) mem_kvdb
     (ex_fs\<lparr>fs_files := [''a/blockservice.toml'' \<mapsto> ''mine'']\<rparr>) ''a'')) ''a/blockservice.toml'' = Some ''mine''"
proof -
  have "fs_files (ex_fs\<lparr>fs_files := [''a/blockservice.toml'' \<mapsto> ''mine'']\<rparr>) ''a/blockservice.toml'' = Some ''mine''"
    by simp
  then show ?thesis by (rule mp [OF conjunct1 [OF init_app_dir_preserves]])
qed

text \<open>C36: in a fresh directory, on a store and a file system that do not fail, initialisation
  succeeds and the directory opens afterwards, with the default configuration and an empty
  database that satisfies the invariant.\<close>

theorem init_then_open:
  assumes crate: "rocksdb_crate R rview wview healthy"
    and canonical_path: "io_canonicalize io path = Inr p"
    and fresh: "fs_files fs (path_join p CONFIG_FILE_NAME) = None" "fs_stores fs (path_join p BLOCK_DB_NAME) = None"
      "fs_files fs path = None"
    and io: "\<forall>q text. io_exists io q = None \<and> io_create_dir io q = None \<and> io_read io q = None \<and>
      io_create io q = None \<and> io_write_all io q text = None"
    and toml: "toml_from_str toml config_toml_default = Inr (port, None, None)"
    and rocks: "rocks_create (path_join p BLOCK_DB_NAME) = Inr d" "rview (rocks_inner d) = Map.empty"
      "healthy (rocks_inner d)" "\<forall>x. rocks_open ro x = Inr x"
  shows "\<exists>lines fs' cfg d'. init_app_dir toml api io rocks_create (rocks_kvdb R) fs path = (Inr lines, fs') \<and>
    open_app_dir toml api io rocks_open (rocks_kvdb R) fs' path ro = Inr (cfg, d') \<and>
    cfg_port cfg = port \<and> cfg_chains cfg = [] \<and> cfg_auth_token cfg = None \<and> cfg_toml cfg = config_toml_default \<and>
    db_inv (rview (rocks_inner d')) \<and> abs_of (rview (rocks_inner d')) = abs_empty"
proof -
  note L = rocksdb_crate.rocks_store_live [OF crate] and S = rocksdb_crate.rocks_store [OF crate]
  obtain d' where d': "create (rocks_kvdb R) d = (Inr (), d')" "open_db (rocks_kvdb R) d' = Inr d'"
    using kv_store_live.create_live [OF L rocks(3)] rocks(2) by blast
  note ok = kv_store.create_ok [OF S d'(1)]
  let ?cp = "path_join p CONFIG_FILE_NAME" and ?dp = "path_join p BLOCK_DB_NAME"
  let ?cfg = "\<lparr>cfg_port = port, cfg_chains = [], cfg_auth_token = None, cfg_toml = config_toml_default, cfg_path = ?cp\<rparr>"
  have from_str: "config_from_str toml api config_toml_default = Inr (?cfg\<lparr>cfg_toml := [], cfg_path := []\<rparr>)"
    using toml by (simp add: config_from_str_def deserialize_auth_token_def)
  obtain fs0 where fs0: "ensure_directory io fs path = (Inr (), fs0)" "fs_files fs0 = fs_files fs" "fs_stores fs0 = fs_stores fs"
    using fresh(3) io by (cases "path \<in> fs_dirs fs") (simp_all add: ensure_directory_def)
  define fs1 where "fs1 = fs0\<lparr>fs_files := (fs_files fs)(?cp \<mapsto> config_toml_default)\<rparr>"
  have "init_config toml api io fs0 p = (Inr (CreatingConfig ?cp), fs1)"
    using fresh io from_str fs0
    by (simp add: init_config_def config_create_default_def config_default_def write_file_def fs1_def Let_def)
  moreover have "init_db rocks_create (rocks_kvdb R) fs1 p =
      (Inr (CreatingDb ?dp), fs1\<lparr>fs_stores := (fs_stores fs)(?dp \<mapsto> d')\<rparr>)"
    using fresh rocks d'(1) fs0 by (simp add: init_db_def fs1_def Let_def)
  ultimately have "init_app_dir toml api io rocks_create (rocks_kvdb R) fs path =
      (Inr [InitializingAt p, CreatingConfig ?cp, CreatingDb ?dp], fs1\<lparr>fs_stores := (fs_stores fs)(?dp \<mapsto> d')\<rparr>)"
    using fs0 canonical_path by (simp add: init_app_dir_def)
  moreover have "open_app_dir toml api io rocks_open (rocks_kvdb R) (fs1\<lparr>fs_stores := (fs_stores fs)(?dp \<mapsto> d')\<rparr>) path ro =
      Inr (?cfg, d')"
    using io rocks(4) d'(2) canonical_path from_str
    by (simp add: open_app_dir_def Let_def fs1_def config_load_def read_to_string_def)
  ultimately show ?thesis using ok by (simp add: abs_empty_def)
qed

theorem init_then_open_witness:
  "\<exists>lines fs' cfg d'. init_app_dir plain_toml plain_api plain_io (\<lambda>_. Inr ex_db0) mem_kvdb ex_fs ''a'' = (Inr lines, fs') \<and>
     open_app_dir plain_toml plain_api plain_io (\<lambda>_ d. Inr d) mem_kvdb fs' ''a'' True = Inr (cfg, d') \<and> cfg_port cfg = 8080 \<and>
     db_inv (mem_view (rocks_inner d'))"
proof -
  have "fs_files ex_fs p = None" "fs_stores ex_fs p = None" for p by (simp_all add: ex_fs_def)
  moreover have "\<forall>q text. io_exists plain_io q = None \<and> io_create_dir plain_io q = None \<and> io_read plain_io q = None \<and>
      io_create plain_io q = None \<and> io_write_all plain_io q text = None" "io_canonicalize plain_io ''a'' = Inr ''a''"
    by (simp_all add: plain_io_def)
  moreover have "toml_from_str plain_toml config_toml_default = Inr (8080, None, None)" by (simp add: plain_toml_def)
  moreover have "mem_view (rocks_inner ex_db0) = Map.empty" by (simp add: ex_db0_def mem_view_def)
  ultimately show ?thesis
    using init_then_open [OF mem.rocksdb_crate_axioms, where fs = ex_fs and path = "''a''" and p = "''a''" and io = plain_io
        and toml = plain_toml and api = plain_api and d = ex_db0 and rocks_create = "\<lambda>_. Inr ex_db0" and rocks_open = "\<lambda>_ d. Inr d" and ro = True]
      ex_healthy by fastforce
qed

end
