(* ===== verification/Cmd_Fetch.thy ===== *)
theory Cmd_Fetch
  imports Config_File
begin

section \<open>Fetching blocks and metadata from another block service\<close>

text \<open>
  blockservice/src/cmd/fetch.rs and fetch_metadata.rs: which block ranges are missing locally,
  whether the remote service has them, and the loop that stores what it streams. A command is a
  function of the configuration and the database state that \<open>open_app_dir\<close> returned; it
  returns its result, with the line it prints as a value, and the new database state. Writing to
  the output and the progress bar are not modelled. \<open>connect\<close> stands for the connection
  that tonic makes.

  Shown in the locale \<open>block_store\<close>: a successful fetch stores exactly the missing blocks
  of the requested range, with the data that the remote streamed for these numbers, and changes
  nothing else; no fetch, successful or not, breaks the invariant. The bound of \<open>2^64\<close> on
  the length of a stream excludes streams that would run around the range of block numbers.
\<close>

subsection \<open>Commands\<close>

datatype cmd_error =
    DbErr error
  | RpcErr status
  | ConnectErr string
  | NoRangesFound u64
  | EmptyChainRange u64
  | UnsortedRanges u64
  | InvalidRange u64 u64
  | RangeNotAvailable u64 u64 u64
  | UnexpectedBlockNumber u64 u64
  | FewerBlocks u64 u64
  | ChainIdZero
  | FailedBundlesParse string
  | ReadErr string
  | JsonErr string

datatype fetch_line =
    NothingToFetch u64 u64 u64
  | Fetched nat nat

fun fetch_stream ::
  "('d, 'b) blockdb \<Rightarrow> 'd \<Rightarrow> u64 \<Rightarrow> (status + encoded_block) list \<Rightarrow> u64 \<Rightarrow> nat \<Rightarrow> (cmd_error + u64 \<times> nat) \<times> 'd" where
  "fetch_stream D d chain_id [] expected_block written = (Inr (expected_block, written), d)"
| "fetch_stream D d chain_id (Inl e # rest) expected_block written = (Inl (RpcErr e), d)"
| "fetch_stream D d chain_id (Inr block # rest) expected_block written =
     (if eb_number block \<noteq> expected_block
      then (Inl (UnexpectedBlockNumber expected_block (eb_number block)), d)
      else
        case db_put_bytes D d chain_id (eb_number block) (eb_data block) of
          (Inl e, d') \<Rightarrow> (Inl (DbErr e), d')
        | (Inr u, d') \<Rightarrow>
            fetch_stream D d' chain_id rest (expected_block + 1) (written + length (eb_data block)))"

fun fetch_ranges ::
  "('d, 'b) blockdb \<Rightarrow> rpc_client \<Rightarrow> u64 \<Rightarrow> 'd \<Rightarrow> block_range list \<Rightarrow> nat \<Rightarrow> nat \<Rightarrow> (cmd_error + nat \<times> nat) \<times> 'd" where
  "fetch_ranges D client chain_id d [] cnt written = (Inr (cnt, written), d)"
| "fetch_ranges D client chain_id d (r # ranges) cnt written =
     (let from = range_start r; to = range_end r in
      case client_get_block_range client chain_id from to of
        Inl e \<Rightarrow> (Inl (RpcErr e), d)
      | Inr stream \<Rightarrow>
          case fetch_stream D d chain_id stream from written of
            (Inl e, d') \<Rightarrow> (Inl e, d')
          | (Inr (expected_block, written'), d') \<Rightarrow>
              if expected_block - 1 \<noteq> to
              then (Inl (FewerBlocks (to - from + 1) (expected_block - from)), d')
              else fetch_ranges D client chain_id d' ranges (cnt + unat (to - from + 1)) written')"

definition cover_cmp :: "block_range \<Rightarrow> block_range \<Rightarrow> ordering" where
  "cover_cmp r remote =
     (if range_start r \<ge> range_start remote \<and> range_end r \<le> range_end remote then Equal
      else if range_end r < range_start remote then Greater
      else Less)"

definition find_uncovered :: "block_range list \<Rightarrow> block_range list \<Rightarrow> block_range option" where
  "find_uncovered ranges remote =
     find (\<lambda>r. case binary_search_by (cover_cmp r) remote of Inl _ \<Rightarrow> True | Inr _ \<Rightarrow> False) ranges"

definition remote_chain_ranges :: "u64 \<Rightarrow> chain_listing list \<Rightarrow> cmd_error + block_range list" where
  "remote_chain_ranges chain_id listings =
     (case find (\<lambda>l. cl_chain_id l = chain_id) listings of
        None \<Rightarrow> Inl (NoRangesFound chain_id)
      | Some l \<Rightarrow>
          let ranges = map range_of_proto (cl_block_ranges l) in
          if ranges = [] then Inl (EmptyChainRange chain_id)
          else if \<not> sorted (map range_key ranges) then Inl (UnsortedRanges chain_id)
          else Inr ranges)"

definition fetch_bounds :: "u64 option \<Rightarrow> u64 option \<Rightarrow> block_range list \<Rightarrow> block_range" where
  "fetch_bounds from_opt to_opt remote_ranges =
     BlockRange (case from_opt of None \<Rightarrow> 0 | Some n \<Rightarrow> n)
       (case to_opt of None \<Rightarrow> range_end (last remote_ranges) | Some n \<Rightarrow> n)"

definition fetch ::
  "('d, 'b) blockdb \<Rightarrow> (string \<Rightarrow> string option \<Rightarrow> string + rpc_client) \<Rightarrow> config \<Rightarrow> 'd \<Rightarrow>
    string \<Rightarrow> u64 \<Rightarrow> u64 option \<Rightarrow> u64 option \<Rightarrow> (cmd_error + fetch_line) \<times> 'd" where
  "fetch D connect cfg d url chain_id from_opt to_opt =
     (case connect url (get_auth_token cfg) of
        Inl e \<Rightarrow> (Inl (ConnectErr e), d)
      | Inr client \<Rightarrow>
     (case client_list client (Some chain_id) of
        Inl e \<Rightarrow> (Inl (RpcErr e), d)
      | Inr listings \<Rightarrow>
     (case remote_chain_ranges chain_id listings of
        Inl e \<Rightarrow> (Inl e, d)
      | Inr remote_ranges \<Rightarrow>
          let bounds = fetch_bounds from_opt to_opt remote_ranges; from = range_start bounds; to = range_end bounds
          in if from > to then (Inl (InvalidRange from to), d)
             else case db_get_ranges_of_chain_id D d chain_id of
               Inl e \<Rightarrow> (Inl (DbErr e), d)
             | Inr local_ranges \<Rightarrow>
                 let ranges_to_fetch = subtract_ranges bounds local_ranges in
                 if ranges_to_fetch = [] then (Inr (NothingToFetch chain_id from to), d)
                 else case find_uncovered ranges_to_fetch remote_ranges of
                   Some r \<Rightarrow> (Inl (RangeNotAvailable (range_start r) (range_end r) chain_id), d)
                 | None \<Rightarrow>
                     case fetch_ranges D client chain_id d ranges_to_fetch 0 0 of
                       (Inl e, d') \<Rightarrow> (Inl e, d')
                     | (Inr (cnt, written), d') \<Rightarrow> (Inr (Fetched cnt (written div (1024 * 1024))), d'))))"

definition put_optional ::
  "('d \<Rightarrow> u64 \<Rightarrow> bytes \<Rightarrow> (error + unit) \<times> 'd) \<Rightarrow> 'd \<Rightarrow> u64 \<Rightarrow> bytes option \<Rightarrow> (cmd_error + bool) \<times> 'd" where
  "put_optional put d chain_id data =
     (case data of
        None \<Rightarrow> (Inr False, d)
      | Some bs \<Rightarrow>
          (case put d chain_id bs of
             (Inl e, d') \<Rightarrow> (Inl (DbErr e), d')
           | (Inr u, d') \<Rightarrow> (Inr True, d')))"

definition fetch_metadata ::
  "('d, 'b) blockdb \<Rightarrow> (string \<Rightarrow> string option \<Rightarrow> string + rpc_client) \<Rightarrow> config \<Rightarrow> 'd \<Rightarrow>
    string \<Rightarrow> u64 \<Rightarrow> (cmd_error + bool \<times> bool) \<times> 'd" where
  "fetch_metadata D connect cfg d url chain_id =
     (case connect url (get_auth_token cfg) of
        Inl e \<Rightarrow> (Inl (ConnectErr e), d)
      | Inr client \<Rightarrow>
     (case client_get_metadata client chain_id of
        Inl e \<Rightarrow> (Inl (RpcErr e), d)
      | Inr metadata \<Rightarrow>
     (case put_optional (db_put_rules_update_heights D) d chain_id (md_rules_update_heights metadata) of
        (Inl e, d') \<Rightarrow> (Inl e, d')
      | (Inr stored_rules, d') \<Rightarrow>
     (case put_optional (db_put_corrections D) d' chain_id (md_corrections metadata) of
        (Inl e, d'') \<Rightarrow> (Inl e, d'')
      | (Inr stored_corrections, d'') \<Rightarrow> (Inr (stored_rules, stored_corrections), d'')))))"

subsection \<open>Consecutive block numbers\<close>

definition word_seq :: "u64 \<Rightarrow> nat \<Rightarrow> u64 list" where
  "word_seq a k = map (\<lambda>i. a + of_nat i) [0..<k]"

lemma word_seq_simps [simp]:
  "word_seq a 0 = []"
  "word_seq a (Suc k) = a # word_seq (a + 1) k"
proof -
  show "word_seq a (Suc k) = a # word_seq (a + 1) k"
    unfolding word_seq_def upt_conv_Cons [OF zero_less_Suc]
    by (simp add: map_Suc_upt [symmetric] comp_def algebra_simps del: upt_Suc map_Suc_upt)
qed (simp add: word_seq_def)

lemma length_word_seq [simp]: "length (word_seq a k) = k"
  by (simp add: word_seq_def)

lemma unat_word_seq: "(a :: u64) \<le> b \<Longrightarrow> i \<le> unat (b - a) \<Longrightarrow> unat (a + of_nat i) = unat a + i"
proof -
  assume ab: "a \<le> b" and i: "i \<le> unat (b - a)"
  have "unat (b - a) = unat b - unat a" using ab by (simp add: unat_sub)
  then have "unat a + i \<le> unat b" using i ab by (simp add: word_le_nat_alt)
  from le_less_trans [OF this unsigned_less [of b, where ?'a = nat]]
  have "unat a + i < 2 ^ 64" by simp
  then show ?thesis by (simp add: unat_word_ariths unat_of_nat)
qed

lemma word_seq_interval:
  assumes "a \<le> b"
  shows "word_seq a (Suc (unat (b - a))) = sorted_list_of_set {a .. b}"
proof (rule sorted_distinct_set_unique)
  let ?k = "Suc (unat (b - a))"
  have ab: "unat a + unat (b - a) = unat b" using assms by (simp add: unat_sub word_le_nat_alt)
  have "sorted_wrt (<) (word_seq a ?k)"
    using unat_word_seq [OF assms] by (auto simp: sorted_wrt_iff_nth_less word_seq_def word_less_nat_alt less_Suc_eq_le simp del: upt_Suc)
  then show "sorted (word_seq a ?k)" "distinct (word_seq a ?k)" by (auto simp: strict_sorted_iff)
  have "x \<in> set (word_seq a ?k) \<longleftrightarrow> x \<in> {a .. b}" for x
  proof
    assume "x \<in> set (word_seq a ?k)"
    then obtain i where "i \<le> unat (b - a)" "x = a + of_nat i" by (auto simp: word_seq_def less_Suc_eq_le simp del: upt_Suc)
    then show "x \<in> {a .. b}" using unat_word_seq [OF assms] ab by (simp add: word_le_nat_alt)
  next
    assume x: "x \<in> {a .. b}"
    then have "unat (x - a) \<le> unat (b - a)" using assms by (auto simp: unat_sub word_le_nat_alt)
    then have "unat (x - a) \<in> set [0..<?k]" by (simp add: less_Suc_eq_le del: upt_Suc)
    then have "a + of_nat (unat (x - a)) \<in> set (word_seq a ?k)"
      unfolding word_seq_def set_map by (rule imageI)
    moreover have "a + of_nat (unat (x - a)) = x" by (simp del: word_seq_simps)
    ultimately show "x \<in> set (word_seq a ?k)" by (rule back_subst)
  qed
  then have "set (word_seq a ?k) = {a .. b}" by (rule set_eqI)
  then show "set (word_seq a ?k) = set (sorted_list_of_set {a .. b})"
    unfolding sorted_list_of_set.set_sorted_key_list_of_set [OF finite] .
qed auto

subsection \<open>What a fetch stores\<close>

definition only_blocks_of :: "u64 \<Rightarrow> abs_db \<Rightarrow> abs_db \<Rightarrow> bool" where
  "only_blocks_of c s s' \<longleftrightarrow>
     chains s \<subseteq> chains s' \<and> chains s' \<subseteq> insert c (chains s) \<and> (\<forall>c'. c' \<noteq> c \<longrightarrow> blocks s' c' = blocks s c') \<and>
     rules s' = rules s \<and> corrections s' = corrections s \<and> failed_bundles s' = failed_bundles s"

lemma canonical_ConsD:
  assumes "canonical (r # rs)"
  shows "canonical rs" and "range_set r \<inter> ranges_set rs = {}"
proof -
  show "canonical rs" using assms by (simp add: canonical_def)
  have "n \<notin> range_set q" if "n \<in> range_set r" "q \<in> set rs" for n q
    using assms that by (auto simp: canonical_def range_set_def word_le_nat_alt)
  then show "range_set r \<inter> ranges_set rs = {}" by (auto simp: ranges_set_def)
qed

lemma finite_ranges_set [simp]: "finite (ranges_set rs)" "finite (range_set r)"
  by (simp_all add: ranges_set_def)

lemma streamed_numbers:
  assumes "list_all2 (\<lambda>q bs. P q bs \<and> map eb_number bs = sorted_list_of_set (range_set q)) rs bss"
  shows "eb_number ` set (concat bss) = ranges_set rs" and "canonical rs \<Longrightarrow> length (concat bss) = card (ranges_set rs)"
proof -
  show "eb_number ` set (concat bss) = ranges_set rs"
    using assms
  proof (induction rule: list_all2_induct)
    case (Cons q rs bs bss)
    then have "set (map eb_number bs) = range_set q"
      by (metis finite_ranges_set(2) sorted_list_of_set.set_sorted_key_list_of_set)
    then have "eb_number ` set bs = range_set q" by simp
    with Cons.IH show ?case by (simp add: image_Un)
  qed simp
  show "length (concat bss) = card (ranges_set rs)" if "canonical rs"
    using assms that
  proof (induction rule: list_all2_induct)
    case (Cons q rs bs bss)
    then have "length bs = card (range_set q)"
      by (metis length_map sorted_list_of_set.length_sorted_key_list_of_set)
    with Cons canonical_ConsD [OF Cons.prems] show ?case by (simp add: card_Un_disjoint)
  qed simp
qed

definition streamed_put :: "u64 \<Rightarrow> encoded_block \<Rightarrow> u64 \<times> u64 \<times> bytes" where
  "streamed_put c b = (c, eb_number b, eb_data b)"

lemma abs_put_all_Nil [simp]: "abs_put_all [] s = s"
  by (simp add: abs_put_all_def)

lemma abs_put_all_Cons: "abs_put_all ((c, n, data) # puts) s = abs_put_all puts (abs_put c n data s)"
  by (simp add: abs_put_all_def)

lemma abs_put_all_append: "abs_put_all (ps @ qs) s = abs_put_all qs (abs_put_all ps s)"
  by (simp add: abs_put_all_def)

lemma blocks_put_streamed:
  "blocks (abs_put_all (map (streamed_put c) bs) s) =
     (blocks s)(c := blocks s c ++ map_of (rev (map (\<lambda>b. (eb_number b, eb_data b)) bs)))"
proof (induction bs rule: rev_induct)
  case Nil
  then show ?case by (simp add: abs_put_all_def)
next
  case (snoc b bs)
  then show ?case by (simp add: abs_put_all_append abs_put_all_Cons streamed_put_def abs_put_def fun_eq_iff map_add_def)
qed

lemma map_of_rev_numbers:
  "map_of (rev (map (\<lambda>b. (eb_number b, eb_data b)) bs)) n \<noteq> None \<longleftrightarrow> n \<in> eb_number ` set bs"
  by (force simp: map_of_eq_None_iff)

context block_store
begin

lemma fetch_stream_effect:
  assumes "inv d" and "fetch_stream D d c stream n w = (r, d')"
  shows "\<exists>bs rest. stream = map Inr bs @ rest \<and> inv d' \<and> map eb_number bs = word_seq n (length bs) \<and>
    abs d' = abs_put_all (map (streamed_put c) bs) (abs d) \<and>
    (\<forall>x. r = Inr x \<longrightarrow> rest = [] \<and> x = (n + of_nat (length bs), w + sum_list (map (\<lambda>b. length (eb_data b)) bs)))"
  using assms
proof (induction stream arbitrary: d n w)
  case Nil
  then show ?case by auto
next
  case (Cons x stream)
  show ?case
  proof (cases x)
    case (Inl e)
    with Cons.prems show ?thesis by (intro exI [where x = "[] :: encoded_block list"] exI [where x = "x # stream"]) auto
  next
    case (Inr b)
    show ?thesis
    proof (cases "eb_number b = n")
      case False
      with Cons.prems Inr show ?thesis by (intro exI [where x = "[] :: encoded_block list"] exI [where x = "x # stream"]) auto
    next
      case True
      obtain r1 d1 where put: "db_put_bytes D d c n (eb_data b) = (r1, d1)" by fastforce
      note law = put_bytes_law [OF Cons.prems(1) put]
      show ?thesis
      proof (cases r1)
        case (Inl e)
        with Cons.prems Inr True put law show ?thesis by (intro exI [where x = "[] :: encoded_block list"] exI [where x = "x # stream"]) auto
      next
        case r1: (Inr u)
        with Cons.prems Inr True put have "fetch_stream D d1 c stream (n + 1) (w + length (eb_data b)) = (r, d')" by simp
        from Cons.IH [OF _ this] law obtain bs rest where IH: "stream = map Inr bs @ rest" "inv d'"
          "map eb_number bs = word_seq (n + 1) (length bs)" "abs d' = abs_put_all (map (streamed_put c) bs) (abs d1)"
          "\<forall>x. r = Inr x \<longrightarrow> rest = [] \<and>
            x = (n + 1 + of_nat (length bs), w + length (eb_data b) + sum_list (map (\<lambda>b. length (eb_data b)) bs))"
          by blast
        have "abs d' = abs_put_all (map (streamed_put c) (b # bs)) (abs d)"
          using IH(4) law r1 True by (simp add: abs_put_all_Cons streamed_put_def)
        then show ?thesis using IH Inr True
          by (intro exI [of _ "b # bs"] exI [of _ rest]) (auto simp: algebra_simps)
      qed
    qed
  qed
qed

lemma fetch_ranges_effect:
  assumes "inv d" and "fetch_ranges D client c d rs cnt w = (r, d')"
  shows "inv d' \<and> (\<exists>bs. abs d' = abs_put_all (map (streamed_put c) bs) (abs d))"
  using assms
proof (induction rs arbitrary: d cnt w)
  case Nil
  then show ?case by (auto intro!: exI [of _ "[]"])
next
  case (Cons q rs)
  show ?case
  proof (cases "client_get_block_range client c (range_start q) (range_end q)")
    case (Inl e)
    with Cons.prems show ?thesis by (auto simp: Let_def intro!: exI [of _ "[]"])
  next
    case (Inr stream)
    obtain r1 d1 where run: "fetch_stream D d c stream (range_start q) w = (r1, d1)" by fastforce
    from fetch_stream_effect [OF Cons.prems(1) run] obtain bs where
      bs: "inv d1" "abs d1 = abs_put_all (map (streamed_put c) bs) (abs d)" by blast
    show ?thesis
    proof (cases "d' = d1")
      case True
      with bs show ?thesis by blast
    next
      case False
      then obtain n w1 where "fetch_ranges D client c d1 rs n w1 = (r, d')"
        using Cons.prems(2) Inr run by (auto simp: Let_def split: sum.splits if_splits)
      from Cons.IH [OF bs(1) this] bs(2) show ?thesis
        by (metis abs_put_all_append map_append)
    qed
  qed
qed

lemma fetch_ranges_ok:
  assumes "inv d" and "fetch_ranges D client c d rs cnt w = (Inr (cnt', w'), d')"
    and "nonempty_ranges rs" and "u64_max \<notin> ranges_set rs"
    and "\<forall>a b stream. client_get_block_range client c a b = Inr stream \<longrightarrow> length stream < 2 ^ 64"
  shows "\<exists>bss. list_all2 (\<lambda>q bs. client_get_block_range client c (range_start q) (range_end q) = Inr (map Inr bs) \<and>
      map eb_number bs = sorted_list_of_set (range_set q)) rs bss \<and>
    abs d' = abs_put_all (map (streamed_put c) (concat bss)) (abs d) \<and>
    cnt' = cnt + length (concat bss) \<and> w' = w + sum_list (map (\<lambda>b. length (eb_data b)) (concat bss))"
  using assms(1-4)
proof (induction rs arbitrary: d cnt w)
  case Nil
  then show ?case by auto
next
  case (Cons q rs)
  let ?a = "range_start q" and ?b = "range_end q"
  obtain stream where stream: "client_get_block_range client c ?a ?b = Inr stream"
    using Cons.prems(2) by (auto simp: Let_def split: sum.splits)
  obtain r1 d1 where run: "fetch_stream D d c stream ?a w = (r1, d1)" by fastforce
  then obtain x where x: "r1 = Inr x" using Cons.prems(2) stream by (auto simp: Let_def split: sum.splits)
  from fetch_stream_effect [OF Cons.prems(1) run] x obtain bs where bs: "stream = map Inr bs" "inv d1"
    "map eb_number bs = word_seq ?a (length bs)" "abs d1 = abs_put_all (map (streamed_put c) bs) (abs d)"
    "x = (?a + of_nat (length bs), w + sum_list (map (\<lambda>b. length (eb_data b)) bs))"
    by force
  have ab: "?a \<le> ?b" using Cons.prems(3) by (simp add: nonempty_ranges_def)
  have bmax: "?b \<noteq> u64_max" using Cons.prems(4) ab by (auto simp: range_set_def)
  have rest: "?a + of_nat (length bs) - 1 = ?b"
    "fetch_ranges D client c d1 rs (cnt + unat (?b - ?a + 1)) (snd x) = (Inr (cnt', w'), d')"
    using Cons.prems(2) stream run x bs(5) by (auto simp: Let_def split: if_splits)
  have "?b - ?a + 1 = of_nat (length bs)" using rest(1) by (simp add: algebra_simps)
  moreover have "length bs < 2 ^ 64" using assms(5) stream bs(1) by fastforce
  ultimately have len0: "length bs = unat (?b - ?a + 1)" by (simp add: unat_of_nat)
  have "?b - ?a + 1 \<noteq> 0"
  proof
    assume "?b - ?a + 1 = 0"
    then have "?b - ?a = u64_max" by (simp add: eq_neg_iff_add_eq_0)
    moreover have "?b - ?a \<le> ?b" using ab by (simp add: word_sub_le)
    ultimately show False using bmax by simp
  qed
  then have len: "length bs = Suc (unat (?b - ?a))" 
    unfolding len0 add.commute [of _ 1] by (rule unatSuc)
  have nums: "map eb_number bs = sorted_list_of_set (range_set q)"
    using bs(3) unfolding len word_seq_interval [OF ab] range_set_def .
  from Cons.IH [OF bs(2) rest(2)] Cons.prems(3,4) obtain bss where
    "list_all2 (\<lambda>q bs. client_get_block_range client c (range_start q) (range_end q) = Inr (map Inr bs) \<and>
      map eb_number bs = sorted_list_of_set (range_set q)) rs bss"
    "abs d' = abs_put_all (map (streamed_put c) (concat bss)) (abs d1)"
    "cnt' = cnt + unat (?b - ?a + 1) + length (concat bss)"
    "w' = snd x + sum_list (map (\<lambda>b. length (eb_data b)) (concat bss))"
    by (auto simp: nonempty_ranges_def)
  then show ?case using stream bs nums len0
    by (intro exI [of _ "bs # bss"]) (simp add: abs_put_all_append)
qed

lemma only_blocks_of_streamed: "only_blocks_of c s (abs_put_all (map (streamed_put c) bs) s)"
  by (auto simp: only_blocks_of_def blocks_put_streamed streamed_put_def)

lemma fetch_effect:
  assumes "inv d" and "fetch D connect cfg d url c from_opt to_opt = (r, d')"
  shows "inv d' \<and> only_blocks_of c (abs d) (abs d')"
proof (cases "d' = d")
  case True
  then show ?thesis using assms(1) by (auto simp: only_blocks_of_def)
next
  case False
  then obtain client rs r1 where "fetch_ranges D client c d rs 0 0 = (r1, d')"
    using assms(2) by (auto simp: fetch_def Let_def split: sum.splits if_splits option.splits prod.splits)
  from fetch_ranges_effect [OF assms(1) this] show ?thesis by (auto simp: only_blocks_of_streamed)
qed

lemma fetch_keeps_stored:
  assumes "inv d" and "fetch D connect cfg d url c from_opt to_opt = (r, d')"
  shows "stored (abs d) c \<subseteq> stored (abs d') c"
proof (cases "d' = d")
  case False
  then obtain client rs r1 where "fetch_ranges D client c d rs 0 0 = (r1, d')"
    using assms(2) by (auto simp: fetch_def Let_def split: sum.splits if_splits option.splits prod.splits)
  from fetch_ranges_effect [OF assms(1) this] show ?thesis by (auto simp: stored_def blocks_put_streamed map_add_def split: option.splits)
qed simp

lemma fetch_ok:
  assumes inv: "inv d" and run: "fetch D connect cfg d url c from_opt to_opt = (Inr line, d')"
    and client: "connect url (get_auth_token cfg) = Inr client"
    and short: "\<forall>a b stream. client_get_block_range client c a b = Inr stream \<longrightarrow> length stream < 2 ^ 64"
    and remote: "client_list client (Some c) = Inr listings" "remote_chain_ranges c listings = Inr remote"
    and bounds: "bounds = fetch_bounds from_opt to_opt remote" "range_end bounds \<noteq> u64_max"
  shows "stored (abs d') c = stored (abs d) c \<union> range_set bounds"
    and "n \<in> stored (abs d) c \<Longrightarrow> blocks (abs d') c n = blocks (abs d) c n"
    and "n \<in> range_set bounds - stored (abs d) c \<Longrightarrow> \<exists>q bs b. range_set q \<subseteq> range_set bounds \<and> b \<in> set bs \<and> eb_number b = n \<and>
      client_get_block_range client c (range_start q) (range_end q) = Inr (map Inr bs) \<and> blocks (abs d') c n = Some (eb_data b)"
    and "case line of NothingToFetch _ _ _ \<Rightarrow> range_set bounds \<subseteq> stored (abs d) c
         | Fetched cnt _ \<Rightarrow> cnt = card (range_set bounds - stored (abs d) c)"
proof -
  obtain local_ranges where loc: "db_get_ranges_of_chain_id D d c = Inr local_ranges"
    and le: "range_start bounds \<le> range_end bounds"
    using run client remote bounds(1) by (auto simp: fetch_def Let_def split: sum.splits if_splits)
  define rs where "rs = subtract_ranges bounds local_ranges"
  note L = ranges_law [OF inv loc]
  have "canonical [bounds]" using le by (simp add: canonical_def)
  from canonical_subtract_ranges [OF this] L have rs: "canonical rs" "ranges_set rs = range_set bounds - stored (abs d) c"
    by (auto simp: rs_def subtract_ranges_def nonempty_ranges_def)
  have "\<exists>bss. list_all2 (\<lambda>q bs. client_get_block_range client c (range_start q) (range_end q) = Inr (map Inr bs) \<and>
        map eb_number bs = sorted_list_of_set (range_set q)) rs bss \<and>
      abs d' = abs_put_all (map (streamed_put c) (concat bss)) (abs d) \<and>
      (case line of NothingToFetch _ _ _ \<Rightarrow> rs = [] | Fetched cnt _ \<Rightarrow> cnt = length (concat bss))"
  proof (cases "rs = []")
    case True
    then show ?thesis using run client remote bounds(1) loc le
      by (auto simp: fetch_def Let_def rs_def split: if_splits)
  next
    case False
    then obtain cnt w where "fetch_ranges D client c d rs 0 0 = (Inr (cnt, w), d')" "line = Fetched cnt (w div (1024 * 1024))"
      using run client remote bounds(1) loc le
      by (auto simp: fetch_def Let_def rs_def split: if_splits option.splits sum.splits prod.splits)
    moreover have "nonempty_ranges rs" using rs(1) by (simp add: canonical_def nonempty_ranges_def)
    moreover have "u64_max \<notin> ranges_set rs" using rs(2) bounds(2) by (auto simp: range_set_def)
    ultimately show ?thesis using fetch_ranges_ok [OF inv _ _ _ short] by fastforce
  qed
  then obtain bss where bss: "list_all2 (\<lambda>q bs. client_get_block_range client c (range_start q) (range_end q) = Inr (map Inr bs) \<and>
        map eb_number bs = sorted_list_of_set (range_set q)) rs bss"
      and abs': "abs d' = abs_put_all (map (streamed_put c) (concat bss)) (abs d)"
      and line: "case line of NothingToFetch _ _ _ \<Rightarrow> rs = [] | Fetched cnt _ \<Rightarrow> cnt = length (concat bss)" by blast
  let ?m = "map_of (rev (map (\<lambda>b. (eb_number b, eb_data b)) (concat bss)))"
  have blk: "blocks (abs d') c = blocks (abs d) c ++ ?m" by (simp add: abs' blocks_put_streamed)
  have dom: "?m k \<noteq> None \<longleftrightarrow> k \<in> range_set bounds - stored (abs d) c" for k
    unfolding map_of_rev_numbers streamed_numbers(1) [OF bss] rs(2) ..
  then have "dom ?m = range_set bounds - stored (abs d) c" by (simp only: dom_def) blast
  then show "stored (abs d') c = stored (abs d) c \<union> range_set bounds"
    unfolding stored_def blk dom_map_add by (auto simp: stored_def)
  show "blocks (abs d') c n = blocks (abs d) c n" if "n \<in> stored (abs d) c"
    using dom [of n] that by (simp add: blk map_add_def)
  show "\<exists>q bs b. range_set q \<subseteq> range_set bounds \<and> b \<in> set bs \<and> eb_number b = n \<and>
      client_get_block_range client c (range_start q) (range_end q) = Inr (map Inr bs) \<and> blocks (abs d') c n = Some (eb_data b)"
    if n: "n \<in> range_set bounds - stored (abs d) c"
  proof -
    obtain data where data: "?m n = Some data" using n dom [of n] by blast
    then have "(n, data) \<in> set (rev (map (\<lambda>b. (eb_number b, eb_data b)) (concat bss)))" by (rule map_of_SomeD)
    then obtain bs b where b: "bs \<in> set bss" "b \<in> set bs" "eb_number b = n" "eb_data b = data" by auto
    then obtain i where i: "i < length bss" "bss ! i = bs" by (auto simp: in_set_conv_nth)
    then have q: "client_get_block_range client c (range_start (rs ! i)) (range_end (rs ! i)) = Inr (map Inr bs)"
      "rs ! i \<in> set rs" using list_all2_nthD2 [OF bss i(1)] list_all2_lengthD [OF bss] by auto
    have "range_set (rs ! i) \<subseteq> range_set bounds" using q(2) rs(2) by (auto simp: ranges_set_def)
    with q b data show ?thesis by (auto simp: blk)
  qed
  show "case line of NothingToFetch _ _ _ \<Rightarrow> range_set bounds \<subseteq> stored (abs d) c
         | Fetched cnt _ \<Rightarrow> cnt = card (range_set bounds - stored (abs d) c)"
    using line streamed_numbers(2) [OF bss rs(1)] rs(2) by (auto split: fetch_line.splits)
qed

end

subsection \<open>Properties\<close>

text \<open>C9: a fetch that reports success has stored exactly the missing blocks: afterwards the
  chain has the blocks it had and all of the requested range; blocks that were stored are
  untouched; each new block holds the data that the remote streamed under this number in answer
  to a request within the range; the count it reports is the number of blocks that were missing;
  and nothing but the blocks of this chain has changed. (The range does not end at
  \<open>u64::MAX\<close> and no stream has \<open>2^64\<close> messages.)\<close>

theorem fetch_stores_missing_blocks:
  assumes db: "rocks_block_db R rview wview healthy ho" and inv: "db_inv (rview (rocks_inner d))"
    and run: "fetch (rocks_blockdb R ho pr) connect cfg d url c from_opt to_opt = (Inr line, d')"
    and client: "connect url (get_auth_token cfg) = Inr client"
    and short: "\<forall>a b stream. client_get_block_range client c a b = Inr stream \<longrightarrow> length stream < 2 ^ 64"
    and remote: "client_list client (Some c) = Inr listings" "remote_chain_ranges c listings = Inr remote"
    and bounds: "bounds = fetch_bounds from_opt to_opt remote" "range_end bounds \<noteq> u64_max"
    and states: "s = abs_of (rview (rocks_inner d))" "s' = abs_of (rview (rocks_inner d'))"
  shows "db_inv (rview (rocks_inner d')) \<and> only_blocks_of c s s' \<and> stored s' c = stored s c \<union> range_set bounds \<and>
    (\<forall>n \<in> stored s c. blocks s' c n = blocks s c n) \<and>
    (\<forall>n \<in> range_set bounds - stored s c. \<exists>q bs b. range_set q \<subseteq> range_set bounds \<and> b \<in> set bs \<and> eb_number b = n \<and>
      client_get_block_range client c (range_start q) (range_end q) = Inr (map Inr bs) \<and> blocks s' c n = Some (eb_data b)) \<and>
    (case line of NothingToFetch _ _ _ \<Rightarrow> range_set bounds \<subseteq> stored s c
     | Fetched cnt _ \<Rightarrow> cnt = card (range_set bounds - stored s c))"
proof -
  note B = rocks_block_db.rocks_block_store [OF db, of pr]
  note ok = block_store.fetch_ok [OF B inv run client short remote bounds]
  show ?thesis unfolding states using block_store.fetch_effect [OF B inv run] ok by blast
qed

definition ex_client :: "encoded_block list \<Rightarrow> rpc_client" where
  "ex_client bs =
     \<lparr>rc_client =
        \<lparr>rpc_get_block_range = (\<lambda>req. Inr (map Inr bs)),
         rpc_list = (\<lambda>req. Inr [\<lparr>cl_chain_id = 1, cl_block_ranges = [\<lparr>pbr_from = 5, pbr_to = 9\<rparr>],
           cl_has_rules_update_heights = False, cl_has_corrections = False\<rparr>]),
         rpc_get_metadata = (\<lambda>req. Inr \<lparr>md_rules_update_heights = None, md_corrections = None\<rparr>)\<rparr>,
      rc_auth_token = None\<rparr>"

definition ex_stream :: "encoded_block list" where
  "ex_stream = [\<lparr>eb_data = [70], eb_number = 7\<rparr>, \<lparr>eb_data = [80], eb_number = 8\<rparr>]"

definition ex_fetch :: "encoded_block list \<Rightarrow> (cmd_error + fetch_line) \<times> mem_db rocks_db" where
  "ex_fetch bs = fetch mem_blockdb (\<lambda>_ _. Inr (ex_client bs)) ex_config ex_db2 ''http://remote'' 1 (Some 5) None"

lemma ex_fetch_eq:
  "ex_fetch bs =
     (case fetch_ranges mem_blockdb (ex_client bs) 1 ex_db2 [BlockRange 7 8] 0 0 of
        (Inl e, d') \<Rightarrow> (Inl e, d')
      | (Inr (cnt, written), d') \<Rightarrow> (Inr (Fetched cnt (written div (1024 * 1024))), d'))"
proof -
  have "db_get_ranges_of_chain_id mem_blockdb ex_db2 1 = Inr [BlockRange 5 6, BlockRange 9 9]" by code_simp
  moreover have "subtract_ranges (BlockRange 5 9) [BlockRange 5 6, BlockRange 9 9] = [BlockRange 7 8]" by code_simp
  moreover have "find_uncovered [BlockRange 7 8] [BlockRange 5 9] = None" by code_simp
  ultimately show ?thesis
    by (simp add: ex_fetch_def fetch_def ex_client_def client_list_def remote_chain_ranges_def range_of_proto_def fetch_bounds_def)
qed

abbreviation ex_ranges :: "encoded_block list \<Rightarrow> (cmd_error + nat \<times> nat) \<times> mem_db rocks_db" where
  "ex_ranges bs \<equiv> fetch_ranges mem_blockdb (ex_client bs) 1 ex_db2 [BlockRange 7 8] 0 0"

lemma ex_fetch_error: "fst (ex_ranges bs) = Inl e \<Longrightarrow> ex_fetch bs = (Inl e, snd (ex_ranges bs))"
  unfolding ex_fetch_eq by (cases "ex_ranges bs") (simp del: fetch_ranges.simps)

lemma ex_overrun: "fst (ex_ranges (ex_stream @ [\<lparr>eb_data = [99], eb_number = 9\<rparr>])) = Inl (FewerBlocks 2 3)"
  by code_simp

theorem fetch_stores_missing_blocks_witness:
  "fst (ex_fetch ex_stream) = Inr (Fetched 2 0) \<and>
   stored (abs_of (mem_view (rocks_inner (snd (ex_fetch ex_stream))))) 1 =
     stored (abs_of (mem_view (rocks_inner ex_db2))) 1 \<union> {5 .. 9}"
proof -
  have "fst (ex_ranges ex_stream) = Inr (2, 2)" by code_simp
  then have ok: "fst (ex_fetch ex_stream) = Inr (Fetched 2 0)"
    unfolding ex_fetch_eq by (cases "ex_ranges ex_stream") (simp del: fetch_ranges.simps)
  then have run: "ex_fetch ex_stream = (Inr (Fetched 2 0), snd (ex_fetch ex_stream))" by (metis prod.collapse)
  have short: "\<forall>a b stream. client_get_block_range (ex_client ex_stream) 1 a b = Inr stream \<longrightarrow> length stream < 2 ^ 64"
    by (simp add: client_get_block_range_def ex_client_def ex_stream_def)
  let ?l = "\<lparr>cl_chain_id = 1, cl_block_ranges = [\<lparr>pbr_from = 5, pbr_to = 9\<rparr>],
     cl_has_rules_update_heights = False, cl_has_corrections = False\<rparr>"
  have remote: "client_list (ex_client ex_stream) (Some 1) = Inr [?l]" "remote_chain_ranges 1 [?l] = Inr [BlockRange 5 9]"
    by (simp_all add: client_list_def ex_client_def remote_chain_ranges_def range_of_proto_def)
  have b: "BlockRange 5 9 = fetch_bounds (Some 5) None [BlockRange 5 9]" "range_end (BlockRange 5 9) \<noteq> u64_max"
    by (simp_all add: fetch_bounds_def)
  show ?thesis
    using ok fetch_stores_missing_blocks [OF memdb.rocks_block_db_axioms ex_inv run [unfolded ex_fetch_def] refl short remote b refl refl]
    by (simp add: ex_fetch_def range_set_def)
qed

text \<open>C10: whatever the remote answers and whether or not the fetch succeeds, the database
  invariant is preserved, no other chain and no metadata changes, and no stored block is lost;
  a rerun continues where a failed fetch stopped.\<close>

theorem fetch_preserves_invariant:
  assumes "rocks_block_db R rview wview healthy ho" and "db_inv (rview (rocks_inner d))"
    and "fetch (rocks_blockdb R ho pr) connect cfg d url c from_opt to_opt = (r, d')"
  shows "db_inv (rview (rocks_inner d')) \<and>
    only_blocks_of c (abs_of (rview (rocks_inner d))) (abs_of (rview (rocks_inner d'))) \<and>
    stored (abs_of (rview (rocks_inner d))) c \<subseteq> stored (abs_of (rview (rocks_inner d'))) c"
  using block_store.fetch_effect [OF rocks_block_db.rocks_block_store [OF assms(1), of pr] assms(2,3)]
    block_store.fetch_keeps_stored [OF rocks_block_db.rocks_block_store [OF assms(1), of pr] assms(2,3)]
  by blast

theorem fetch_preserves_invariant_witness:
  "db_inv (mem_view (rocks_inner (snd (ex_fetch [\<lparr>eb_data = [70], eb_number = 7\<rparr>])))) \<and>
   fst (ex_fetch [\<lparr>eb_data = [70], eb_number = 7\<rparr>]) = Inl (FewerBlocks 2 1)"
proof -
  let ?r = "ex_fetch [\<lparr>eb_data = [70], eb_number = 7\<rparr>]"
  have "fst (ex_ranges [\<lparr>eb_data = [70], eb_number = 7\<rparr>]) = Inl (FewerBlocks 2 1)" by code_simp
  then have "fst ?r = Inl (FewerBlocks 2 1)" by (simp add: ex_fetch_error del: fetch_ranges.simps)
  moreover have "?r = (fst ?r, snd ?r)" by simp
  ultimately show ?thesis
    using fetch_preserves_invariant [OF memdb.rocks_block_db_axioms ex_inv] unfolding ex_fetch_def by metis
qed


end
