(* ===== verification/Rlp.thy ===== *)
theory Rlp
  imports Chain_Types
begin

section \<open>RLP items and the Ethereum crates\<close>

text \<open>
  bertha-types/src/rlp_utils.rs, bertha-types/src/u256.rs and the interface of the crates that
  bertha-types builds on. Encoding and decoding of buffers belong to alloy_rlp, hashing to
  alloy_primitives, Bloom filters to ethbloom and the Merkle trie to alloy_trie: they are the
  fields of the parameter \<open>eth\<close>, and the locale \<open>eth_crates\<close> holds what the code
  relies on. The crate turns a buffer into an item, a byte string or a list of items
  (\<open>rlp_item\<close>); the implementations of \<open>Encodable\<close> and \<open>Decodable\<close> in the
  repository, written out or derived, are functions between their types and items. An item that
  would encode to \<open>2^64\<close> bytes or more is outside the laws, since RLP has no encoding for
  it.

  The last section is an executable instance with the RLP encoding of the Ethereum yellow paper.
\<close>

subsection \<open>Items and crates\<close>

datatype rlp_item = RStr bytes | RList "rlp_item list"

datatype rlp_error =
    RlpInputTooShort
  | RlpUnexpectedString
  | RlpUnexpectedList
  | RlpUnexpectedLength
  | RlpLeadingZero
  | RlpOverflow
  | RlpListLengthMismatch
  | RlpCustom string

record eth =
  rlp_encode :: "rlp_item \<Rightarrow> bytes"
  rlp_decode :: "bytes \<Rightarrow> rlp_error + rlp_item \<times> bytes"
  keccak256 :: "bytes \<Rightarrow> hash"
  bloom_accrue :: "bloom \<Rightarrow> bytes \<Rightarrow> bloom"
  bloom_contains :: "bloom \<Rightarrow> bytes \<Rightarrow> bool"
  trie_root :: "(bytes \<times> bytes) list \<Rightarrow> hash"

locale eth_crates =
  fixes E :: eth
  assumes rlp_roundtrip: "length (rlp_encode E it) < 2 ^ 64 \<Longrightarrow> rlp_decode E (rlp_encode E it @ rest) = Inr (it, rest)"
    and rlp_list_byte: "length (rlp_encode E (RList its)) < 2 ^ 64 \<Longrightarrow> \<exists>b bs. rlp_encode E (RList its) = b # bs \<and> 0xc0 \<le> b"
    and rlp_empty_string: "rlp_encode E (RStr []) = [0x80]"
    and rlp_short_string: "length bs \<le> 55 \<Longrightarrow> length (rlp_encode E (RStr bs)) \<le> Suc (length bs)"
    and bloom_accrued: "bloom_contains E (bloom_accrue E bl x) x"
    and bloom_kept: "bloom_contains E bl y \<Longrightarrow> bloom_contains E (bloom_accrue E bl x) y"

subsection \<open>Fields\<close>

text \<open>\<open>u64\<close>, \<open>u8\<close> and \<open>usize\<close> are encoded without leading zeros by the crate, which
  also refuses leading zeros on input.\<close>

definition u64_item :: "u64 \<Rightarrow> rlp_item" where
  "u64_item n = RStr (dropWhile (\<lambda>b. b = 0) (u64_to_be_bytes n))"

definition item_bytes :: "rlp_item \<Rightarrow> rlp_error + bytes" where
  "item_bytes it = (case it of RStr bs \<Rightarrow> Inr bs | RList _ \<Rightarrow> Inl RlpUnexpectedList)"

definition item_u64 :: "rlp_item \<Rightarrow> rlp_error + u64" where
  "item_u64 it =
     res_bind (item_bytes it) (\<lambda>bs.
       if bs \<noteq> [] \<and> hd bs = 0 then Inl RlpLeadingZero
       else if length bs > 8 then Inl RlpOverflow
       else Inr (u64_from_be_bytes bs))"

definition u8_item :: "u8 \<Rightarrow> rlp_item" where
  "u8_item n = RStr (if n = 0 then [] else [n])"

definition item_u8 :: "rlp_item \<Rightarrow> rlp_error + u8" where
  "item_u8 it =
     res_bind (item_bytes it) (\<lambda>bs.
       case bs of
         [] \<Rightarrow> Inr 0
       | b # bs' \<Rightarrow> if b = 0 then Inl RlpLeadingZero else if bs' \<noteq> [] then Inl RlpOverflow else Inr b)"

text \<open>Fixed-size arrays.\<close>

definition item_array :: "nat \<Rightarrow> rlp_item \<Rightarrow> rlp_error + bytes" where
  "item_array n it =
     res_bind (item_bytes it) (\<lambda>bs. if length bs = n then Inr bs else Inl RlpUnexpectedLength)"

definition list_item :: "('a \<Rightarrow> rlp_item) \<Rightarrow> 'a list \<Rightarrow> rlp_item" where
  "list_item f xs = RList (map f xs)"

definition item_list :: "(rlp_item \<Rightarrow> rlp_error + 'a) \<Rightarrow> rlp_item \<Rightarrow> rlp_error + 'a list" where
  "item_list f it = (case it of RStr _ \<Rightarrow> Inl RlpUnexpectedString | RList its \<Rightarrow> collect_results (map f its))"

text \<open>The fields of a derived struct: a list of exactly \<open>n\<close> items.\<close>

definition item_fields :: "nat \<Rightarrow> rlp_item \<Rightarrow> rlp_error + rlp_item list" where
  "item_fields n it =
     (case it of
        RStr _ \<Rightarrow> Inl RlpUnexpectedString
      | RList its \<Rightarrow> if length its = n then Inr its else Inl RlpListLengthMismatch)"

definition decode_with :: "eth \<Rightarrow> (rlp_item \<Rightarrow> rlp_error + 'a) \<Rightarrow> bytes \<Rightarrow> rlp_error + 'a \<times> bytes" where
  "decode_with E f buf = res_bind (rlp_decode E buf) (\<lambda>(it, rest). map_ok (\<lambda>x. (x, rest)) (f it))"

subsection \<open>RlpNil, RlpString and U256\<close>

definition rlp_nil_item :: "('a \<Rightarrow> rlp_item) \<Rightarrow> 'a option \<Rightarrow> rlp_item" where
  "rlp_nil_item f x = (case x of Some v \<Rightarrow> f v | None \<Rightarrow> RStr [])"

definition item_rlp_nil :: "(rlp_item \<Rightarrow> rlp_error + 'a) \<Rightarrow> rlp_item \<Rightarrow> rlp_error + 'a option" where
  "item_rlp_nil f it = (if it = RStr [] then Inr None else map_ok Some (f it))"

definition rlp_string_item :: "bytes \<Rightarrow> rlp_item" where
  "rlp_string_item bs = RStr bs"

definition item_rlp_string :: "rlp_item \<Rightarrow> rlp_error + bytes" where
  "item_rlp_string it = item_bytes it"

fun strip_zeros :: "bytes \<Rightarrow> bytes" where
  "strip_zeros (b # c # bs) = (if b = 0 then strip_zeros (c # bs) else b # c # bs)"
| "strip_zeros bs = bs"

definition u256_item :: "u256 \<Rightarrow> rlp_item" where
  "u256_item n = (if n = 0 then u64_item 0 else RStr (strip_zeros (u256_to_be_bytes n)))"

definition item_u256 :: "rlp_item \<Rightarrow> rlp_error + u256" where
  "item_u256 it =
     res_bind (item_bytes it) (\<lambda>bs.
       if be_val bs < 2 ^ 256 then Inr (u256_from_be_bytes bs) else Inl (RlpCustom ''Failed to decode U256''))"

datatype int_error_kind = EmptyInt | InvalidDigit | PosOverflow | NegOverflow

definition u256_add :: "u256 \<Rightarrow> u256 \<Rightarrow> int_error_kind + u256" where
  "u256_add a b = (if unat a + unat b < 2 ^ 256 then Inr (a + b) else Inl PosOverflow)"

definition u256_sub :: "u256 \<Rightarrow> u256 \<Rightarrow> int_error_kind + u256" where
  "u256_sub a b = (if b \<le> a then Inr (a - b) else Inl NegOverflow)"

definition to_least_significant_u64 :: "u256 \<Rightarrow> u64" where
  "to_least_significant_u64 n = of_nat (unat n)"

definition u256_of_u64 :: "u64 \<Rightarrow> u256" where
  "u256_of_u64 n = of_nat (unat n)"

subsection \<open>Round trips of fields\<close>

named_theorems item_simps \<open>decoding the item of a field\<close>

lemma be_val_zero_Cons [simp]: "be_val (0 # bs) = be_val bs"
  by (simp add: be_val_Cons)

lemma be_val_dropWhile [simp]: "be_val (dropWhile (\<lambda>b. b = 0) bs) = be_val bs"
  by (induction bs) auto

lemma be_val_strip_zeros [simp]: "be_val (strip_zeros bs) = be_val bs"
  by (induction bs rule: strip_zeros.induct) auto

lemma length_dropWhile_be: "length (dropWhile P (u64_to_be_bytes n)) \<le> 8"
  using length_dropWhile_le [of P "u64_to_be_bytes n"] by simp

lemma be_val_u64 [simp]: "be_val (u64_to_be_bytes n) = unat n"
  using unsigned_less [of n, where ?'a = nat] by (simp add: u64_to_be_bytes_def be_val_nat_be)

lemma be_val_u256 [simp]: "be_val (u256_to_be_bytes n) = unat n"
  using unsigned_less [of n, where ?'a = nat] by (simp add: u256_to_be_bytes_def be_val_nat_be)

lemma item_u64_item [item_simps]: "item_u64 (u64_item n) = Inr n"
proof -
  let ?bs = "dropWhile (\<lambda>b. b = 0) (u64_to_be_bytes n)"
  have "\<not> (?bs \<noteq> [] \<and> hd ?bs = 0)" using hd_dropWhile by blast
  then show ?thesis using length_dropWhile_be [of "\<lambda>b. b = 0" n]
    by (simp add: item_u64_def u64_item_def item_bytes_def u64_from_be_bytes_def)
qed

lemma u64_item_inj: "u64_item m = u64_item n \<longleftrightarrow> m = n"
  by (metis item_u64_item sum.inject(2))

lemma item_u8_item [item_simps]: "item_u8 (u8_item n) = Inr n"
  by (simp add: item_u8_def u8_item_def item_bytes_def)

lemma item_u256_item [item_simps]: "item_u256 (u256_item n) = Inr n"
proof (cases "n = 0")
  case True
  have "be_val (dropWhile (\<lambda>b. b = 0) (u64_to_be_bytes 0)) = 0" by (simp only: be_val_dropWhile be_val_u64) simp
  then show ?thesis using True
    by (simp add: item_u256_def u256_item_def u64_item_def item_bytes_def u256_from_be_bytes_def)
next
  case False
  have "unat n < 2 ^ 256" using unsigned_less [of n, where ?'a = nat] by simp
  then show ?thesis using False
    by (simp add: item_u256_def u256_item_def item_bytes_def u256_from_be_bytes_def)
qed

lemma item_array_RStr [item_simps]: "len_ok n bs \<Longrightarrow> item_array n (RStr bs) = Inr bs"
  by (simp add: item_array_def item_bytes_def len_ok_def)

lemma item_rlp_string_item [item_simps]: "item_rlp_string (rlp_string_item bs) = Inr bs"
  by (simp add: item_rlp_string_def rlp_string_item_def item_bytes_def)

lemma item_list_item [item_simps]:
  "(\<And>x. x \<in> set xs \<Longrightarrow> g (f x) = Inr x) \<Longrightarrow> item_list g (list_item f xs) = Inr xs"
  using collect_results_map_Inr [of xs "\<lambda>x. g (f x)" "\<lambda>x. x"] by (simp add: item_list_def list_item_def comp_def)

lemma item_fields_RList [item_simps]: "length its = n \<Longrightarrow> item_fields n (RList its) = Inr its"
  by (simp add: item_fields_def)

lemma item_nil_array [item_simps]:
  "0 < n \<Longrightarrow> pred_option (len_ok n) x \<Longrightarrow> item_rlp_nil (item_array n) (rlp_nil_item RStr x) = Inr x"
  by (cases x) (auto simp: item_rlp_nil_def rlp_nil_item_def item_array_def item_bytes_def len_ok_def)

context eth_crates
begin

lemma decode_with_encode:
  "length (rlp_encode E it) < 2 ^ 64 \<Longrightarrow> f it = Inr x \<Longrightarrow> decode_with E f (rlp_encode E it @ rest) = Inr (x, rest)"
  by (simp add: decode_with_def rlp_roundtrip)

lemma rlp_encode_inj:
  "length (rlp_encode E a) < 2 ^ 64 \<Longrightarrow> length (rlp_encode E b) < 2 ^ 64 \<Longrightarrow> rlp_encode E a = rlp_encode E b \<longleftrightarrow> a = b"
  using rlp_roundtrip [of a "[]"] rlp_roundtrip [of b "[]"] by (metis Pair_inject sum.inject(2))

end

end
