(* ===== verification/Rlp_Instance.thy ===== *)
theory Rlp_Instance
  imports Rlp
begin

section \<open>An executable instance of the Ethereum crates\<close>

text \<open>
  The RLP encoding of the Ethereum yellow paper, written out, and simple stand-ins for hashing,
  Bloom filters and the trie. The interpretation \<open>plain\<close> shows that the laws of
  \<open>eth_crates\<close> can hold; the examples of the components that follow are evaluated on it.
  Decoding uses fuel: \<open>2 * length buf + 1\<close> steps are enough, since each step of nesting and
  each element of a list consumes a byte (\<open>rlp_dec_enc\<close>).
\<close>

subsection \<open>Encoding\<close>

fun be_min :: "nat \<Rightarrow> bytes" where
  "be_min n = (if n = 0 then [] else be_min (n div 256) @ [of_nat (n mod 256)])"

declare be_min.simps [simp del]

definition rlp_head :: "nat \<Rightarrow> nat \<Rightarrow> bytes" where
  "rlp_head base n =
     (if n \<le> 55 then [of_nat (base + n)]
      else let l = be_min n in of_nat (base + 55 + length l) # l)"

fun rlp_enc :: "rlp_item \<Rightarrow> bytes" where
  "rlp_enc (RStr bs) =
     (if length bs = 1 \<and> unat (hd bs) < 128 then bs else rlp_head 128 (length bs) @ bs)"
| "rlp_enc (RList its) =
     (let payload = concat (map rlp_enc its) in rlp_head 192 (length payload) @ payload)"

subsection \<open>Decoding\<close>

definition rlp_take :: "nat \<Rightarrow> bytes \<Rightarrow> (bytes \<times> bytes) option" where
  "rlp_take n bs = (if n \<le> length bs then Some (take n bs, drop n bs) else None)"

definition rlp_take_long :: "nat \<Rightarrow> bytes \<Rightarrow> (bytes \<times> bytes) option" where
  "rlp_take_long ll bs =
     (case rlp_take ll bs of None \<Rightarrow> None | Some (len, rest) \<Rightarrow> rlp_take (be_val len) rest)"

fun rlp_split :: "bytes \<Rightarrow> (bool \<times> bytes \<times> bytes) option" where
  "rlp_split [] = None"
| "rlp_split (b # bs) =
     (let n = unat b in
      if n < 128 then Some (False, [b], bs)
      else if n < 184 then map_option (Pair False) (rlp_take (n - 128) bs)
      else if n < 192 then map_option (Pair False) (rlp_take_long (n - 183) bs)
      else if n < 248 then map_option (Pair True) (rlp_take (n - 192) bs)
      else map_option (Pair True) (rlp_take_long (n - 247) bs))"

fun rlp_dec :: "nat \<Rightarrow> bytes \<Rightarrow> (rlp_item \<times> bytes) option"
  and rlp_dec_list :: "nat \<Rightarrow> bytes \<Rightarrow> rlp_item list option" where
  "rlp_dec 0 buf = None"
| "rlp_dec (Suc f) buf =
     (case rlp_split buf of
        None \<Rightarrow> None
      | Some (True, payload, rest) \<Rightarrow> map_option (\<lambda>its. (RList its, rest)) (rlp_dec_list f payload)
      | Some (False, payload, rest) \<Rightarrow> Some (RStr payload, rest))"
| "rlp_dec_list 0 buf = None"
| "rlp_dec_list (Suc f) buf =
     (if buf = [] then Some []
      else case rlp_dec f buf of
        None \<Rightarrow> None
      | Some (it, rest) \<Rightarrow> map_option (Cons it) (rlp_dec_list f rest))"

subsection \<open>Decoding what was encoded\<close>

lemma be_val_be_min: "be_val (be_min n) = n"
proof (induction n rule: be_min.induct)
  case (1 n)
  show ?case
  proof (cases "n = 0")
    case True
    then show ?thesis by (simp add: be_min.simps)
  next
    case False
    have "unat (of_nat (n mod 256) :: u8) = n mod 256" by (simp add: unat_of_nat)
    then show ?thesis using 1 False by (subst be_min.simps) simp
  qed
qed

lemma length_be_min: "n < 256 ^ k \<Longrightarrow> length (be_min n) \<le> k"
proof (induction k arbitrary: n)
  case 0
  then show ?case by (simp add: be_min.simps)
next
  case (Suc k)
  then have "n div 256 < 256 ^ k" by (simp add: less_mult_imp_div_less mult.commute)
  then show ?case using Suc.IH [of "n div 256"] by (subst be_min.simps) simp
qed

lemma be_min_Nil: "be_min n = [] \<longleftrightarrow> n = 0"
  by (subst be_min.simps) simp

lemma rlp_take_append [simp]: "rlp_take (length p) (p @ rest) = Some (p, rest)"
  by (simp add: rlp_take_def)

lemma rlp_take_long_append [simp]:
  "rlp_take_long (length (be_min (length p))) (be_min (length p) @ p @ rest) = Some (p, rest)"
  by (simp add: rlp_take_long_def be_val_be_min)

lemma unat_small: "n < 256 \<Longrightarrow> unat (of_nat n :: u8) = n"
  by (simp add: unat_of_nat)

lemma unat_add_small: "numeral w + n < 256 \<Longrightarrow> unat (numeral w + of_nat n :: u8) = numeral w + n"
  using unat_small [of "numeral w + n"] by simp

lemma rlp_split_head:
  assumes "length p < 2 ^ 64"
  shows "rlp_split (rlp_head 128 (length p) @ p @ rest) = Some (False, p, rest)"
    and "rlp_split (rlp_head 192 (length p) @ p @ rest) = Some (True, p, rest)"
proof -
  have ll: "length (be_min (length p)) \<le> 8" using assms by (intro length_be_min) simp
  have l0: "length p > 55 \<Longrightarrow> 0 < length (be_min (length p))" using be_min_Nil [of "length p"] by auto
  show "rlp_split (rlp_head 128 (length p) @ p @ rest) = Some (False, p, rest)"
    using ll l0 by (cases "length p \<le> 55") (simp_all add: rlp_head_def Let_def unat_add_small)
  show "rlp_split (rlp_head 192 (length p) @ p @ rest) = Some (True, p, rest)"
    using ll l0 by (cases "length p \<le> 55") (simp_all add: rlp_head_def Let_def unat_add_small)
qed

lemma rlp_head_nonempty: "0 < length (rlp_head base n)"
  by (simp add: rlp_head_def Let_def)

lemma rlp_head_not_Nil [simp]: "rlp_head base n \<noteq> []"
  by (simp add: rlp_head_def Let_def)

lemma rlp_enc_nonempty: "0 < length (rlp_enc it)"
  by (cases it) (auto simp: Let_def)

lemma rlp_dec_enc:
  "length (rlp_enc it) < 2 ^ 64 \<Longrightarrow> 2 * length (rlp_enc it) \<le> f \<Longrightarrow> rlp_dec f (rlp_enc it @ rest) = Some (it, rest)"
proof (induction it arbitrary: f rest)
  case (RStr bs)
  then obtain f' where f: "f = Suc f'" using rlp_enc_nonempty [of "RStr bs"] by (cases f) auto
  show ?case
  proof (cases "length bs = 1 \<and> unat (hd bs) < 128")
    case True
    then obtain b where "bs = [b]" by (cases bs) auto
    then show ?thesis using True f by simp
  next
    case False
    then have "length bs < 2 ^ 64" using RStr.prems by (auto split: if_splits)
    then show ?thesis using False f rlp_split_head(1) [of bs rest] by auto
  qed
next
  case (RList its)
  let ?p = "concat (map rlp_enc its)"
  have len: "length (rlp_enc (RList its)) = length (rlp_head 192 (length ?p)) + length ?p"
    by (simp add: Let_def)
  then obtain f' where f: "f = Suc f'" "2 * length ?p + 1 \<le> f'"
    using RList.prems rlp_head_nonempty [of 192 "length ?p"] by (cases f) auto
  have "rlp_dec_list g (concat (map rlp_enc xs)) = Some xs"
    if "set xs \<subseteq> set its" "length (concat (map rlp_enc xs)) < 2 ^ 64" "2 * length (concat (map rlp_enc xs)) + 1 \<le> g" for xs g
    using that
  proof (induction xs arbitrary: g)
    case Nil
    then show ?case by (cases g) auto
  next
    case (Cons x xs)
    obtain g' where g: "g = Suc g'" using Cons.prems(3) by (cases g) auto
    have ne: "0 < length (rlp_enc x)" by (rule rlp_enc_nonempty)
    have "rlp_dec g' (rlp_enc x @ concat (map rlp_enc xs)) = Some (x, concat (map rlp_enc xs))"
      using Cons.prems g by (intro RList.IH) auto
    moreover have "2 * length (concat (map rlp_enc xs)) + 1 \<le> g'"
      using Cons.prems(3) ne unfolding g list.map concat.simps length_append by arith
    then have "rlp_dec_list g' (concat (map rlp_enc xs)) = Some xs"
      using Cons.prems(1,2) by (intro Cons.IH) auto
    ultimately show ?case using g ne by auto
  qed
  then have "rlp_dec_list f' ?p = Some its" using RList.prems(1) f(2) len by auto
  moreover have "length ?p < 2 ^ 64" using RList.prems(1) len by linarith
  ultimately show ?case using f(1) rlp_split_head(2) [of ?p rest] by (simp add: Let_def del: rlp_split.simps)
qed

subsection \<open>The instance\<close>

definition plain_mask :: "bytes \<Rightarrow> bytes" where
  "plain_mask x = take 256 (x @ replicate 256 0)"

definition plain_accrue :: "bloom \<Rightarrow> bytes \<Rightarrow> bloom" where
  "plain_accrue bl x = map2 or bl (plain_mask x)"

definition plain_contains :: "bloom \<Rightarrow> bytes \<Rightarrow> bool" where
  "plain_contains bl x \<longleftrightarrow> plain_accrue bl x = take 256 bl"

definition plain_eth :: eth where
  "plain_eth =
     \<lparr>rlp_encode = rlp_enc,
      rlp_decode = (\<lambda>buf. case rlp_dec (2 * length buf + 1) buf of None \<Rightarrow> Inl RlpInputTooShort | Some r \<Rightarrow> Inr r),
      keccak256 = (\<lambda>bs. take 32 (bs @ replicate 32 0)),
      bloom_accrue = plain_accrue, bloom_contains = plain_contains,
      trie_root = (\<lambda>ls. take 32 (concat (map (\<lambda>(k, v). k @ v) ls) @ replicate 32 0))\<rparr>"

lemma length_plain_mask [simp]: "length (plain_mask x) = 256"
  by (simp add: plain_mask_def)

lemma nth_plain_accrue: "i < length bl \<Longrightarrow> i < 256 \<Longrightarrow> plain_accrue bl x ! i = or (bl ! i) (plain_mask x ! i)"
  by (simp add: plain_accrue_def)

lemma length_plain_accrue [simp]: "length (plain_accrue bl x) = min (length bl) 256"
  by (simp add: plain_accrue_def)

lemma plain_contains_iff:
  "plain_contains bl x \<longleftrightarrow> (\<forall>i < min (length bl) 256. or (bl ! i) (plain_mask x ! i) = bl ! i)"
  by (auto simp: plain_contains_def list_eq_iff_nth_eq nth_plain_accrue)

interpretation plain: eth_crates plain_eth
proof (unfold_locales, goal_cases)
  case (1 it rest)
  then have "rlp_dec (2 * length (rlp_enc it @ rest) + 1) (rlp_enc it @ rest) = Some (it, rest)"
    by (intro rlp_dec_enc) (simp_all add: plain_eth_def)
  then show ?case by (simp only: plain_eth_def eth.simps option.case)
next
  case (2 its)
  let ?p = "concat (map rlp_enc its)"
  have "length ?p < 2 ^ 64" using 2 by (simp add: plain_eth_def Let_def)
  then have "length (be_min (length ?p)) \<le> 8" by (intro length_be_min) simp
  then show ?case
    by (cases "length ?p \<le> 55") (simp_all add: plain_eth_def rlp_head_def Let_def word_le_nat_alt unat_add_small)
next
  case 3
  show ?case by (simp add: plain_eth_def rlp_head_def)
next
  case (4 bs)
  then show ?case by (simp add: plain_eth_def rlp_head_def)
next
  case (5 bl x)
  show ?case by (simp add: plain_eth_def plain_contains_iff nth_plain_accrue or.assoc)
next
  case (6 bl y x)
  have "or (or (bl ! i) m) (plain_mask y ! i) = or (bl ! i) m" if "i < min (length bl) 256" for i m
  proof -
    have "or (bl ! i) (plain_mask y ! i) = bl ! i" using 6 that by (simp add: plain_eth_def plain_contains_iff)
    moreover have "or (or (bl ! i) m) (plain_mask y ! i) = or (or (bl ! i) (plain_mask y ! i)) m"
      by (simp only: or.assoc or.commute [of m])
    ultimately show ?thesis by simp
  qed
  then show ?case by (simp add: plain_eth_def plain_contains_iff nth_plain_accrue)
qed

subsection \<open>A bound on encoded sizes\<close>

fun rlp_size :: "rlp_item \<Rightarrow> nat" where
  "rlp_size (RStr bs) = 2 * length bs + 1"
| "rlp_size (RList its) = 2 * sum_list (map rlp_size its) + 1"

lemma length_be_min_le: "length (be_min n) \<le> n"
proof (induction n rule: be_min.induct)
  case (1 n)
  show ?case
  proof (cases "n = 0")
    case True
    then show ?thesis by (simp add: be_min.simps)
  next
    case False
    then have "n div 256 < n" by simp
    then show ?thesis using 1 False by (subst be_min.simps) simp
  qed
qed

lemma length_rlp_head: "length (rlp_head base n) \<le> n + 1"
  using length_be_min_le [of n] by (simp add: rlp_head_def Let_def)

lemma length_rlp_enc: "length (rlp_enc it) \<le> rlp_size it"
proof (induction it)
  case (RStr bs)
  then show ?case using length_rlp_head [of 128 "length bs"] by simp
next
  case (RList its)
  then have "length (concat (map rlp_enc its)) \<le> sum_list (map rlp_size its)"
    by (induction its) (auto intro: add_mono)
  then show ?case using length_rlp_head [of 192 "length (concat (map rlp_enc its))"] by (simp add: Let_def)
qed

lemma rlp_size_fields:
  "rlp_size (u64_item n) \<le> 17" "rlp_size (u256_item x) \<le> 65" "rlp_size (u8_item k) \<le> 3"
proof -
  have "length (strip_zeros bs) \<le> length bs" for bs by (induction bs rule: strip_zeros.induct) auto
  from this [of "u256_to_be_bytes x"] show "rlp_size (u256_item x) \<le> 65"
    using length_dropWhile_be [of "\<lambda>b. b = 0" 0] by (simp add: u256_item_def u64_item_def)
qed (use length_dropWhile_be [of "\<lambda>b. b = 0" n] in \<open>simp_all add: u64_item_def u8_item_def\<close>)

end
