(* ===== verification/Tx_Codec.thy ===== *)
theory Tx_Codec
  imports Rlp_Instance
begin

section \<open>Transactions and their EIP-2718 encoding\<close>

text \<open>
  bertha-types/src/transaction: the five kinds of transactions as structs of their own, the
  conversions from and to the common \<open>transaction\<close>, and \<open>marshal\<close> and
  \<open>unmarshal\<close>. The derived RLP code of a struct encodes its fields in order as a list and
  decodes a list of exactly as many items. Shown: a valid transaction is unmarshalled to itself,
  less the fields that its kind does not have; an invalid one is encoded such that decoding
  fails; validity is the condition under which every conversion succeeds.
\<close>

subsection \<open>Access lists and authorizations\<close>

definition access_list_entry_item :: "access_list_entry \<Rightarrow> rlp_item" where
  "access_list_entry_item a = RList [RStr (ale_address a), list_item RStr (ale_storage_keys a)]"

definition item_access_list_entry :: "rlp_item \<Rightarrow> rlp_error + access_list_entry" where
  "item_access_list_entry it =
     res_bind (item_fields 2 it) (\<lambda>fs.
     res_bind (item_array 20 (fs ! 0)) (\<lambda>address.
     res_bind (item_list (item_array 32) (fs ! 1)) (\<lambda>storage_keys.
       Inr \<lparr>ale_address = address, ale_storage_keys = storage_keys\<rparr>)))"

definition authorization_item :: "set_code_authorization \<Rightarrow> rlp_item" where
  "authorization_item a =
     RList [u256_item (sca_chain_id a), RStr (sca_address a), u64_item (sca_nonce a),
            u8_item (sca_y_parity a), u256_item (sca_r a), u256_item (sca_s a)]"

definition item_authorization :: "rlp_item \<Rightarrow> rlp_error + set_code_authorization" where
  "item_authorization it =
     res_bind (item_fields 6 it) (\<lambda>fs.
     res_bind (item_u256 (fs ! 0)) (\<lambda>chain_id.
     res_bind (item_array 20 (fs ! 1)) (\<lambda>address.
     res_bind (item_u64 (fs ! 2)) (\<lambda>nonce.
     res_bind (item_u8 (fs ! 3)) (\<lambda>y_parity.
     res_bind (item_u256 (fs ! 4)) (\<lambda>r.
     res_bind (item_u256 (fs ! 5)) (\<lambda>s.
       Inr \<lparr>sca_chain_id = chain_id, sca_address = address, sca_nonce = nonce,
            sca_y_parity = y_parity, sca_r = r, sca_s = s\<rparr>)))))))"

subsection \<open>Legacy transactions\<close>

record legacy_tx =
  ltx_nonce :: u64
  ltx_gas_price :: u256
  ltx_gas_limit :: u64
  ltx_to :: "address option"
  ltx_value :: u256
  ltx_data :: bytes
  ltx_w :: u256
  ltx_r :: u256
  ltx_s :: u256

definition legacy_is_constructible_from :: "transaction \<Rightarrow> transaction_error + unit" where
  "legacy_is_constructible_from tx =
     (if tx_transaction_type tx \<noteq> Legacy
      then Inl (ConversionError (ExpectedFound Legacy (tx_transaction_type tx)))
      else Inr ())"

definition legacy_try_from :: "transaction \<Rightarrow> transaction_error + legacy_tx" where
  "legacy_try_from tx =
     map_ok (\<lambda>_.
       \<lparr>ltx_nonce = tx_nonce tx, ltx_gas_price = tx_gas_price tx,
        ltx_gas_limit = tx_gas_limit tx, ltx_to = tx_to tx, ltx_value = tx_value tx,
        ltx_data = tx_data tx, ltx_w = tx_y_parity tx, ltx_r = tx_r tx, ltx_s = tx_s tx\<rparr>)
       (legacy_is_constructible_from tx)"

definition transaction_of_legacy :: "legacy_tx \<Rightarrow> transaction" where
  "transaction_of_legacy tx =
     \<lparr>tx_transaction_type = Legacy, tx_chain_id = 0, tx_nonce = ltx_nonce tx,
      tx_gas_price = ltx_gas_price tx, tx_gas_limit = ltx_gas_limit tx, tx_to = ltx_to tx,
      tx_value = ltx_value tx, tx_data = ltx_data tx, tx_access_list = [],
      tx_max_fee_per_gas = 0, tx_max_priority_fee_per_gas = 0, tx_blob_versioned_hashes = [],
      tx_max_fee_per_blob_gas = 0, tx_authorization_list = [], tx_y_parity = ltx_w tx,
      tx_r = ltx_r tx, tx_s = ltx_s tx\<rparr>"

definition legacy_item :: "legacy_tx \<Rightarrow> rlp_item" where
  "legacy_item tx =
     RList [u64_item (ltx_nonce tx), u256_item (ltx_gas_price tx), u64_item (ltx_gas_limit tx),
            rlp_nil_item RStr (ltx_to tx), u256_item (ltx_value tx), rlp_string_item (ltx_data tx),
            u256_item (ltx_w tx), u256_item (ltx_r tx), u256_item (ltx_s tx)]"

definition item_legacy :: "rlp_item \<Rightarrow> rlp_error + legacy_tx" where
  "item_legacy it =
     res_bind (item_fields 9 it) (\<lambda>fs.
     res_bind (item_u64 (fs ! 0)) (\<lambda>nonce.
     res_bind (item_u256 (fs ! 1)) (\<lambda>gas_price.
     res_bind (item_u64 (fs ! 2)) (\<lambda>gas_limit.
     res_bind (item_rlp_nil (item_array 20) (fs ! 3)) (\<lambda>to.
     res_bind (item_u256 (fs ! 4)) (\<lambda>val.
     res_bind (item_rlp_string (fs ! 5)) (\<lambda>data.
     res_bind (item_u256 (fs ! 6)) (\<lambda>w.
     res_bind (item_u256 (fs ! 7)) (\<lambda>r.
     res_bind (item_u256 (fs ! 8)) (\<lambda>s.
       Inr \<lparr>ltx_nonce = nonce, ltx_gas_price = gas_price, ltx_gas_limit = gas_limit, ltx_to = to,
            ltx_value = val, ltx_data = data, ltx_w = w, ltx_r = r, ltx_s = s\<rparr>))))))))))"

subsection \<open>Access list transactions\<close>

record access_list_tx =
  atx_chain_id :: u256
  atx_nonce :: u64
  atx_gas_price :: u256
  atx_gas_limit :: u64
  atx_to :: "address option"
  atx_value :: u256
  atx_data :: bytes
  atx_access_list :: "access_list_entry list"
  atx_y_parity :: u256
  atx_r :: u256
  atx_s :: u256

definition access_list_is_constructible_from :: "transaction \<Rightarrow> transaction_error + unit" where
  "access_list_is_constructible_from tx =
     (if tx_transaction_type tx \<noteq> AccessList
      then Inl (ConversionError (ExpectedFound AccessList (tx_transaction_type tx)))
      else Inr ())"

definition access_list_try_from :: "transaction \<Rightarrow> transaction_error + access_list_tx" where
  "access_list_try_from tx =
     map_ok (\<lambda>_.
       \<lparr>atx_chain_id = tx_chain_id tx, atx_nonce = tx_nonce tx,
        atx_gas_price = tx_gas_price tx, atx_gas_limit = tx_gas_limit tx, atx_to = tx_to tx,
        atx_value = tx_value tx, atx_data = tx_data tx, atx_access_list = tx_access_list tx,
        atx_y_parity = tx_y_parity tx, atx_r = tx_r tx, atx_s = tx_s tx\<rparr>)
       (access_list_is_constructible_from tx)"

definition transaction_of_access_list :: "access_list_tx \<Rightarrow> transaction" where
  "transaction_of_access_list tx =
     \<lparr>tx_transaction_type = AccessList, tx_chain_id = atx_chain_id tx,
      tx_nonce = atx_nonce tx, tx_gas_price = atx_gas_price tx,
      tx_gas_limit = atx_gas_limit tx, tx_to = atx_to tx, tx_value = atx_value tx,
      tx_data = atx_data tx, tx_access_list = atx_access_list tx, tx_max_fee_per_gas = 0,
      tx_max_priority_fee_per_gas = 0, tx_blob_versioned_hashes = [],
      tx_max_fee_per_blob_gas = 0, tx_authorization_list = [], tx_y_parity = atx_y_parity tx,
      tx_r = atx_r tx, tx_s = atx_s tx\<rparr>"

definition access_list_item :: "access_list_tx \<Rightarrow> rlp_item" where
  "access_list_item tx =
     RList [u256_item (atx_chain_id tx), u64_item (atx_nonce tx), u256_item (atx_gas_price tx),
            u64_item (atx_gas_limit tx), rlp_nil_item RStr (atx_to tx), u256_item (atx_value tx),
            rlp_string_item (atx_data tx), list_item access_list_entry_item (atx_access_list tx),
            u256_item (atx_y_parity tx), u256_item (atx_r tx), u256_item (atx_s tx)]"

definition item_access_list :: "rlp_item \<Rightarrow> rlp_error + access_list_tx" where
  "item_access_list it =
     res_bind (item_fields 11 it) (\<lambda>fs.
     res_bind (item_u256 (fs ! 0)) (\<lambda>chain_id.
     res_bind (item_u64 (fs ! 1)) (\<lambda>nonce.
     res_bind (item_u256 (fs ! 2)) (\<lambda>gas_price.
     res_bind (item_u64 (fs ! 3)) (\<lambda>gas_limit.
     res_bind (item_rlp_nil (item_array 20) (fs ! 4)) (\<lambda>to.
     res_bind (item_u256 (fs ! 5)) (\<lambda>val.
     res_bind (item_rlp_string (fs ! 6)) (\<lambda>data.
     res_bind (item_list item_access_list_entry (fs ! 7)) (\<lambda>access_list.
     res_bind (item_u256 (fs ! 8)) (\<lambda>y_parity.
     res_bind (item_u256 (fs ! 9)) (\<lambda>r.
     res_bind (item_u256 (fs ! 10)) (\<lambda>s.
       Inr \<lparr>atx_chain_id = chain_id, atx_nonce = nonce, atx_gas_price = gas_price,
            atx_gas_limit = gas_limit, atx_to = to, atx_value = val, atx_data = data,
            atx_access_list = access_list, atx_y_parity = y_parity, atx_r = r, atx_s = s\<rparr>))))))))))))"

subsection \<open>Dynamic fee transactions\<close>

record dynamic_fee_tx =
  dtx_chain_id :: u256
  dtx_nonce :: u64
  dtx_max_priority_fee_per_gas :: u256
  dtx_max_fee_per_gas :: u256
  dtx_gas_limit :: u64
  dtx_to :: "address option"
  dtx_value :: u256
  dtx_data :: bytes
  dtx_access_list :: "access_list_entry list"
  dtx_y_parity :: u256
  dtx_r :: u256
  dtx_s :: u256

definition dynamic_fee_is_constructible_from :: "transaction \<Rightarrow> transaction_error + unit" where
  "dynamic_fee_is_constructible_from tx =
     (if tx_transaction_type tx \<noteq> DynamicFee
      then Inl (ConversionError (ExpectedFound DynamicFee (tx_transaction_type tx)))
      else Inr ())"

definition dynamic_fee_try_from :: "transaction \<Rightarrow> transaction_error + dynamic_fee_tx" where
  "dynamic_fee_try_from tx =
     map_ok (\<lambda>_.
       \<lparr>dtx_chain_id = tx_chain_id tx, dtx_nonce = tx_nonce tx,
        dtx_max_priority_fee_per_gas = tx_max_priority_fee_per_gas tx,
        dtx_max_fee_per_gas = tx_max_fee_per_gas tx, dtx_gas_limit = tx_gas_limit tx,
        dtx_to = tx_to tx, dtx_value = tx_value tx, dtx_data = tx_data tx,
        dtx_access_list = tx_access_list tx, dtx_y_parity = tx_y_parity tx, dtx_r = tx_r tx,
        dtx_s = tx_s tx\<rparr>)
       (dynamic_fee_is_constructible_from tx)"

definition transaction_of_dynamic_fee :: "dynamic_fee_tx \<Rightarrow> transaction" where
  "transaction_of_dynamic_fee tx =
     \<lparr>tx_transaction_type = DynamicFee, tx_chain_id = dtx_chain_id tx,
      tx_nonce = dtx_nonce tx, tx_gas_price = 0, tx_gas_limit = dtx_gas_limit tx,
      tx_to = dtx_to tx, tx_value = dtx_value tx, tx_data = dtx_data tx,
      tx_access_list = dtx_access_list tx, tx_max_fee_per_gas = dtx_max_fee_per_gas tx,
      tx_max_priority_fee_per_gas = dtx_max_priority_fee_per_gas tx,
      tx_blob_versioned_hashes = [], tx_max_fee_per_blob_gas = 0, tx_authorization_list = [],
      tx_y_parity = dtx_y_parity tx, tx_r = dtx_r tx, tx_s = dtx_s tx\<rparr>"

definition dynamic_fee_item :: "dynamic_fee_tx \<Rightarrow> rlp_item" where
  "dynamic_fee_item tx =
     RList [u256_item (dtx_chain_id tx), u64_item (dtx_nonce tx),
            u256_item (dtx_max_priority_fee_per_gas tx), u256_item (dtx_max_fee_per_gas tx),
            u64_item (dtx_gas_limit tx), rlp_nil_item RStr (dtx_to tx), u256_item (dtx_value tx),
            rlp_string_item (dtx_data tx), list_item access_list_entry_item (dtx_access_list tx),
            u256_item (dtx_y_parity tx), u256_item (dtx_r tx), u256_item (dtx_s tx)]"

definition item_dynamic_fee :: "rlp_item \<Rightarrow> rlp_error + dynamic_fee_tx" where
  "item_dynamic_fee it =
     res_bind (item_fields 12 it) (\<lambda>fs.
     res_bind (item_u256 (fs ! 0)) (\<lambda>chain_id.
     res_bind (item_u64 (fs ! 1)) (\<lambda>nonce.
     res_bind (item_u256 (fs ! 2)) (\<lambda>max_priority_fee_per_gas.
     res_bind (item_u256 (fs ! 3)) (\<lambda>max_fee_per_gas.
     res_bind (item_u64 (fs ! 4)) (\<lambda>gas_limit.
     res_bind (item_rlp_nil (item_array 20) (fs ! 5)) (\<lambda>to.
     res_bind (item_u256 (fs ! 6)) (\<lambda>val.
     res_bind (item_rlp_string (fs ! 7)) (\<lambda>data.
     res_bind (item_list item_access_list_entry (fs ! 8)) (\<lambda>access_list.
     res_bind (item_u256 (fs ! 9)) (\<lambda>y_parity.
     res_bind (item_u256 (fs ! 10)) (\<lambda>r.
     res_bind (item_u256 (fs ! 11)) (\<lambda>s.
       Inr \<lparr>dtx_chain_id = chain_id, dtx_nonce = nonce,
            dtx_max_priority_fee_per_gas = max_priority_fee_per_gas,
            dtx_max_fee_per_gas = max_fee_per_gas, dtx_gas_limit = gas_limit, dtx_to = to,
            dtx_value = val, dtx_data = data, dtx_access_list = access_list,
            dtx_y_parity = y_parity, dtx_r = r, dtx_s = s\<rparr>)))))))))))))"

subsection \<open>Blob transactions\<close>

record blob_tx =
  btx_chain_id :: u256
  btx_nonce :: u64
  btx_max_priority_fee_per_gas :: u256
  btx_max_fee_per_gas :: u256
  btx_gas_limit :: u64
  btx_to :: address
  btx_value :: u256
  btx_data :: bytes
  btx_access_list :: "access_list_entry list"
  btx_max_fee_per_blob_gas :: u256
  btx_blob_versioned_hashes :: "hash list"
  btx_y_parity :: u256
  btx_r :: u256
  btx_s :: u256

definition blob_is_constructible_from :: "transaction \<Rightarrow> transaction_error + unit" where
  "blob_is_constructible_from tx =
     (if tx_transaction_type tx \<noteq> Blob
      then Inl (ConversionError (ExpectedFound Blob (tx_transaction_type tx)))
      else if tx_to tx = None then Inl (ConversionError (RequiresTo Blob))
      else Inr ())"

definition blob_try_from :: "transaction \<Rightarrow> transaction_error + blob_tx" where
  "blob_try_from tx =
     map_ok (\<lambda>_.
       \<lparr>btx_chain_id = tx_chain_id tx, btx_nonce = tx_nonce tx,
        btx_max_priority_fee_per_gas = tx_max_priority_fee_per_gas tx,
        btx_max_fee_per_gas = tx_max_fee_per_gas tx, btx_gas_limit = tx_gas_limit tx,
        btx_to = the (tx_to tx), btx_value = tx_value tx, btx_data = tx_data tx,
        btx_access_list = tx_access_list tx,
        btx_max_fee_per_blob_gas = tx_max_fee_per_blob_gas tx,
        btx_blob_versioned_hashes = tx_blob_versioned_hashes tx, btx_y_parity = tx_y_parity tx,
        btx_r = tx_r tx, btx_s = tx_s tx\<rparr>)
       (blob_is_constructible_from tx)"

definition transaction_of_blob :: "blob_tx \<Rightarrow> transaction" where
  "transaction_of_blob tx =
     \<lparr>tx_transaction_type = Blob, tx_chain_id = btx_chain_id tx, tx_nonce = btx_nonce tx,
      tx_gas_price = 0, tx_gas_limit = btx_gas_limit tx, tx_to = Some (btx_to tx),
      tx_value = btx_value tx, tx_data = btx_data tx, tx_access_list = btx_access_list tx,
      tx_max_fee_per_gas = btx_max_fee_per_gas tx,
      tx_max_priority_fee_per_gas = btx_max_priority_fee_per_gas tx,
      tx_blob_versioned_hashes = btx_blob_versioned_hashes tx,
      tx_max_fee_per_blob_gas = btx_max_fee_per_blob_gas tx, tx_authorization_list = [],
      tx_y_parity = btx_y_parity tx, tx_r = btx_r tx, tx_s = btx_s tx\<rparr>"

definition blob_item :: "blob_tx \<Rightarrow> rlp_item" where
  "blob_item tx =
     RList [u256_item (btx_chain_id tx), u64_item (btx_nonce tx),
            u256_item (btx_max_priority_fee_per_gas tx), u256_item (btx_max_fee_per_gas tx),
            u64_item (btx_gas_limit tx), RStr (btx_to tx), u256_item (btx_value tx),
            rlp_string_item (btx_data tx), list_item access_list_entry_item (btx_access_list tx),
            u256_item (btx_max_fee_per_blob_gas tx), list_item RStr (btx_blob_versioned_hashes tx),
            u256_item (btx_y_parity tx), u256_item (btx_r tx), u256_item (btx_s tx)]"

definition item_blob :: "rlp_item \<Rightarrow> rlp_error + blob_tx" where
  "item_blob it =
     res_bind (item_fields 14 it) (\<lambda>fs.
     res_bind (item_u256 (fs ! 0)) (\<lambda>chain_id.
     res_bind (item_u64 (fs ! 1)) (\<lambda>nonce.
     res_bind (item_u256 (fs ! 2)) (\<lambda>max_priority_fee_per_gas.
     res_bind (item_u256 (fs ! 3)) (\<lambda>max_fee_per_gas.
     res_bind (item_u64 (fs ! 4)) (\<lambda>gas_limit.
     res_bind (item_array 20 (fs ! 5)) (\<lambda>to.
     res_bind (item_u256 (fs ! 6)) (\<lambda>val.
     res_bind (item_rlp_string (fs ! 7)) (\<lambda>data.
     res_bind (item_list item_access_list_entry (fs ! 8)) (\<lambda>access_list.
     res_bind (item_u256 (fs ! 9)) (\<lambda>max_fee_per_blob_gas.
     res_bind (item_list (item_array 32) (fs ! 10)) (\<lambda>blob_versioned_hashes.
     res_bind (item_u256 (fs ! 11)) (\<lambda>y_parity.
     res_bind (item_u256 (fs ! 12)) (\<lambda>r.
     res_bind (item_u256 (fs ! 13)) (\<lambda>s.
       Inr \<lparr>btx_chain_id = chain_id, btx_nonce = nonce,
            btx_max_priority_fee_per_gas = max_priority_fee_per_gas,
            btx_max_fee_per_gas = max_fee_per_gas, btx_gas_limit = gas_limit, btx_to = to,
            btx_value = val, btx_data = data, btx_access_list = access_list,
            btx_max_fee_per_blob_gas = max_fee_per_blob_gas,
            btx_blob_versioned_hashes = blob_versioned_hashes, btx_y_parity = y_parity, btx_r = r,
            btx_s = s\<rparr>)))))))))))))))"

subsection \<open>Set code transactions\<close>

record set_code_tx =
  stx_chain_id :: u256
  stx_nonce :: u64
  stx_max_priority_fee_per_gas :: u256
  stx_max_fee_per_gas :: u256
  stx_gas_limit :: u64
  stx_to :: address
  stx_value :: u256
  stx_data :: bytes
  stx_access_list :: "access_list_entry list"
  stx_authorization_list :: "set_code_authorization list"
  stx_y_parity :: u256
  stx_r :: u256
  stx_s :: u256

definition set_code_is_constructible_from :: "transaction \<Rightarrow> transaction_error + unit" where
  "set_code_is_constructible_from tx =
     (if tx_transaction_type tx \<noteq> SetCode
      then Inl (ConversionError (ExpectedFound SetCode (tx_transaction_type tx)))
      else if tx_to tx = None then Inl (ConversionError (RequiresTo SetCode))
      else Inr ())"

definition set_code_try_from :: "transaction \<Rightarrow> transaction_error + set_code_tx" where
  "set_code_try_from tx =
     map_ok (\<lambda>_.
       \<lparr>stx_chain_id = tx_chain_id tx, stx_nonce = tx_nonce tx,
        stx_max_priority_fee_per_gas = tx_max_priority_fee_per_gas tx,
        stx_max_fee_per_gas = tx_max_fee_per_gas tx, stx_gas_limit = tx_gas_limit tx,
        stx_to = the (tx_to tx), stx_value = tx_value tx, stx_data = tx_data tx,
        stx_access_list = tx_access_list tx, stx_authorization_list = tx_authorization_list tx,
        stx_y_parity = tx_y_parity tx, stx_r = tx_r tx, stx_s = tx_s tx\<rparr>)
       (set_code_is_constructible_from tx)"

definition transaction_of_set_code :: "set_code_tx \<Rightarrow> transaction" where
  "transaction_of_set_code tx =
     \<lparr>tx_transaction_type = SetCode, tx_chain_id = stx_chain_id tx, tx_nonce = stx_nonce tx,
      tx_gas_price = 0, tx_gas_limit = stx_gas_limit tx, tx_to = Some (stx_to tx),
      tx_value = stx_value tx, tx_data = stx_data tx, tx_access_list = stx_access_list tx,
      tx_max_fee_per_gas = stx_max_fee_per_gas tx,
      tx_max_priority_fee_per_gas = stx_max_priority_fee_per_gas tx,
      tx_blob_versioned_hashes = [], tx_max_fee_per_blob_gas = 0,
      tx_authorization_list = stx_authorization_list tx, tx_y_parity = stx_y_parity tx,
      tx_r = stx_r tx, tx_s = stx_s tx\<rparr>"

definition set_code_item :: "set_code_tx \<Rightarrow> rlp_item" where
  "set_code_item tx =
     RList [u256_item (stx_chain_id tx), u64_item (stx_nonce tx),
            u256_item (stx_max_priority_fee_per_gas tx), u256_item (stx_max_fee_per_gas tx),
            u64_item (stx_gas_limit tx), RStr (stx_to tx), u256_item (stx_value tx),
            rlp_string_item (stx_data tx), list_item access_list_entry_item (stx_access_list tx),
            list_item authorization_item (stx_authorization_list tx), u256_item (stx_y_parity tx),
            u256_item (stx_r tx), u256_item (stx_s tx)]"

definition item_set_code :: "rlp_item \<Rightarrow> rlp_error + set_code_tx" where
  "item_set_code it =
     res_bind (item_fields 13 it) (\<lambda>fs.
     res_bind (item_u256 (fs ! 0)) (\<lambda>chain_id.
     res_bind (item_u64 (fs ! 1)) (\<lambda>nonce.
     res_bind (item_u256 (fs ! 2)) (\<lambda>max_priority_fee_per_gas.
     res_bind (item_u256 (fs ! 3)) (\<lambda>max_fee_per_gas.
     res_bind (item_u64 (fs ! 4)) (\<lambda>gas_limit.
     res_bind (item_array 20 (fs ! 5)) (\<lambda>to.
     res_bind (item_u256 (fs ! 6)) (\<lambda>val.
     res_bind (item_rlp_string (fs ! 7)) (\<lambda>data.
     res_bind (item_list item_access_list_entry (fs ! 8)) (\<lambda>access_list.
     res_bind (item_list item_authorization (fs ! 9)) (\<lambda>authorization_list.
     res_bind (item_u256 (fs ! 10)) (\<lambda>y_parity.
     res_bind (item_u256 (fs ! 11)) (\<lambda>r.
     res_bind (item_u256 (fs ! 12)) (\<lambda>s.
       Inr \<lparr>stx_chain_id = chain_id, stx_nonce = nonce,
            stx_max_priority_fee_per_gas = max_priority_fee_per_gas,
            stx_max_fee_per_gas = max_fee_per_gas, stx_gas_limit = gas_limit, stx_to = to,
            stx_value = val, stx_data = data, stx_access_list = access_list,
            stx_authorization_list = authorization_list, stx_y_parity = y_parity, stx_r = r,
            stx_s = s\<rparr>))))))))))))))"

subsection \<open>Validity, marshal and unmarshal\<close>

definition is_valid :: "transaction \<Rightarrow> transaction_error + unit" where
  "is_valid tx =
     (case tx_transaction_type tx of
        Legacy \<Rightarrow> legacy_is_constructible_from tx
      | DynamicFee \<Rightarrow> dynamic_fee_is_constructible_from tx
      | AccessList \<Rightarrow> access_list_is_constructible_from tx
      | Blob \<Rightarrow> blob_is_constructible_from tx
      | SetCode \<Rightarrow> set_code_is_constructible_from tx)"

definition encode_with_type :: "eth \<Rightarrow> transaction_type \<Rightarrow> rlp_item \<Rightarrow> bytes" where
  "encode_with_type E t it = transaction_type_as_u8 t # rlp_encode E it"

definition or_empty_string :: "eth \<Rightarrow> transaction_error + bytes \<Rightarrow> bytes" where
  "or_empty_string E r = (case r of Inr out \<Rightarrow> out | Inl _ \<Rightarrow> rlp_encode E (RStr []))"

definition transaction_marshal :: "eth \<Rightarrow> transaction \<Rightarrow> bytes" where
  "transaction_marshal E tx =
     or_empty_string E
       (case tx_transaction_type tx of
          Legacy \<Rightarrow> map_ok (\<lambda>t. rlp_encode E (legacy_item t)) (legacy_try_from tx)
        | AccessList \<Rightarrow> map_ok (\<lambda>t. encode_with_type E AccessList (access_list_item t)) (access_list_try_from tx)
        | DynamicFee \<Rightarrow> map_ok (\<lambda>t. encode_with_type E DynamicFee (dynamic_fee_item t)) (dynamic_fee_try_from tx)
        | Blob \<Rightarrow> map_ok (\<lambda>t. encode_with_type E Blob (blob_item t)) (blob_try_from tx)
        | SetCode \<Rightarrow> map_ok (\<lambda>t. encode_with_type E SetCode (set_code_item t)) (set_code_try_from tx))"

definition decode_transaction ::
  "eth \<Rightarrow> (rlp_item \<Rightarrow> rlp_error + 'a) \<Rightarrow> ('a \<Rightarrow> transaction) \<Rightarrow> bytes \<Rightarrow> rlp_error + transaction \<times> bytes" where
  "decode_transaction E f conv buf = map_ok (\<lambda>(t, rest). (conv t, rest)) (decode_with E f buf)"

definition transaction_unmarshal :: "eth \<Rightarrow> bytes \<Rightarrow> rlp_error + transaction \<times> bytes" where
  "transaction_unmarshal E buf =
     (case buf of
        [] \<Rightarrow> Inl RlpInputTooShort
      | ty # rest \<Rightarrow>
          if ty > 0x7f then decode_transaction E item_legacy transaction_of_legacy buf
          else if ty = 1 then decode_transaction E item_access_list transaction_of_access_list rest
          else if ty = 2 then decode_transaction E item_dynamic_fee transaction_of_dynamic_fee rest
          else if ty = 3 then decode_transaction E item_blob transaction_of_blob rest
          else if ty = 4 then decode_transaction E item_set_code transaction_of_set_code rest
          else Inl (RlpCustom ''invalid transaction type''))"

subsection \<open>Round trips\<close>

lemma item_access_list_entry_item [item_simps]:
  "wf_access_list_entry a \<Longrightarrow> item_access_list_entry (access_list_entry_item a) = Inr a"
  by (cases a) (auto simp: item_access_list_entry_def access_list_entry_item_def wf_access_list_entry_def
      item_simps list_all_iff)

lemma item_authorization_item [item_simps]:
  "wf_authorization a \<Longrightarrow> item_authorization (authorization_item a) = Inr a"
  by (cases a) (simp add: item_authorization_def authorization_item_def wf_authorization_def item_simps)

lemma item_lists [item_simps]:
  "list_all wf_access_list_entry as \<Longrightarrow> item_list item_access_list_entry (list_item access_list_entry_item as) = Inr as"
  "list_all wf_authorization us \<Longrightarrow> item_list item_authorization (list_item authorization_item us) = Inr us"
  "list_all (len_ok n) hs \<Longrightarrow> item_list (item_array n) (list_item RStr hs) = Inr hs"
  by (auto simp: list_all_iff intro!: item_list_item item_simps)

lemmas constructible_defs = legacy_is_constructible_from_def access_list_is_constructible_from_def
  dynamic_fee_is_constructible_from_def blob_is_constructible_from_def set_code_is_constructible_from_def

lemmas try_from_defs = legacy_try_from_def access_list_try_from_def dynamic_fee_try_from_def
  blob_try_from_def set_code_try_from_def

lemma item_legacy_item:
  "wf_transaction tx \<Longrightarrow> legacy_try_from tx = Inr t \<Longrightarrow> item_legacy (legacy_item t) = Inr t"
  by (auto simp: legacy_try_from_def wf_transaction_def item_legacy_def legacy_item_def item_simps)

lemma item_access_list_item:
  "wf_transaction tx \<Longrightarrow> access_list_try_from tx = Inr t \<Longrightarrow> item_access_list (access_list_item t) = Inr t"
  by (auto simp: access_list_try_from_def wf_transaction_def item_access_list_def access_list_item_def item_simps)

lemma item_dynamic_fee_item:
  "wf_transaction tx \<Longrightarrow> dynamic_fee_try_from tx = Inr t \<Longrightarrow> item_dynamic_fee (dynamic_fee_item t) = Inr t"
  by (auto simp: dynamic_fee_try_from_def wf_transaction_def item_dynamic_fee_def dynamic_fee_item_def item_simps)

lemma item_blob_item:
  "wf_transaction tx \<Longrightarrow> blob_try_from tx = Inr t \<Longrightarrow> item_blob (blob_item t) = Inr t"
  by (auto simp: blob_try_from_def blob_is_constructible_from_def wf_transaction_def item_blob_def blob_item_def
      item_simps split: if_splits)

lemma item_set_code_item:
  "wf_transaction tx \<Longrightarrow> set_code_try_from tx = Inr t \<Longrightarrow> item_set_code (set_code_item t) = Inr t"
  by (auto simp: set_code_try_from_def set_code_is_constructible_from_def wf_transaction_def item_set_code_def
      set_code_item_def item_simps split: if_splits)

text \<open>The fields a transaction keeps when it is converted to the struct of its kind and back.\<close>

definition kind_only :: "transaction \<Rightarrow> transaction" where
  "kind_only tx =
     (case tx_transaction_type tx of
        Legacy \<Rightarrow> tx\<lparr>tx_chain_id := 0, tx_access_list := [], tx_max_fee_per_gas := 0, tx_max_priority_fee_per_gas := 0,
          tx_blob_versioned_hashes := [], tx_max_fee_per_blob_gas := 0, tx_authorization_list := []\<rparr>
      | AccessList \<Rightarrow> tx\<lparr>tx_max_fee_per_gas := 0, tx_max_priority_fee_per_gas := 0,
          tx_blob_versioned_hashes := [], tx_max_fee_per_blob_gas := 0, tx_authorization_list := []\<rparr>
      | DynamicFee \<Rightarrow> tx\<lparr>tx_gas_price := 0, tx_blob_versioned_hashes := [], tx_max_fee_per_blob_gas := 0,
          tx_authorization_list := []\<rparr>
      | Blob \<Rightarrow> tx\<lparr>tx_gas_price := 0, tx_authorization_list := []\<rparr>
      | SetCode \<Rightarrow> tx\<lparr>tx_gas_price := 0, tx_blob_versioned_hashes := [], tx_max_fee_per_blob_gas := 0\<rparr>)"

lemma transaction_of_try_from:
  "legacy_try_from tx = Inr l \<Longrightarrow> transaction_of_legacy l = kind_only tx"
  "access_list_try_from tx = Inr a \<Longrightarrow> transaction_of_access_list a = kind_only tx"
  "dynamic_fee_try_from tx = Inr d \<Longrightarrow> transaction_of_dynamic_fee d = kind_only tx"
  "blob_try_from tx = Inr b \<Longrightarrow> transaction_of_blob b = kind_only tx"
  "set_code_try_from tx = Inr s \<Longrightarrow> transaction_of_set_code s = kind_only tx"
  by (cases tx; auto simp: try_from_defs constructible_defs kind_only_def transaction_of_legacy_def
      transaction_of_access_list_def transaction_of_dynamic_fee_def transaction_of_blob_def
      transaction_of_set_code_def split: if_splits)+

context eth_crates
begin

lemma decode_transaction_encode:
  assumes "length (rlp_encode E it) < 2 ^ 64" and "f it = Inr t" and "conv t = tx"
  shows "decode_transaction E f conv (rlp_encode E it @ rest) = Inr (tx, rest)"
  using decode_with_encode [where f = f, OF assms(1,2)] assms(3) by (simp add: decode_transaction_def)

lemma unmarshal_marshal:
  assumes wf: "wf_transaction tx" and valid: "is_valid tx = Inr ()" and len: "length (transaction_marshal E tx) < 2 ^ 64"
  shows "transaction_unmarshal E (transaction_marshal E tx @ rest) = Inr (kind_only tx, rest)"
proof (cases "tx_transaction_type tx")
  case Legacy
  then obtain t where t: "legacy_try_from tx = Inr t" by (auto simp: legacy_try_from_def constructible_defs)
  with Legacy have m: "transaction_marshal E tx = rlp_encode E (legacy_item t)"
    by (simp add: transaction_marshal_def or_empty_string_def)
  with len have l: "length (rlp_encode E (legacy_item t)) < 2 ^ 64" by simp
  then obtain b bs where b: "rlp_encode E (legacy_item t) = b # bs" "0xc0 \<le> b"
    using rlp_list_byte unfolding legacy_item_def by blast
  have "0x7f < (0xc0 :: u8)" by simp
  then have "b > 0x7f" using b(2) by (rule less_le_trans)
  moreover have "decode_transaction E item_legacy transaction_of_legacy (rlp_encode E (legacy_item t) @ rest) = Inr (kind_only tx, rest)"
    by (rule decode_transaction_encode [where f = item_legacy and conv = transaction_of_legacy, OF l item_legacy_item [OF wf t] transaction_of_try_from(1) [OF t]])
  ultimately show ?thesis using b(1) by (simp add: m transaction_unmarshal_def)
next
  case AccessList
  then obtain t where t: "access_list_try_from tx = Inr t" by (auto simp: access_list_try_from_def constructible_defs)
  with AccessList have m: "transaction_marshal E tx = 1 # rlp_encode E (access_list_item t)"
    by (simp add: transaction_marshal_def or_empty_string_def encode_with_type_def)
  with len have l: "length (rlp_encode E (access_list_item t)) < 2 ^ 64" by simp
  show ?thesis
    using decode_transaction_encode [where f = item_access_list and conv = transaction_of_access_list, OF l item_access_list_item [OF wf t] transaction_of_try_from(2) [OF t]]
    by (simp add: m transaction_unmarshal_def)
next
  case DynamicFee
  then obtain t where t: "dynamic_fee_try_from tx = Inr t" by (auto simp: dynamic_fee_try_from_def constructible_defs)
  with DynamicFee have m: "transaction_marshal E tx = 2 # rlp_encode E (dynamic_fee_item t)"
    by (simp add: transaction_marshal_def or_empty_string_def encode_with_type_def)
  with len have l: "length (rlp_encode E (dynamic_fee_item t)) < 2 ^ 64" by simp
  show ?thesis
    using decode_transaction_encode [where f = item_dynamic_fee and conv = transaction_of_dynamic_fee, OF l item_dynamic_fee_item [OF wf t] transaction_of_try_from(3) [OF t]]
    by (simp add: m transaction_unmarshal_def)
next
  case Blob
  with valid obtain t where t: "blob_try_from tx = Inr t" by (auto simp: is_valid_def blob_try_from_def)
  with Blob have m: "transaction_marshal E tx = 3 # rlp_encode E (blob_item t)"
    by (simp add: transaction_marshal_def or_empty_string_def encode_with_type_def)
  with len have l: "length (rlp_encode E (blob_item t)) < 2 ^ 64" by simp
  show ?thesis
    using decode_transaction_encode [where f = item_blob and conv = transaction_of_blob, OF l item_blob_item [OF wf t] transaction_of_try_from(4) [OF t]]
    by (simp add: m transaction_unmarshal_def)
next
  case SetCode
  with valid obtain t where t: "set_code_try_from tx = Inr t" by (auto simp: is_valid_def set_code_try_from_def)
  with SetCode have m: "transaction_marshal E tx = 4 # rlp_encode E (set_code_item t)"
    by (simp add: transaction_marshal_def or_empty_string_def encode_with_type_def)
  with len have l: "length (rlp_encode E (set_code_item t)) < 2 ^ 64" by simp
  show ?thesis
    using decode_transaction_encode [where f = item_set_code and conv = transaction_of_set_code, OF l item_set_code_item [OF wf t] transaction_of_try_from(5) [OF t]]
    by (simp add: m transaction_unmarshal_def)
qed

lemma unmarshal_invalid:
  assumes "is_valid tx = Inl e"
  shows "transaction_marshal E tx = [0x80] \<and> transaction_unmarshal E (transaction_marshal E tx @ rest) = Inl RlpUnexpectedString"
proof -
  have m: "transaction_marshal E tx = [0x80]"
    using assms by (auto simp: transaction_marshal_def or_empty_string_def is_valid_def try_from_defs rlp_empty_string
        split: transaction_type.splits)
  have "rlp_decode E (0x80 # rest) = Inr (RStr [], rest)"
    using rlp_roundtrip [of "RStr []" rest] by (simp add: rlp_empty_string)
  then have "decode_with E item_legacy (0x80 # rest) = Inl RlpUnexpectedString"
    by (simp add: decode_with_def item_legacy_def item_fields_def)
  then show ?thesis using m by (simp add: transaction_unmarshal_def decode_transaction_def)
qed

end

subsection \<open>Properties\<close>

text \<open>C22: unmarshalling the EIP-2718 encoding of a valid transaction of any of the five kinds
  gives the transaction back, less the fields that its kind does not have, and leaves exactly
  what follows the encoding in the buffer.\<close>

theorem transaction_roundtrip:
  assumes "eth_crates E" and "wf_transaction tx" and "is_valid tx = Inr ()"
    and "length (transaction_marshal E tx) < 2 ^ 64"
  shows "transaction_unmarshal E (transaction_marshal E tx @ rest) = Inr (kind_only tx, rest)"
  using eth_crates.unmarshal_marshal [OF assms] .

definition ex_tx :: transaction where
  "ex_tx = default_transaction\<lparr>tx_transaction_type := DynamicFee, tx_chain_id := 146, tx_nonce := 300,
     tx_max_fee_per_gas := 5, tx_data := [1, 2], tx_access_list := [\<lparr>ale_address = zero_bytes 20, ale_storage_keys = [zero_bytes 32]\<rparr>]\<rparr>"

theorem transaction_roundtrip_witness:
  "transaction_unmarshal plain_eth (transaction_marshal plain_eth ex_tx @ [9, 9]) = Inr (ex_tx, [9, 9])"
proof -
  have "wf_transaction ex_tx"
    by (simp add: wf_transaction_def ex_tx_def default_transaction_def wf_access_list_entry_def len_ok_def zero_bytes_def)
  moreover have "is_valid ex_tx = Inr ()" by code_simp
  moreover have "length (transaction_marshal plain_eth ex_tx) < 2 ^ 64"
  proof -
    obtain t where t: "dynamic_fee_try_from ex_tx = Inr t" "rlp_size (dynamic_fee_item t) \<le> 3000"
      using rlp_size_fields(1) [of 300] rlp_size_fields(1) [of 0] rlp_size_fields(2) [of 146] rlp_size_fields(2) [of 0] rlp_size_fields(2) [of 5]
      by (auto simp: dynamic_fee_try_from_def constructible_defs ex_tx_def default_transaction_def dynamic_fee_item_def
          rlp_nil_item_def rlp_string_item_def list_item_def access_list_entry_item_def zero_bytes_def)
    then have "length (transaction_marshal plain_eth ex_tx) \<le> 3001"
      using length_rlp_enc [of "dynamic_fee_item t"]
      by (simp add: transaction_marshal_def or_empty_string_def encode_with_type_def plain_eth_def ex_tx_def)
    then show ?thesis by simp
  qed
  ultimately have "transaction_unmarshal plain_eth (transaction_marshal plain_eth ex_tx @ [9, 9]) = Inr (kind_only ex_tx, [9, 9])"
    by (rule transaction_roundtrip [OF plain.eth_crates_axioms])
  moreover have "kind_only ex_tx = ex_tx" by (simp add: kind_only_def ex_tx_def default_transaction_def)
  ultimately show ?thesis by simp
qed

text \<open>A transaction that fails the validity check, which is one of the kinds blob and set
  code without a recipient, is marshalled to the RLP empty string, and unmarshalling that fails
  whatever follows it: invalid data is never ingested again as a transaction.\<close>

theorem invalid_transaction_rejected:
  assumes "eth_crates E"
  shows "(is_valid tx \<noteq> Inr () \<longleftrightarrow> tx_transaction_type tx \<in> {Blob, SetCode} \<and> tx_to tx = None) \<and>
    (is_valid tx \<noteq> Inr () \<longrightarrow> transaction_marshal E tx = [0x80] \<and>
       transaction_unmarshal E (transaction_marshal E tx @ rest) = Inl RlpUnexpectedString)"
proof -
  have "is_valid tx \<noteq> Inr () \<longleftrightarrow> tx_transaction_type tx \<in> {Blob, SetCode} \<and> tx_to tx = None"
    by (auto simp: is_valid_def constructible_defs split: transaction_type.splits)
  moreover have "\<exists>e. is_valid tx = Inl e" if "is_valid tx \<noteq> Inr ()" using that by (cases "is_valid tx") auto
  ultimately show ?thesis using eth_crates.unmarshal_invalid [OF assms] by blast
qed

theorem invalid_transaction_rejected_witness:
  "transaction_unmarshal plain_eth (transaction_marshal plain_eth (ex_tx\<lparr>tx_transaction_type := Blob, tx_to := None\<rparr>) @ [5]) =
     Inl RlpUnexpectedString"
proof -
  have "is_valid (ex_tx\<lparr>tx_transaction_type := Blob, tx_to := None\<rparr>) \<noteq> Inr ()"
    by (simp add: is_valid_def constructible_defs)
  then show ?thesis using invalid_transaction_rejected [OF plain.eth_crates_axioms] by blast
qed

end
