(* ===== verification/Header.thy ===== *)
theory Header
  imports Tx_Codec
begin

section \<open>Receipts, headers and block hashes\<close>

text \<open>
  bertha-types/src: receipts.rs, log.rs, withdrawal.rs, eip_2718_utils.rs, block_header.rs and
  the conversions between a block and its header in block.rs. Shown: logs and headers are decoded
  as they were encoded, except that a header field that is present and zero is decoded as absent;
  the leaves given to the trie builder have strictly increasing keys, as the builder demands; the
  Bloom filter of a header never misses a log of its block; a block is rebuilt from its header and
  parts.
\<close>

subsection \<open>Logs, withdrawals and receipts\<close>

definition log_item :: "log_entry \<Rightarrow> rlp_item" where
  "log_item l = RList [RStr (log_address l), list_item RStr (log_topics l), RStr (log_data l)]"

definition item_log :: "rlp_item \<Rightarrow> rlp_error + log_entry" where
  "item_log it =
     res_bind (item_fields 3 it) (\<lambda>fs.
     res_bind (item_array 20 (fs ! 0)) (\<lambda>address.
     res_bind (item_list (item_array 32) (fs ! 1)) (\<lambda>topics.
     res_bind (item_bytes (fs ! 2)) (\<lambda>data.
       Inr \<lparr>log_address = address, log_topics = topics, log_data = data\<rparr>))))"

definition withdrawal_item :: "withdrawal \<Rightarrow> rlp_item" where
  "withdrawal_item w =
     RList [u64_item (wd_index w), u64_item (wd_validator_index w), RStr (wd_address w), u64_item (wd_amount w)]"

definition withdrawal_marshal :: "eth \<Rightarrow> withdrawal \<Rightarrow> bytes" where
  "withdrawal_marshal E w = rlp_encode E (withdrawal_item w)"

definition accrue_log :: "eth \<Rightarrow> bloom \<Rightarrow> log_entry \<Rightarrow> bloom" where
  "accrue_log E bl l = foldl (bloom_accrue E) (bloom_accrue E bl (log_address l)) (log_topics l)"

definition logs_bloom :: "eth \<Rightarrow> transaction_receipt \<Rightarrow> bloom" where
  "logs_bloom E r = foldl (accrue_log E) (zero_bytes 256) (tr_logs r)"

definition RECEIPT_STATUS_SUCCESS_RLP :: bytes where
  "RECEIPT_STATUS_SUCCESS_RLP = [0x01]"

definition RECEIPT_STATUS_FAILED_RLP :: bytes where
  "RECEIPT_STATUS_FAILED_RLP = []"

definition post_state_rlp :: "post_state_or_status \<Rightarrow> bytes" where
  "post_state_rlp p =
     (case p of
        Status n \<Rightarrow> if n = 1 then RECEIPT_STATUS_SUCCESS_RLP else RECEIPT_STATUS_FAILED_RLP
      | PostState post_state \<Rightarrow> post_state)"

definition receipt_marshal :: "eth \<Rightarrow> transaction_receipt \<Rightarrow> bytes" where
  "receipt_marshal E r =
     (if tr_transaction_type r \<noteq> Legacy then [transaction_type_as_u8 (tr_transaction_type r)] else []) @
     rlp_encode E
       (RList [rlp_string_item (post_state_rlp (tr_post_state_or_status r)), u64_item (tr_cumulative_gas_used r),
               RStr (logs_bloom E r), list_item log_item (tr_logs r)])"

subsection \<open>Root hashes\<close>

definition unpack_nibbles :: "bytes \<Rightarrow> bytes" where
  "unpack_nibbles bs = concat (map (\<lambda>b. [b div 16, b mod 16]) bs)"

definition leaf_key :: "eth \<Rightarrow> nat \<Rightarrow> bytes" where
  "leaf_key E i = unpack_nibbles (rlp_encode E (u64_item (of_nat i)))"

definition root_leaves :: "eth \<Rightarrow> ('a \<Rightarrow> bytes) \<Rightarrow> 'a list \<Rightarrow> (bytes \<times> bytes) list" where
  "root_leaves E marshal data = sort (map (\<lambda>(i, r). (leaf_key E i, marshal r)) (enumerate 0 data))"

definition compute_root_hash :: "eth \<Rightarrow> ('a \<Rightarrow> bytes) \<Rightarrow> 'a list \<Rightarrow> hash" where
  "compute_root_hash E marshal data = trie_root E (root_leaves E marshal data)"

datatype verification_error = TransactionVerificationError | ReceiptVerificationError

definition verify_root :: "eth \<Rightarrow> ('a \<Rightarrow> bytes) \<Rightarrow> 'a list \<Rightarrow> hash \<Rightarrow> verification_error + unit" where
  "verify_root E marshal data expected_root =
     (if compute_root_hash E marshal data \<noteq> expected_root then Inl TransactionVerificationError else Inr ())"

subsection \<open>Headers\<close>

definition to_header :: "eth \<Rightarrow> block \<Rightarrow> block_header" where
  "to_header E b =
     (let bl = foldl (\<lambda>bl r. foldl (accrue_log E) bl (tr_logs r)) (zero_bytes 256) (b_receipts b);
          receipts_root = compute_root_hash E (receipt_marshal E) (b_receipts b);
          transactions_root = compute_root_hash E (transaction_marshal E) (b_transactions b);
          gas_used = (if b_receipts b = [] then 0 else tr_cumulative_gas_used (last (b_receipts b)))
      in \<lparr>bh_parent_hash = b_parent_hash b, bh_ommers_hash = b_ommers_hash b,
          bh_beneficiary = b_beneficiary b, bh_state_root = b_state_root b,
          bh_transactions_root = transactions_root, bh_receipts_root = receipts_root,
          bh_logs_bloom = bl, bh_difficulty = u256_of_u64 (b_difficulty b), bh_number = b_number b,
          bh_gas_limit = b_gas_limit b, bh_gas_used = gas_used, bh_timestamp = b_timestamp b,
          bh_extra_data = b_extra_data b, bh_prev_randao = b_prev_randao b, bh_nonce = b_nonce b,
          bh_base_fee_per_gas = b_base_fee_per_gas b, bh_withdrawals_root = b_withdrawals_root b,
          bh_blob_gas_used = b_blob_gas_used b, bh_excess_blob_gas = b_excess_blob_gas b,
          bh_parent_beacon_block_root = b_parent_beacon_block_root b,
          bh_requests_hash = b_requests_hash b\<rparr>)"

definition from_parts ::
  "block_header \<Rightarrow> transaction list \<Rightarrow> transaction_receipt list \<Rightarrow> withdrawal list \<Rightarrow> block" where
  "from_parts h transactions receipts withdrawals =
     \<lparr>b_parent_hash = bh_parent_hash h, b_ommers_hash = bh_ommers_hash h,
      b_beneficiary = bh_beneficiary h, b_state_root = bh_state_root h,
      b_difficulty = to_least_significant_u64 (bh_difficulty h), b_number = bh_number h,
      b_gas_limit = bh_gas_limit h, b_timestamp = bh_timestamp h, b_extra_data = bh_extra_data h,
      b_prev_randao = bh_prev_randao h, b_nonce = bh_nonce h, b_transactions = transactions,
      b_receipts = receipts, b_base_fee_per_gas = bh_base_fee_per_gas h,
      b_withdrawals_root = bh_withdrawals_root h, b_withdrawals = withdrawals,
      b_blob_gas_used = bh_blob_gas_used h, b_excess_blob_gas = bh_excess_blob_gas h,
      b_parent_beacon_block_root = bh_parent_beacon_block_root h,
      b_requests_hash = bh_requests_hash h, b_ommer_headers = [], b_verkle_state_root = None,
      b_binary_state_root = None\<rparr>"

text \<open>With the attribute \<open>rlp(trailing)\<close> the derived code leaves out the absent optional
  fields at the end and writes the empty string for those before a present one; it reads an
  empty string as absent.\<close>

definition trailing_items :: "rlp_item option list \<Rightarrow> rlp_item list" where
  "trailing_items os = map (case_option (RStr []) (\<lambda>it. it)) (rev (dropWhile (\<lambda>x. x = None) (rev os)))"

definition header_item :: "block_header \<Rightarrow> rlp_item" where
  "header_item h =
     RList
       ([RStr (bh_parent_hash h), RStr (bh_ommers_hash h), RStr (bh_beneficiary h), RStr (bh_state_root h),
         RStr (bh_transactions_root h), RStr (bh_receipts_root h), RStr (bh_logs_bloom h),
         u256_item (bh_difficulty h), u64_item (bh_number h), u64_item (bh_gas_limit h),
         u64_item (bh_gas_used h), u64_item (bh_timestamp h), RStr (bh_extra_data h),
         RStr (bh_prev_randao h), RStr (bh_nonce h)] @
        trailing_items
          [map_option u256_item (bh_base_fee_per_gas h), map_option RStr (bh_withdrawals_root h),
           map_option u64_item (bh_blob_gas_used h), map_option u64_item (bh_excess_blob_gas h),
           map_option RStr (bh_parent_beacon_block_root h), map_option RStr (bh_requests_hash h)])"

definition item_option :: "(rlp_item \<Rightarrow> rlp_error + 'a) \<Rightarrow> rlp_item list \<Rightarrow> nat \<Rightarrow> rlp_error + 'a option" where
  "item_option f fs i =
     (if i < length fs \<and> fs ! i \<noteq> RStr [] then map_ok Some (f (fs ! i)) else Inr None)"

definition item_trailing_fields :: "nat \<Rightarrow> nat \<Rightarrow> rlp_item \<Rightarrow> rlp_error + rlp_item list" where
  "item_trailing_fields n k it =
     (case it of
        RStr _ \<Rightarrow> Inl RlpUnexpectedString
      | RList fs \<Rightarrow> if n \<le> length fs \<and> length fs \<le> n + k then Inr fs else Inl RlpListLengthMismatch)"

definition item_header :: "rlp_item \<Rightarrow> rlp_error + block_header" where
  "item_header it =
     res_bind (item_trailing_fields 15 6 it) (\<lambda>fs.
     res_bind (item_array 32 (fs ! 0)) (\<lambda>parent_hash.
     res_bind (item_array 32 (fs ! 1)) (\<lambda>ommers_hash.
     res_bind (item_array 20 (fs ! 2)) (\<lambda>beneficiary.
     res_bind (item_array 32 (fs ! 3)) (\<lambda>state_root.
     res_bind (item_array 32 (fs ! 4)) (\<lambda>transactions_root.
     res_bind (item_array 32 (fs ! 5)) (\<lambda>receipts_root.
     res_bind (item_array 256 (fs ! 6)) (\<lambda>logs_bloom.
     res_bind (item_u256 (fs ! 7)) (\<lambda>difficulty.
     res_bind (item_u64 (fs ! 8)) (\<lambda>number.
     res_bind (item_u64 (fs ! 9)) (\<lambda>gas_limit.
     res_bind (item_u64 (fs ! 10)) (\<lambda>gas_used.
     res_bind (item_u64 (fs ! 11)) (\<lambda>timestamp.
     res_bind (item_rlp_string (fs ! 12)) (\<lambda>extra_data.
     res_bind (item_array 32 (fs ! 13)) (\<lambda>prev_randao.
     res_bind (item_array 8 (fs ! 14)) (\<lambda>nonce.
     res_bind (item_option item_u256 fs 15) (\<lambda>base_fee_per_gas.
     res_bind (item_option (item_array 32) fs 16) (\<lambda>withdrawals_root.
     res_bind (item_option item_u64 fs 17) (\<lambda>blob_gas_used.
     res_bind (item_option item_u64 fs 18) (\<lambda>excess_blob_gas.
     res_bind (item_option (item_array 32) fs 19) (\<lambda>parent_beacon_block_root.
     res_bind (item_option (item_array 32) fs 20) (\<lambda>requests_hash.
       Inr \<lparr>bh_parent_hash = parent_hash, bh_ommers_hash = ommers_hash, bh_beneficiary = beneficiary,
            bh_state_root = state_root, bh_transactions_root = transactions_root,
            bh_receipts_root = receipts_root, bh_logs_bloom = logs_bloom, bh_difficulty = difficulty,
            bh_number = number, bh_gas_limit = gas_limit, bh_gas_used = gas_used,
            bh_timestamp = timestamp, bh_extra_data = extra_data, bh_prev_randao = prev_randao,
            bh_nonce = nonce, bh_base_fee_per_gas = base_fee_per_gas,
            bh_withdrawals_root = withdrawals_root, bh_blob_gas_used = blob_gas_used,
            bh_excess_blob_gas = excess_blob_gas,
            bh_parent_beacon_block_root = parent_beacon_block_root,
            bh_requests_hash = requests_hash\<rparr>))))))))))))))))))))))"

definition header_decode :: "eth \<Rightarrow> bytes \<Rightarrow> rlp_error + block_header \<times> bytes" where
  "header_decode E buf = decode_with E item_header buf"

definition compute_hash :: "eth \<Rightarrow> block_header \<Rightarrow> hash" where
  "compute_hash E h = keccak256 E (rlp_encode E (header_item h))"

definition may_contain_logs :: "eth \<Rightarrow> block_header \<Rightarrow> address option \<Rightarrow> hash list \<Rightarrow> bool" where
  "may_contain_logs E h address topics =
     (let may_contain = (case address of Some a \<Rightarrow> bloom_contains E (bh_logs_bloom h) a | None \<Rightarrow> True)
      in foldl (\<lambda>m t. m \<and> bloom_contains E (bh_logs_bloom h) t) may_contain topics)"

definition block_hash :: "eth \<Rightarrow> block \<Rightarrow> hash" where
  "block_hash E b = compute_hash E (to_header E b)"

subsection \<open>Decoding headers\<close>

lemma item_log_item [item_simps]: "wf_log l \<Longrightarrow> item_log (log_item l) = Inr l"
  by (cases l) (simp add: item_log_def log_item_def wf_log_def item_simps item_bytes_def)

lemma dropWhile_None_nth:
  "i < length os \<Longrightarrow> (if i < length (rev (dropWhile (\<lambda>x. x = None) (rev os))) then rev (dropWhile (\<lambda>x. x = None) (rev os)) ! i else None) = os ! i"
proof (induction os rule: rev_induct)
  case (snoc x xs)
  then show ?case using length_dropWhile_le [of "\<lambda>x. x = None" "rev xs"]
    by (cases x) (auto simp: nth_append less_Suc_eq)
qed simp

lemma trailing_items_nth:
  assumes "i < length os"
  shows "(if i < length (trailing_items os) then trailing_items os ! i else RStr []) = case_option (RStr []) (\<lambda>it. it) (os ! i)"
  using dropWhile_None_nth [OF assms] by (auto simp: trailing_items_def split: if_splits)

lemma length_trailing_items: "length (trailing_items os) \<le> length os"
  using length_dropWhile_le [of "\<lambda>x. x = None" "rev os"] by (simp add: trailing_items_def)

lemma item_option_trailing:
  assumes "length fixed = n" and "i < length os"
    and "\<And>it. os ! i = Some it \<Longrightarrow> it \<noteq> RStr [] \<Longrightarrow> f it = Inr (g it)"
  shows "item_option f (fixed @ trailing_items os) (n + i) =
    Inr (case os ! i of None \<Rightarrow> None | Some it \<Rightarrow> if it = RStr [] then None else Some (g it))"
proof -
  have eq: "(fixed @ trailing_items os) ! (n + i) = trailing_items os ! i" "n + i < length (fixed @ trailing_items os) \<longleftrightarrow> i < length (trailing_items os)"
    using assms(1) by (simp_all add: nth_append)
  show ?thesis
    using trailing_items_nth [OF assms(2)] assms(3) unfolding item_option_def eq
    by (cases "os ! i") (auto split: if_splits)
qed

text \<open>A present field with value zero is encoded as the empty string, as an absent one is.\<close>

definition nonzero :: "'a::zero option \<Rightarrow> 'a option" where
  "nonzero x = (if x = Some 0 then None else x)"

definition zero_absent :: "block_header \<Rightarrow> block_header" where
  "zero_absent h =
     h\<lparr>bh_base_fee_per_gas := nonzero (bh_base_fee_per_gas h), bh_blob_gas_used := nonzero (bh_blob_gas_used h),
       bh_excess_blob_gas := nonzero (bh_excess_blob_gas h)\<rparr>"

lemma u64_item_zero_iff: "u64_item n = RStr [] \<longleftrightarrow> n = 0"
proof -
  have "u64_item 0 = RStr []" by code_simp
  then show ?thesis by (metis u64_item_inj)
qed

lemma u256_item_zero_iff: "u256_item n = RStr [] \<longleftrightarrow> n = 0"
proof -
  have "u256_item 0 = RStr []" by (simp add: u256_item_def u64_item_zero_iff)
  then show ?thesis by (metis item_u256_item sum.inject(2))
qed

lemma item_option_u64:
  assumes "length fixed = n" and "i < length os" and "os ! i = map_option u64_item x"
  shows "item_option item_u64 (fixed @ trailing_items os) (n + i) = Inr (nonzero x)"
proof -
  have "item_option item_u64 (fixed @ trailing_items os) (n + i) =
      Inr (case os ! i of None \<Rightarrow> None | Some it \<Rightarrow> if it = RStr [] then None else Some (the x))"
    by (rule item_option_trailing [OF assms(1,2)]) (auto simp: assms(3) item_simps)
  then show ?thesis by (cases x) (auto simp: assms(3) nonzero_def u64_item_zero_iff)
qed

lemma item_option_u256:
  assumes "length fixed = n" and "i < length os" and "os ! i = map_option u256_item x"
  shows "item_option item_u256 (fixed @ trailing_items os) (n + i) = Inr (nonzero x)"
proof -
  have "item_option item_u256 (fixed @ trailing_items os) (n + i) =
      Inr (case os ! i of None \<Rightarrow> None | Some it \<Rightarrow> if it = RStr [] then None else Some (the x))"
    by (rule item_option_trailing [OF assms(1,2)]) (auto simp: assms(3) item_simps)
  then show ?thesis by (cases x) (auto simp: assms(3) nonzero_def u256_item_zero_iff)
qed

lemma item_option_hash:
  assumes "length fixed = n" and "i < length os" and "os ! i = map_option RStr x" and "pred_option (len_ok 32) x"
  shows "item_option (item_array 32) (fixed @ trailing_items os) (n + i) = Inr x"
proof -
  have "item_option (item_array 32) (fixed @ trailing_items os) (n + i) =
      Inr (case os ! i of None \<Rightarrow> None | Some it \<Rightarrow> if it = RStr [] then None else Some (the x))"
    by (rule item_option_trailing [OF assms(1,2)]) (use assms(4) in \<open>auto simp: assms(3) item_simps\<close>)
  then show ?thesis using assms(4) by (cases x) (auto simp: assms(3) len_ok_def)
qed

lemma item_header_item:
  assumes "wf_header h"
  shows "item_header (header_item h) = Inr (zero_absent h)"
proof -
  define fixed where "fixed =
     [RStr (bh_parent_hash h), RStr (bh_ommers_hash h), RStr (bh_beneficiary h), RStr (bh_state_root h),
         RStr (bh_transactions_root h), RStr (bh_receipts_root h), RStr (bh_logs_bloom h),
         u256_item (bh_difficulty h), u64_item (bh_number h), u64_item (bh_gas_limit h),
         u64_item (bh_gas_used h), u64_item (bh_timestamp h), RStr (bh_extra_data h),
         RStr (bh_prev_randao h), RStr (bh_nonce h)]"
  define os where "os =
     [map_option u256_item (bh_base_fee_per_gas h), map_option RStr (bh_withdrawals_root h),
           map_option u64_item (bh_blob_gas_used h), map_option u64_item (bh_excess_blob_gas h),
           map_option RStr (bh_parent_beacon_block_root h), map_option RStr (bh_requests_hash h)]"
  have it: "header_item h = RList (fixed @ trailing_items os)" by (simp add: header_item_def fixed_def os_def)
  have len: "length fixed = 15" "length os = 6" by (simp_all add: fixed_def os_def)
  have fs: "item_trailing_fields 15 6 (RList (fixed @ trailing_items os)) = Inr (fixed @ trailing_items os)"
    using length_trailing_items [of os] len by (simp add: item_trailing_fields_def)
  have nth: "(fixed @ trailing_items os) ! i = fixed ! i" if "i < 15" for i using that len by (simp add: nth_append)
  have opts: "item_option item_u256 (fixed @ trailing_items os) 15 = Inr (nonzero (bh_base_fee_per_gas h))"
    "item_option (item_array 32) (fixed @ trailing_items os) 16 = Inr (bh_withdrawals_root h)"
    "item_option item_u64 (fixed @ trailing_items os) 17 = Inr (nonzero (bh_blob_gas_used h))"
    "item_option item_u64 (fixed @ trailing_items os) 18 = Inr (nonzero (bh_excess_blob_gas h))"
    "item_option (item_array 32) (fixed @ trailing_items os) 19 = Inr (bh_parent_beacon_block_root h)"
    "item_option (item_array 32) (fixed @ trailing_items os) 20 = Inr (bh_requests_hash h)"
    using item_option_u256 [OF len(1), of 0 os] item_option_hash [OF len(1), of 1 os] item_option_u64 [OF len(1), of 2 os]
      item_option_u64 [OF len(1), of 3 os] item_option_hash [OF len(1), of 4 os] item_option_hash [OF len(1), of 5 os] assms
    by (simp_all add: os_def wf_header_def)
  show ?thesis
    unfolding item_header_def it fs
    using assms by (simp add: nth opts wf_header_def) (simp add: fixed_def item_simps item_rlp_string_def item_bytes_def zero_absent_def)
qed

lemma trailing_items_eq:
  "last os \<noteq> None \<Longrightarrow> os \<noteq> [] \<Longrightarrow> trailing_items os = map (case_option (RStr []) (\<lambda>it. it)) os"
  by (cases os rule: rev_cases) (auto simp: trailing_items_def)

lemma nonzero_items:
  "(case nonzero x of None \<Rightarrow> RStr [] | Some v \<Rightarrow> u64_item v) = (case x of None \<Rightarrow> RStr [] | Some v \<Rightarrow> u64_item v)"
  "(case nonzero y of None \<Rightarrow> RStr [] | Some v \<Rightarrow> u256_item v) = (case y of None \<Rightarrow> RStr [] | Some v \<Rightarrow> u256_item v)"
proof -
  have "u64_item 0 = RStr []" "u256_item 0 = RStr []" by (simp_all only: u64_item_zero_iff u256_item_zero_iff)
  then show "(case nonzero x of None \<Rightarrow> RStr [] | Some v \<Rightarrow> u64_item v) = (case x of None \<Rightarrow> RStr [] | Some v \<Rightarrow> u64_item v)"
    "(case nonzero y of None \<Rightarrow> RStr [] | Some v \<Rightarrow> u256_item v) = (case y of None \<Rightarrow> RStr [] | Some v \<Rightarrow> u256_item v)"
    by (auto simp: nonzero_def split: option.splits)
qed

lemma header_item_zero_absent:
  assumes "bh_requests_hash h \<noteq> None \<or> bh_parent_beacon_block_root h \<noteq> None"
  shows "header_item (zero_absent h) = header_item h"
proof (cases "bh_requests_hash h")
  case (Some r)
  then show ?thesis by (simp add: header_item_def zero_absent_def trailing_items_eq nonzero_items comp_def cong: option.case_cong)
next
  case None
  with assms obtain p where p: "bh_parent_beacon_block_root h = Some p" by blast
  have drop: "trailing_items (os @ [None]) = trailing_items os" for os by (simp add: trailing_items_def)
  have "trailing_items [a, b, c, d, e, None] = trailing_items [a, b, c, d, e]" for a b c d e
    using drop [of "[a, b, c, d, e]"] by simp
  then show ?thesis using None p by (simp add: header_item_def zero_absent_def trailing_items_eq nonzero_items comp_def cong: option.case_cong)
qed

subsection \<open>Leaves of the trie\<close>

definition mentions :: "log_entry \<Rightarrow> bytes \<Rightarrow> bool" where
  "mentions l y \<longleftrightarrow> y = log_address l \<or> y \<in> set (log_topics l)"

lemma nibble_inj: "(b :: u8) div 16 = c div 16 \<and> b mod 16 = c mod 16 \<longleftrightarrow> b = c"
  by (metis div_mult_mod_eq)

lemma unpack_nibbles_inj: "unpack_nibbles a = unpack_nibbles b \<longleftrightarrow> a = b"
proof (induction a arbitrary: b)
  case Nil
  then show ?case by (cases b) (auto simp: unpack_nibbles_def)
next
  case (Cons x a)
  then show ?case using nibble_inj by (cases b) (auto simp: unpack_nibbles_def)
qed

context eth_crates
begin

lemma leaf_key_inj:
  assumes "i < 2 ^ 64" and "j < 2 ^ 64"
  shows "leaf_key E i = leaf_key E j \<longleftrightarrow> i = j"
proof -
  have short: "length (rlp_encode E (u64_item n)) < 2 ^ 64" for n
  proof -
    let ?bs = "dropWhile (\<lambda>b. b = 0) (u64_to_be_bytes n)"
    have "length ?bs \<le> 8" by (rule length_dropWhile_be)
    then have "length (rlp_encode E (RStr ?bs)) \<le> 9" using rlp_short_string [of ?bs] by simp
    then show ?thesis unfolding u64_item_def by simp
  qed
  have "leaf_key E i = leaf_key E j \<longleftrightarrow> (of_nat i :: u64) = of_nat j"
    unfolding leaf_key_def unpack_nibbles_inj rlp_encode_inj [OF short short] u64_item_inj ..
  also have "\<dots> \<longleftrightarrow> unat (of_nat i :: u64) = unat (of_nat j :: u64)" by (rule word_unat_eq_iff)
  also have "\<dots> \<longleftrightarrow> i = j" using assms by (simp only: unat_of_nat take_bit_nat_eq_self) (simp add: take_bit_nat_eq_self)
  finally show ?thesis .
qed

lemma root_leaves_sorted:
  assumes "length data < 2 ^ 64"
  shows "sorted_wrt (\<lambda>x y. fst x < fst y) (root_leaves E marshal data)"
    and "set (root_leaves E marshal data) = {(leaf_key E i, marshal (data ! i)) | i. i < length data}"
proof -
  let ?ls = "map (\<lambda>(i, r). (leaf_key E i, marshal r)) (enumerate 0 data)"
  have "map fst ?ls = map (leaf_key E) [0..<length data]"
    by (rule nth_equalityI) (simp_all add: enumerate_eq_zip)
  moreover have "inj_on (leaf_key E) {0..<length data}"
    using leaf_key_inj assms by (auto simp: inj_on_def)
  ultimately have "distinct (map fst ?ls)" by (simp add: distinct_map)
  then have "distinct (map fst (root_leaves E marshal data))"
    unfolding root_leaves_def by (simp only: distinct_map [of fst] distinct_sort set_sort)
  moreover have "sorted (root_leaves E marshal data)" by (simp add: root_leaves_def)
  ultimately have "fst (root_leaves E marshal data ! i) < fst (root_leaves E marshal data ! j)"
    if "i < j" "j < length (root_leaves E marshal data)" for i j
    using that sorted_nth_mono [of "root_leaves E marshal data" i j]
      nth_eq_iff_index_eq [of "map fst (root_leaves E marshal data)" i j]
    by (auto simp: less_eq_prod_def)
  then show "sorted_wrt (\<lambda>x y. fst x < fst y) (root_leaves E marshal data)"
    by (simp add: sorted_wrt_iff_nth_less)
  show "set (root_leaves E marshal data) = {(leaf_key E i, marshal (data ! i)) | i. i < length data}"
    by (auto simp: root_leaves_def in_set_enumerate_eq image_iff)
qed

lemma bloom_contains_fold_accrue:
  "bloom_contains E bl y \<or> y \<in> set xs \<Longrightarrow> bloom_contains E (foldl (bloom_accrue E) bl xs) y"
  by (induction xs arbitrary: bl) (auto simp: bloom_accrued bloom_kept)

lemma bloom_contains_logs:
  "bloom_contains E bl y \<or> (\<exists>l \<in> set ls. mentions l y) \<Longrightarrow> bloom_contains E (foldl (accrue_log E) bl ls) y"
proof (induction ls arbitrary: bl)
  case (Cons l ls)
  have "bloom_contains E (accrue_log E bl l) y" if "bloom_contains E bl y \<or> mentions l y"
    unfolding accrue_log_def using that
    by (intro bloom_contains_fold_accrue) (auto simp: mentions_def bloom_accrued bloom_kept)
  with Cons show ?case by auto
qed simp

lemma bloom_contains_receipts:
  "bloom_contains E bl y \<or> (\<exists>r \<in> set rs. \<exists>l \<in> set (tr_logs r). mentions l y) \<Longrightarrow>
    bloom_contains E (foldl (\<lambda>bl r. foldl (accrue_log E) bl (tr_logs r)) bl rs) y"
proof (induction rs arbitrary: bl)
  case (Cons r rs)
  then show ?case using bloom_contains_logs [of bl y "tr_logs r"] by auto
qed simp

end

subsection \<open>Properties\<close>

text \<open>C23: decoding the RLP encoding of a header gives the header back, except that an optional
  number that is present and zero is read as absent. When the header has a parent beacon block
  root or a requests hash this keeps the encoding, so its hash, as it is.\<close>

theorem header_roundtrip:
  assumes "eth_crates E" and "wf_header h" and "length (rlp_encode E (header_item h)) < 2 ^ 64"
  shows "header_decode E (rlp_encode E (header_item h) @ rest) = Inr (zero_absent h, rest) \<and>
    (bh_requests_hash h \<noteq> None \<or> bh_parent_beacon_block_root h \<noteq> None \<longrightarrow>
       compute_hash E (zero_absent h) = compute_hash E h)"
  using eth_crates.decode_with_encode [where f = item_header, OF assms(1,3) item_header_item [OF assms(2)]]
  by (simp add: header_decode_def compute_hash_def header_item_zero_absent)

definition ex_header :: block_header where
  "ex_header = default_header\<lparr>bh_number := 7, bh_extra_data := [1, 2, 3], bh_base_fee_per_gas := Some 5,
     bh_blob_gas_used := Some 0, bh_excess_blob_gas := Some 0, bh_parent_beacon_block_root := Some (zero_bytes 32)\<rparr>"

lemma ex_header_short: "length (rlp_encode plain_eth (header_item ex_header)) < 2 ^ 64"
proof -
  note sizes = rlp_size_fields(1) [of 0] rlp_size_fields(1) [of 7] rlp_size_fields(2) [of 0] rlp_size_fields(2) [of 5]
  have "rlp_size (header_item ex_header) \<le> 5000"
    using sizes by (simp add: ex_header_def default_header_def header_item_def zero_bytes_def trailing_items_def)
  then show ?thesis using length_rlp_enc [of "header_item ex_header"] by (simp add: plain_eth_def)
qed

theorem header_roundtrip_witness:
  "header_decode plain_eth (rlp_encode plain_eth (header_item ex_header)) =
     Inr (ex_header\<lparr>bh_blob_gas_used := None, bh_excess_blob_gas := None\<rparr>, []) \<and>
   compute_hash plain_eth (zero_absent ex_header) = compute_hash plain_eth ex_header"
proof -
  have "wf_header ex_header"
    by (simp add: wf_header_def ex_header_def default_header_def len_ok_def zero_bytes_def)
  moreover have "zero_absent ex_header = ex_header\<lparr>bh_blob_gas_used := None, bh_excess_blob_gas := None\<rparr>"
    by (simp add: zero_absent_def nonzero_def ex_header_def default_header_def)
  moreover have "bh_parent_beacon_block_root ex_header \<noteq> None" by (simp add: ex_header_def)
  ultimately show ?thesis
    using header_roundtrip [OF plain.eth_crates_axioms _ ex_header_short, of "[]"] by simp
qed

text \<open>C35: the leaves that \<open>compute_root_hash\<close> hands to the trie builder are exactly the
  marshalled elements under the keys of their positions, and their keys are strictly increasing,
  as the builder requires.\<close>

theorem root_leaves_correct:
  assumes "eth_crates E" and "length data < 2 ^ 64"
  shows "sorted_wrt (\<lambda>x y. fst x < fst y) (root_leaves E marshal data) \<and>
    set (root_leaves E marshal data) = {(leaf_key E i, marshal (data ! i)) | i. i < length data}"
  using eth_crates.root_leaves_sorted [OF assms] by blast

theorem root_leaves_correct_witness:
  "sorted_wrt (\<lambda>x y. fst x < fst y) (root_leaves plain_eth (\<lambda>x. x) [[7], [8], [9]])"
  using root_leaves_correct [OF plain.eth_crates_axioms, of "[[7], [8], [9]]" "\<lambda>x. x"] by simp

text \<open>C34: \<open>may_contain_logs\<close> has no false negatives: asked for the address of a log in a
  receipt of the block and for topics of logs in the block, it answers true.\<close>

theorem may_contain_logs_complete:
  assumes "eth_crates E" and "\<forall>y \<in> set_option address \<union> set topics. \<exists>r \<in> set (b_receipts b). \<exists>l \<in> set (tr_logs r). mentions l y"
  shows "may_contain_logs E (to_header E b) address topics"
proof -
  have c: "bloom_contains E (bh_logs_bloom (to_header E b)) y" if "y \<in> set_option address \<union> set topics" for y
  proof -
    have "\<exists>r \<in> set (b_receipts b). \<exists>l \<in> set (tr_logs r). mentions l y" using assms(2) that by blast
    then show ?thesis
      using eth_crates.bloom_contains_receipts [OF assms(1), of "zero_bytes 256" y "b_receipts b"]
      by (simp add: to_header_def Let_def)
  qed
  have "foldl (\<lambda>m t. m \<and> P t) q ts \<longleftrightarrow> q \<and> (\<forall>t \<in> set ts. P t)" for P q and ts :: "hash list"
    by (induction ts arbitrary: q) auto
  then show ?thesis using c by (auto simp: may_contain_logs_def Let_def split: option.splits)
qed

definition ex_log_block :: block where
  "ex_log_block = default_block\<lparr>b_receipts := [default_receipt\<lparr>tr_logs := [\<lparr>log_address = replicate 20 1, log_topics = [replicate 32 2], log_data = []\<rparr>]\<rparr>]\<rparr>"

theorem may_contain_logs_complete_witness:
  "may_contain_logs plain_eth (to_header plain_eth ex_log_block) (Some (replicate 20 1)) [replicate 32 2]"
  using may_contain_logs_complete [OF plain.eth_crates_axioms, of "Some (replicate 20 1)" "[replicate 32 2]" ex_log_block]
  by (simp add: ex_log_block_def mentions_def)

lemma to_least_significant_u256_of_u64 [simp]: "to_least_significant_u64 (u256_of_u64 n) = n"
proof -
  have "unat n < 2 ^ 64" using unsigned_less [of n, where ?'a = nat] by simp
  then have "unat n < 2 ^ 256" by (rule less_trans) simp
  then have "unat (of_nat (unat n) :: u256) = unat n" by (subst unat_of_nat) simp
  then show ?thesis by (simp add: to_least_significant_u64_def u256_of_u64_def)
qed

lemma from_parts_to_header:
  "from_parts (to_header E b) (b_transactions b) (b_receipts b) (b_withdrawals b) =
     b\<lparr>b_ommer_headers := [], b_verkle_state_root := None, b_binary_state_root := None\<rparr>"
  by (cases b) (simp add: from_parts_def to_header_def)

text \<open>A block is rebuilt from its header, transactions, receipts and withdrawals, less what
  a header does not carry; and a header with the roots, Bloom filter and gas of the parts, and a
  difficulty that fits into 64 bits, is the header of the block built from it.\<close>

theorem from_parts_roundtrip:
  "from_parts (to_header E b) (b_transactions b) (b_receipts b) (b_withdrawals b) =
     b\<lparr>b_ommer_headers := [], b_verkle_state_root := None, b_binary_state_root := None\<rparr> \<and>
   (bh_difficulty h < 2 ^ 64 \<longrightarrow>
    bh_transactions_root h = compute_root_hash E (transaction_marshal E) ts \<longrightarrow>
    bh_receipts_root h = compute_root_hash E (receipt_marshal E) rs \<longrightarrow>
    bh_logs_bloom h = foldl (\<lambda>bl r. foldl (accrue_log E) bl (tr_logs r)) (zero_bytes 256) rs \<longrightarrow>
    bh_gas_used h = (if rs = [] then 0 else tr_cumulative_gas_used (last rs)) \<longrightarrow>
    to_header E (from_parts h ts rs ws) = h)"
proof -
  have down: "u256_of_u64 (to_least_significant_u64 x) = x" if "x < 2 ^ 64" for x
  proof -
    have "unat x < 2 ^ 64" using that by (simp add: word_less_nat_alt)
    then have "unat (of_nat (unat x) :: u64) = unat x" by (subst unat_of_nat) simp
    then show ?thesis by (simp add: to_least_significant_u64_def u256_of_u64_def)
  qed
  then show ?thesis by (intro conjI from_parts_to_header) (cases h; auto simp: from_parts_def to_header_def)
qed

theorem from_parts_roundtrip_witness:
  "to_header plain_eth (from_parts (to_header plain_eth ex_log_block) [] (b_receipts ex_log_block) []) = to_header plain_eth ex_log_block"
proof -
  have "bh_difficulty (to_header plain_eth ex_log_block) < 2 ^ 64"
    by (simp add: to_header_def ex_log_block_def default_block_def u256_of_u64_def)
  then show ?thesis
    using from_parts_roundtrip [of plain_eth ex_log_block "to_header plain_eth ex_log_block" "[]" "b_receipts ex_log_block" "[]"]
    by (simp add: to_header_def ex_log_block_def default_block_def)
qed

text \<open>Reading a present zero as absent can change the hash of a header: the header whose
  last present field is a base fee of zero has another encoding once it has been decoded.\<close>

theorem zero_base_fee_changes_encoding:
  "zero_absent (default_header\<lparr>bh_base_fee_per_gas := Some 0\<rparr>) = default_header \<and>
   header_item default_header \<noteq> header_item (default_header\<lparr>bh_base_fee_per_gas := Some 0\<rparr>)"
  by (simp add: zero_absent_def nonzero_def default_header_def header_item_def trailing_items_def)

end
