(* ===== verification/Cmd_Local.thy ===== *)
theory Cmd_Local
  imports Cmd_Fetch Header
begin

section \<open>Commands on the local database\<close>

text \<open>
  blockservice/src/cmd: purge.rs, list.rs, view.rs, view_metadata.rs and import_metadata.rs. As for
  fetching, a command is a function of the configuration and the database that
  \<open>open_app_dir\<close> returned. What it prints is a list of lines, of a datatype per command; a
  command that fails half way still returns the lines it printed before. Reading the answer of
  the user, reading a file and printing JSON are parameters.

  Shown: purging deletes exactly the blocks of the range it announces, after the user confirmed,
  and announces their exact number; the local listing shows every chain that is stored or
  configured once, in order, with the block ranges and metadata it has.
\<close>

subsection \<open>Purge\<close>

datatype purge_line =
    NoBlocksFound u64
  | NoBlocksInRange u64 u64 u64
  | PurgePrompt u64 u64 u64 u64
  | BlocksPurged

definition is_whitespace :: "char \<Rightarrow> bool" where
  "is_whitespace c \<longleftrightarrow> (let k = (of_char c :: nat) in (9 \<le> k \<and> k \<le> 13) \<or> k = 32 \<or> k = 133 \<or> k = 160)"

definition trim :: "string \<Rightarrow> string" where
  "trim s = rev (dropWhile is_whitespace (rev (dropWhile is_whitespace s)))"

definition range_len :: "block_range \<Rightarrow> u64" where
  "range_len r = range_end r - range_start r + 1"

definition purge ::
  "('d, 'b) blockdb \<Rightarrow> 'd \<Rightarrow> u64 \<Rightarrow> u64 option \<Rightarrow> u64 option \<Rightarrow> string + string \<Rightarrow>
    ((cmd_error + unit) \<times> purge_line list) \<times> 'd" where
  "purge D d chain_id from_opt to_opt input =
     (if chain_id = 0 then ((Inl ChainIdZero, []), d)
      else case db_get_ranges_of_chain_id D d chain_id of
        Inl e \<Rightarrow> ((Inl (DbErr e), []), d)
      | Inr local_ranges \<Rightarrow>
          if local_ranges = [] then ((Inr (), [NoBlocksFound chain_id]), d)
          else
            let from = (case from_opt of None \<Rightarrow> 0 | Some n \<Rightarrow> n);
                to = (case to_opt of None \<Rightarrow> range_end (last local_ranges) | Some n \<Rightarrow> n) in
            if from > to then ((Inl (InvalidRange from to), []), d)
            else
              let num_blocks_to_purge = sum_list (map range_len (intersect_ranges (BlockRange from to) local_ranges)) in
              if num_blocks_to_purge = 0 then ((Inr (), [NoBlocksInRange from to chain_id]), d)
              else
                let prompt = PurgePrompt num_blocks_to_purge from to chain_id in
                case input of
                  Inl e \<Rightarrow> ((Inl (ReadErr e), [prompt]), d)
                | Inr line \<Rightarrow>
                    if trim line = ''y'' \<or> trim line = ''Y'' then
                      (case db_delete_range D d chain_id from to of
                         (Inl e, d') \<Rightarrow> ((Inl (DbErr e), [prompt]), d')
                       | (Inr u, d') \<Rightarrow> ((Inr (), [prompt, BlocksPurged]), d'))
                    else ((Inr (), [prompt]), d))"

subsection \<open>List\<close>

datatype list_line =
    ChainLine string
  | RulesLine bool
  | CorrectionsLine bool
  | FailedBundlesLine bool
  | NoBlocksLine
  | RangeLine bool u64 u64

definition listing_of_remote :: "chain_listing \<Rightarrow> u64 \<times> block_range list \<times> bool \<times> bool" where
  "listing_of_remote l =
     (cl_chain_id l, map range_of_proto (cl_block_ranges l), cl_has_rules_update_heights l, cl_has_corrections l)"

definition local_listing ::
  "('d, 'b) blockdb \<Rightarrow> 'd \<Rightarrow> u64 \<Rightarrow> error + u64 \<times> block_range list \<times> bool \<times> bool" where
  "local_listing D d chain_id =
     res_bind (db_get_ranges_of_chain_id D d chain_id) (\<lambda>ranges.
     res_bind (db_get_rules_update_heights D d chain_id) (\<lambda>rules_update_heights.
     res_bind (db_get_corrections D d chain_id) (\<lambda>corrections.
       Inr (chain_id, ranges, rules_update_heights \<noteq> None, corrections \<noteq> None))))"

definition local_chain_ids :: "('d, 'b) blockdb \<Rightarrow> config \<Rightarrow> 'd \<Rightarrow> u64 option \<Rightarrow> error + u64 list" where
  "local_chain_ids D cfg d chain_id =
     (case chain_id of
        Some cid \<Rightarrow> Inr [cid]
      | None \<Rightarrow>
          res_bind (db_get_chain_ids D d) (\<lambda>ids. Inr (remdups_adj (sort (ids @ config_chain_ids cfg)))))"

definition range_lines :: "block_range list \<Rightarrow> list_line list" where
  "range_lines ranges =
     (if ranges = [] then [NoBlocksLine]
      else map (\<lambda>(i, r). RangeLine (i = length ranges - 1) (range_start r) (range_end r)) (enumerate 0 ranges))"

fun print_listings ::
  "('d, 'b) blockdb \<Rightarrow> config \<Rightarrow> 'd \<Rightarrow> bool \<Rightarrow> (u64 \<times> block_range list \<times> bool \<times> bool) list \<Rightarrow>
    (cmd_error + unit) \<times> list_line list" where
  "print_listings D cfg d is_remote [] = (Inr (), [])"
| "print_listings D cfg d is_remote ((chain_id, ranges, has_rules, has_corrections) # rest) =
     (let chain_cfg = (case get_chain_config cfg chain_id of None \<Rightarrow> chain_config_new chain_id | Some c \<Rightarrow> c);
          head = [ChainLine (pretty_name chain_cfg), RulesLine has_rules, CorrectionsLine has_corrections];
          failed = (if is_remote then Inr []
                    else map_ok (\<lambda>v. [FailedBundlesLine (v \<noteq> None)]) (db_get_failed_bundles D d chain_id))
      in case failed of
           Inl e \<Rightarrow> (Inl (DbErr e), head)
         | Inr fl \<Rightarrow>
             case print_listings D cfg d is_remote rest of
               (r, ls) \<Rightarrow> (r, head @ fl @ range_lines ranges @ ls))"

definition list_chains ::
  "('d, 'b) blockdb \<Rightarrow> (string \<Rightarrow> string option \<Rightarrow> string + rpc_client) \<Rightarrow> config \<Rightarrow> 'd \<Rightarrow>
    u64 option \<Rightarrow> string option \<Rightarrow> (cmd_error + unit) \<times> list_line list" where
  "list_chains D connect cfg d chain_id url =
     (if chain_id = Some 0 then (Inl ChainIdZero, [])
      else
        let listings =
          (case url of
             Some u \<Rightarrow>
               res_bind (map_err ConnectErr (connect u (get_auth_token cfg))) (\<lambda>client.
                 map_ok (map listing_of_remote) (map_err RpcErr (client_list client chain_id)))
           | None \<Rightarrow>
               map_err DbErr
                 (res_bind (local_chain_ids D cfg d chain_id) (\<lambda>ids. collect_results (map (local_listing D d) ids))))
        in case listings of
             Inl e \<Rightarrow> (Inl e, [])
           | Inr ls \<Rightarrow> print_listings D cfg d (url \<noteq> None) ls)"

subsection \<open>View\<close>

datatype view_line =
    ViewText string
  | ViewData bytes
  | BlockNotFound u64 u64
  | NoRulesFound u64
  | NoCorrectionsFound u64

definition view ::
  "('d, 'b) blockdb \<Rightarrow> (block \<Rightarrow> string + string) \<Rightarrow> 'd \<Rightarrow> u64 \<Rightarrow> u64 \<Rightarrow> cmd_error + view_line" where
  "view D to_json d chain_id block_number =
     (case db_get D d chain_id block_number of
        Inl e \<Rightarrow> Inl (DbErr e)
      | Inr (Some b) \<Rightarrow> map_ok ViewText (map_err JsonErr (to_json b))
      | Inr None \<Rightarrow> Inr (BlockNotFound chain_id block_number))"

definition view_rules_update_heights :: "('d, 'b) blockdb \<Rightarrow> 'd \<Rightarrow> u64 \<Rightarrow> cmd_error + view_line" where
  "view_rules_update_heights D d chain_id =
     (case db_get_rules_update_heights D d chain_id of
        Inl e \<Rightarrow> Inl (DbErr e)
      | Inr (Some data) \<Rightarrow> Inr (ViewData data)
      | Inr None \<Rightarrow> Inr (NoRulesFound chain_id))"

definition view_corrections :: "('d, 'b) blockdb \<Rightarrow> 'd \<Rightarrow> u64 \<Rightarrow> cmd_error + view_line" where
  "view_corrections D d chain_id =
     (case db_get_corrections D d chain_id of
        Inl e \<Rightarrow> Inl (DbErr e)
      | Inr (Some data) \<Rightarrow> Inr (ViewData data)
      | Inr None \<Rightarrow> Inr (NoCorrectionsFound chain_id))"

subsection \<open>Importing metadata\<close>

definition import_file ::
  "('d \<Rightarrow> u64 \<Rightarrow> bytes \<Rightarrow> (error + unit) \<times> 'd) \<Rightarrow> (string \<Rightarrow> string + bytes) \<Rightarrow> 'd \<Rightarrow> u64 \<Rightarrow> string \<Rightarrow>
    (cmd_error + unit) \<times> 'd" where
  "import_file put read_file d chain_id file =
     (case read_file file of
        Inl e \<Rightarrow> (Inl (ReadErr e), d)
      | Inr data \<Rightarrow> (case put d chain_id data of (r, d') \<Rightarrow> (map_err DbErr r, d')))"

definition import_rules_update_heights ::
  "('d, 'b) blockdb \<Rightarrow> (string \<Rightarrow> string + bytes) \<Rightarrow> 'd \<Rightarrow> u64 \<Rightarrow> string \<Rightarrow> (cmd_error + unit) \<times> 'd" where
  "import_rules_update_heights D = import_file (db_put_rules_update_heights D)"

definition import_corrections ::
  "('d, 'b) blockdb \<Rightarrow> (string \<Rightarrow> string + bytes) \<Rightarrow> 'd \<Rightarrow> u64 \<Rightarrow> string \<Rightarrow> (cmd_error + unit) \<times> 'd" where
  "import_corrections D = import_file (db_put_corrections D)"

definition import_failed_bundles ::
  "('d, 'b) blockdb \<Rightarrow> (string \<Rightarrow> string + bytes) \<Rightarrow> 'd \<Rightarrow> u64 \<Rightarrow> string \<Rightarrow> (cmd_error + unit) \<times> 'd" where
  "import_failed_bundles D = import_file (db_put_failed_bundles D)"

subsection \<open>Counting blocks\<close>

lemma card_range_set:
  assumes "range_start r \<le> range_end r"
  shows "of_nat (card (range_set r)) = range_len r"
proof -
  have "card (range_set r) = length (sorted_list_of_set {range_start r .. range_end r})"
    by (simp only: sorted_list_of_set.length_sorted_key_list_of_set range_set_def)
  also have "\<dots> = Suc (unat (range_end r - range_start r))"
    unfolding word_seq_interval [OF assms, symmetric] by (rule length_word_seq)
  finally show ?thesis by (simp add: range_len_def)
qed

lemma sum_range_len: "canonical rs \<Longrightarrow> sum_list (map range_len rs) = of_nat (card (ranges_set rs))"
proof (induction rs)
  case (Cons r rs)
  note c = canonical_ConsD [OF Cons.prems]
  have "range_start r \<le> range_end r" using Cons.prems by (simp add: canonical_def)
  from card_range_set [OF this] Cons.IH [OF c(1)] c(2) show ?case
    by (simp add: card_Un_disjoint)
qed simp

context block_store
begin

lemma purge_ok:
  assumes inv: "inv d" and run: "purge D d c from_opt to_opt input = ((r, ls), d')"
  shows "inv d'"
    and "d' \<noteq> d \<Longrightarrow> \<exists>n from to text. input = Inr text \<and> trim text \<in> {''y'', ''Y''} \<and> from \<le> to \<and> PurgePrompt n from to c \<in> set ls \<and>
      (abs d' = abs_delete c from to (abs d) \<or> abs d' = abs d)"
    and "BlocksPurged \<in> set ls \<Longrightarrow> PurgePrompt n from to c \<in> set ls \<Longrightarrow> abs d' = abs_delete c from to (abs d)"
    and "PurgePrompt n from to c' \<in> set ls \<Longrightarrow> to \<noteq> u64_max \<Longrightarrow> n = of_nat (card (stored (abs d) c \<inter> {from .. to})) \<and> c' = c"
proof -
  have del: "inv d1 \<and> abs d1 = effect (abs_delete c a b) r1 (abs d)" if "db_delete_range D d c a b = (r1, d1)" for a b r1 d1
    by (rule delete_law [OF inv that])
  have cnt: "sum_list (map range_len (intersect_ranges (BlockRange a b) rs)) = of_nat (card (stored (abs d) c \<inter> {a .. b}))"
    if g: "db_get_ranges_of_chain_id D d c = Inr rs" and ab: "a \<le> b" "b \<noteq> u64_max" for a b rs
  proof -
    note L = ranges_law [OF inv g]
    have um: "u64_max \<notin> ranges_set (intersect_segments (BlockRange a b) rs [])"
      using ab by (auto simp: intersect_segments_set range_set_def)
    have "canonical (intersect_ranges (BlockRange a b) rs)"
      using um by (simp add: intersect_ranges_def canonical_canonicalize_iff)
    then show ?thesis using L
      by (simp add: sum_range_len intersect_ranges_def intersect_segments_set range_set_def Int_commute)
  qed
  show "inv d'" using run inv del
    by (auto simp: purge_def Let_def split: if_splits sum.splits prod.splits)
  show "\<exists>n from to text. input = Inr text \<and> trim text \<in> {''y'', ''Y''} \<and> from \<le> to \<and> PurgePrompt n from to c \<in> set ls \<and>
      (abs d' = abs_delete c from to (abs d) \<or> abs d' = abs d)" if "d' \<noteq> d"
    using run that del
    by (auto simp: purge_def Let_def not_less split: if_splits sum.splits prod.splits)
  show "abs d' = abs_delete c from to (abs d)" if "BlocksPurged \<in> set ls" "PurgePrompt n from to c \<in> set ls"
    using run that del
    by (auto simp: purge_def Let_def split: if_splits sum.splits prod.splits)
  show "n = of_nat (card (stored (abs d) c \<inter> {from .. to})) \<and> c' = c" if "PurgePrompt n from to c' \<in> set ls" "to \<noteq> u64_max"
    using run that cnt
    by (auto simp: purge_def Let_def not_less split: if_splits sum.splits prod.splits)
qed

end

subsection \<open>What a listing shows\<close>

lemma sorted_remdups_adj_strict: "sorted xs \<Longrightarrow> sorted_wrt (<) (remdups_adj (xs :: 'a::linorder list))"
  by (induction xs rule: remdups_adj.induct) auto

lemma collect_results_Inr_map:
  "collect_results (map f xs) = Inr ys \<longleftrightarrow> list_all2 (\<lambda>x y. f x = Inr y) xs ys"
proof (induction xs arbitrary: ys)
  case Nil
  then show ?case by auto
next
  case (Cons x xs)
  then show ?case
    by (cases "f x"; cases "collect_results (map f xs)") (auto simp: list_all2_Cons1)
qed

context block_store
begin

lemma local_listing_ok:
  assumes "inv d" and "local_listing D d c = Inr l"
  shows "\<exists>rs. l = (c, rs, rules (abs d) c \<noteq> None, corrections (abs d) c \<noteq> None) \<and>
    nonempty_ranges rs \<and> ranges_set rs = stored (abs d) c"
  using assms ranges_law [OF assms(1)] by (fastforce simp: local_listing_def dest: rules_law corrections_law)

lemma local_chain_ids_ok:
  assumes "inv d" and "local_chain_ids D cfg d None = Inr ids"
  shows "sorted_wrt (<) ids \<and> set ids = chains (abs d) \<union> set (map cc_id (cfg_chains cfg))"
  using assms chain_ids_law [OF assms(1)]
  by (auto simp: local_chain_ids_def config_chain_ids_def sorted_remdups_adj_strict)

end

subsection \<open>Properties\<close>

text \<open>C21: purging never breaks the database; it changes it only after the user answered y or Y,
  and then it deletes exactly the blocks of the range it announced or, on a storage error,
  nothing; when it reports success exactly these blocks are gone; and the number it announces is
  the number of stored blocks in the range (a range that does not end at \<open>u64::MAX\<close>).\<close>

theorem purge_correct:
  assumes "rocks_block_db R rview wview healthy ho" and "db_inv (rview (rocks_inner d))"
    and "purge (rocks_blockdb R ho pr) d c from_opt to_opt input = ((r, ls), d')"
    and "s = abs_of (rview (rocks_inner d))" and "s' = abs_of (rview (rocks_inner d'))"
  shows "db_inv (rview (rocks_inner d')) \<and>
    (d' \<noteq> d \<longrightarrow> (\<exists>n from to text. input = Inr text \<and> trim text \<in> {''y'', ''Y''} \<and> from \<le> to \<and> PurgePrompt n from to c \<in> set ls \<and>
       (s' = abs_delete c from to s \<or> s' = s))) \<and>
    (\<forall>n from to c'. PurgePrompt n from to c' \<in> set ls \<longrightarrow> to \<noteq> u64_max \<longrightarrow>
       n = of_nat (card (stored s c \<inter> {from .. to})) \<and> c' = c) \<and>
    (\<forall>n from to. BlocksPurged \<in> set ls \<longrightarrow> PurgePrompt n from to c \<in> set ls \<longrightarrow> s' = abs_delete c from to s)"
proof -
  note P = block_store.purge_ok [OF rocks_block_db.rocks_block_store [OF assms(1), of pr] assms(2,3)]
  show ?thesis unfolding assms(4,5) using P by blast
qed

definition ex_purge :: "((cmd_error + unit) \<times> purge_line list) \<times> mem_db rocks_db" where
  "ex_purge = purge mem_blockdb ex_db2 1 None (Some 8) (Inr '' y '')"

theorem purge_correct_witness:
  "fst ex_purge = (Inr (), [PurgePrompt 2 0 8 1, BlocksPurged]) \<and>
   abs_of (mem_view (rocks_inner (snd ex_purge))) = abs_delete 1 0 8 (abs_of (mem_view (rocks_inner ex_db2)))"
proof -
  have f: "fst ex_purge = (Inr (), [PurgePrompt 2 0 8 1, BlocksPurged])" by code_simp
  then have "ex_purge = ((Inr (), [PurgePrompt 2 0 8 1, BlocksPurged]), snd ex_purge)" by (metis prod.collapse)
  from purge_correct [OF memdb.rocks_block_db_axioms ex_inv this [unfolded ex_purge_def] refl refl]
  show ?thesis using f by (simp add: ex_purge_def)
qed

text \<open>C33: the local listing of all chains shows each chain that the database or the
  configuration knows exactly once, in ascending order, with exactly the stored block numbers
  as ranges and with the metadata that is present.\<close>

theorem local_listing_correct:
  assumes "rocks_block_db R rview wview healthy ho" and "db_inv (rview (rocks_inner d))"
    and "local_chain_ids (rocks_blockdb R ho pr) cfg d None = Inr ids"
    and "collect_results (map (local_listing (rocks_blockdb R ho pr) d) ids) = Inr ls"
    and "s = abs_of (rview (rocks_inner d))"
  shows "sorted_wrt (<) ids \<and> set ids = chains s \<union> set (map cc_id (cfg_chains cfg)) \<and> map fst ls = ids \<and>
    (\<forall>(c, rs, has_rules, has_corrections) \<in> set ls. ranges_set rs = stored s c \<and>
       (has_rules \<longleftrightarrow> rules s c \<noteq> None) \<and> (has_corrections \<longleftrightarrow> corrections s c \<noteq> None))"
proof -
  note B = rocks_block_db.rocks_block_store [OF assms(1), of pr]
  have all: "list_all2 (\<lambda>c l. local_listing (rocks_blockdb R ho pr) d c = Inr l) ids ls"
    using assms(4) by (simp add: collect_results_Inr_map)
  note ok = block_store.local_listing_ok [OF B assms(2)]
  have "map fst ls = ids"
    using all by (induction rule: list_all2_induct) (auto dest!: ok)
  moreover have "ranges_set rs = stored s c \<and> (hr \<longleftrightarrow> rules s c \<noteq> None) \<and> (hc \<longleftrightarrow> corrections s c \<noteq> None)"
    if "(c, rs, hr, hc) \<in> set ls" for c rs hr hc
  proof -
    from all that obtain c' where "local_listing (rocks_blockdb R ho pr) d c' = Inr (c, rs, hr, hc)"
      by (auto simp: list_all2_conv_all_nth in_set_conv_nth)
    from ok [OF this] show ?thesis by (auto simp: assms(5))
  qed
  ultimately show ?thesis using block_store.local_chain_ids_ok [OF B assms(2,3)] unfolding assms(5) by blast
qed

theorem local_listing_correct_witness:
  "set (map cc_id (cfg_chains ex_config)) \<union> chains (abs_of (mem_view (rocks_inner ex_db2))) = {1, 2, 146} \<and>
   local_chain_ids mem_blockdb ex_config ex_db2 None = Inr [1, 2, 146]"
proof -
  have i: "local_chain_ids mem_blockdb ex_config ex_db2 None = Inr [1, 2, 146]" by code_simp
  have l: "collect_results (map (local_listing mem_blockdb ex_db2) [1, 2, 146]) =
      Inr [(1, [BlockRange 5 6, BlockRange 9 9], False, False), (2, [BlockRange 7 7], False, False), (146, [], False, False)]"
    by code_simp
  show ?thesis using i local_listing_correct [OF memdb.rocks_block_db_axioms ex_inv i l refl] by auto
qed

end
