(* ===== verification/Cmd_Verify.thy ===== *)
theory Cmd_Verify
  imports Cmd_Local
begin

section \<open>Verifying the stored chain\<close>

text \<open>
  blockservice/src/cmd/verify.rs: recomputing block hashes and comparing them with the parent
  hashes of the next blocks. Parsing the stored failed bundles (serde_json) is the parameter
  \<open>parse_bundles\<close>; the cancellation token is polled once per block, \<open>cancelled i\<close> is
  its answer to poll \<open>i\<close>. The progress bar and the sum of block counts that it is given are
  not modelled. Shown: the command reports success exactly when every stored block from the
  start on is stored under its own number and, unless it contains failed bundles, has the hash
  that its successor names as parent.
\<close>

subsection \<open>The command\<close>

datatype hash_source = GivenHash | ParentHashIn u64

datatype verify_line =
    ToleratedMismatch u64 u64
  | HashMismatch u64 u64 hash hash_source hash
  | RequestedBlockMissing u64 u64
  | NumberMismatch u64 u64 u64
  | VerificationCancelled
  | BlocksVerified u64
  | VerificationErrors u64 u64

record verify_state =
  vs_warned :: bool
  vs_errors :: u64
  vs_lines :: "verify_line list"

definition report :: "verify_line \<Rightarrow> verify_state \<Rightarrow> verify_state" where
  "report l st = st\<lparr>vs_lines := vs_lines st @ [l]\<rparr>"

definition report_error :: "verify_line \<Rightarrow> verify_state \<Rightarrow> verify_state" where
  "report_error l st = report l (st\<lparr>vs_errors := vs_errors st + 1\<rparr>)"

definition check_block_hash ::
  "u64 \<Rightarrow> u64 \<Rightarrow> hash \<Rightarrow> hash \<Rightarrow> hash_source \<Rightarrow> u64 set \<Rightarrow> verify_state \<Rightarrow> verify_state" where
  "check_block_hash chain_id block_number hash expected_hash src bundles st =
     (if hash = expected_hash then st
      else if block_number \<in> bundles then
        (if \<not> vs_warned st then report (ToleratedMismatch chain_id block_number) (st\<lparr>vs_warned := True\<rparr>) else st)
      else report_error (HashMismatch chain_id block_number hash src expected_hash) st)"

definition verify_block ::
  "eth \<Rightarrow> u64 \<Rightarrow> u64 set \<Rightarrow> u64 \<Rightarrow> hash option \<Rightarrow> u64 \<Rightarrow> block \<Rightarrow> verify_state \<Rightarrow> verify_state" where
  "verify_block E chain_id bundles prev_number prev_hash block_number b st =
     (let st1 = (if b_number b \<noteq> block_number then report_error (NumberMismatch chain_id block_number (b_number b)) st else st);
          prev_hash' = (if prev_number + 1 \<noteq> block_number then None else prev_hash)
      in case prev_hash' of
           Some h \<Rightarrow> check_block_hash chain_id prev_number h (b_parent_hash b) (ParentHashIn block_number) bundles st1
         | None \<Rightarrow> st1)"

fun verify_loop ::
  "eth \<Rightarrow> u64 \<Rightarrow> u64 set \<Rightarrow> (nat \<Rightarrow> bool) \<Rightarrow> nat \<Rightarrow> u64 \<Rightarrow> hash option \<Rightarrow> (error + u64 \<times> block) list \<Rightarrow>
    verify_state \<Rightarrow> (cmd_error + unit) \<times> verify_state" where
  "verify_loop E chain_id bundles cancelled i prev_number prev_hash [] st = (Inr (), st)"
| "verify_loop E chain_id bundles cancelled i prev_number prev_hash (entry # rest) st =
     (if cancelled i then (Inr (), report VerificationCancelled st)
      else case entry of
        Inl e \<Rightarrow> (Inl (DbErr e), st)
      | Inr (block_number, b) \<Rightarrow>
          verify_loop E chain_id bundles cancelled (Suc i) block_number (Some (block_hash E b)) rest
            (verify_block E chain_id bundles prev_number prev_hash block_number b st))"

definition stored_bundles ::
  "('d, 'b) blockdb \<Rightarrow> (bytes \<Rightarrow> string + u64 list) \<Rightarrow> 'd \<Rightarrow> u64 \<Rightarrow> cmd_error + u64 set" where
  "stored_bundles D parse_bundles d chain_id =
     (case db_get_failed_bundles D d chain_id of
        Inl e \<Rightarrow> Inl (DbErr e)
      | Inr None \<Rightarrow> Inr {}
      | Inr (Some data) \<Rightarrow> map_ok set (map_err FailedBundlesParse (parse_bundles data)))"

definition verify_given ::
  "('d, 'b) blockdb \<Rightarrow> eth \<Rightarrow> 'd \<Rightarrow> u64 \<Rightarrow> u64 set \<Rightarrow> u64 option \<Rightarrow> hash option \<Rightarrow> verify_state \<Rightarrow>
    cmd_error + verify_state" where
  "verify_given D E d chain_id bundles block_number expected st =
     (case (block_number, expected) of
        (Some n, Some h) \<Rightarrow>
          (case db_get D d chain_id n of
             Inl e \<Rightarrow> Inl (DbErr e)
           | Inr (Some b) \<Rightarrow> Inr (check_block_hash chain_id n (block_hash E b) h GivenHash bundles st)
           | Inr None \<Rightarrow> Inr (report_error (RequestedBlockMissing chain_id n) st))
      | _ \<Rightarrow> Inr st)"

definition verify ::
  "('d, 'b) blockdb \<Rightarrow> eth \<Rightarrow> (bytes \<Rightarrow> string + u64 list) \<Rightarrow> (nat \<Rightarrow> bool) \<Rightarrow> 'd \<Rightarrow> u64 \<Rightarrow> u64 option \<Rightarrow> hash option \<Rightarrow>
    (cmd_error + unit) \<times> verify_line list" where
  "verify D E parse_bundles cancelled d chain_id block_number expected =
     (let st0 = \<lparr>vs_warned = False, vs_errors = 0, vs_lines = []\<rparr> in
      case stored_bundles D parse_bundles d chain_id of
        Inl e \<Rightarrow> (Inl e, [])
      | Inr bundles \<Rightarrow>
     (case verify_given D E d chain_id bundles block_number expected st0 of
        Inl e \<Rightarrow> (Inl e, [])
      | Inr st1 \<Rightarrow>
          let start = (case block_number of None \<Rightarrow> 0 | Some n \<Rightarrow> n) in
          case db_get_ranges_of_chain_id D d chain_id of
            Inl e \<Rightarrow> (Inl (DbErr e), vs_lines st1)
          | Inr ranges \<Rightarrow>
              case verify_loop E chain_id bundles cancelled 0 start None (db_iterate D d chain_id start Forward) st1 of
                (Inl e, st2) \<Rightarrow> (Inl e, vs_lines st2)
              | (Inr u, st2) \<Rightarrow>
                  (Inr (), vs_lines st2 @
                    [if vs_errors st2 = 0 then BlocksVerified chain_id else VerificationErrors chain_id (vs_errors st2)])))"

subsection \<open>Specification\<close>

definition linked :: "eth \<Rightarrow> u64 set \<Rightarrow> (u64 \<times> block) list \<Rightarrow> bool" where
  "linked E bundles xs \<longleftrightarrow>
     (\<forall>(n, b) \<in> set xs. b_number b = n) \<and>
     successively (\<lambda>(m, a) (n, b). m + 1 = n \<longrightarrow> m \<in> bundles \<or> b_parent_hash b = block_hash E a) xs"

fun violations :: "eth \<Rightarrow> u64 set \<Rightarrow> (u64 \<times> hash) option \<Rightarrow> (u64 \<times> block) list \<Rightarrow> nat" where
  "violations E bundles prev [] = 0"
| "violations E bundles prev ((n, b) # xs) =
     (if b_number b \<noteq> n then 1 else 0) +
     (case prev of None \<Rightarrow> 0 | Some (m, h) \<Rightarrow> if m + 1 = n \<and> h \<noteq> b_parent_hash b \<and> m \<notin> bundles then 1 else 0) +
     violations E bundles (Some (n, block_hash E b)) xs"

lemma violations_zero:
  "violations E bundles prev xs = 0 \<longleftrightarrow>
     linked E bundles xs \<and>
     (case (prev, xs) of (Some (m, h), (n, b) # _) \<Rightarrow> m + 1 = n \<longrightarrow> m \<in> bundles \<or> b_parent_hash b = h | _ \<Rightarrow> True)"
proof (induction xs arbitrary: prev)
  case Nil
  then show ?case by (simp add: linked_def split: option.split)
next
  case (Cons x xs)
  obtain n b where x: "x = (n, b)" by (cases x)
  show ?case
    unfolding x violations.simps add_is_0 Cons.IH
    by (cases xs) (auto simp: linked_def split: option.splits prod.splits)
qed

lemma violations_le: "violations E bundles prev xs \<le> 2 * length xs"
proof (induction xs arbitrary: prev)
  case (Cons x xs)
  obtain n b where x: "x = (n, b)" by (cases x)
  show ?case using Cons [of "Some (n, block_hash E b)"] by (auto simp: x split: option.splits)
qed simp

lemma vs_errors_report [simp]:
  "vs_errors (report l st) = vs_errors st" "vs_errors (report_error l st) = vs_errors st + 1"
  by (simp_all add: report_def report_error_def)

lemma vs_errors_check:
  "vs_errors (check_block_hash c m h e src bundles st) = vs_errors st + (if h = e \<or> m \<in> bundles then 0 else 1)"
  by (auto simp: check_block_hash_def)

lemma vs_errors_verify_block:
  "vs_errors (verify_block E c bundles m ph n b st) =
     vs_errors st + of_nat ((if b_number b \<noteq> n then 1 else 0) +
       (case map_option (Pair m) ph of None \<Rightarrow> 0
        | Some (m, h) \<Rightarrow> if m + 1 = n \<and> h \<noteq> b_parent_hash b \<and> m \<notin> bundles then 1 else 0))"
  by (cases ph) (auto simp: verify_block_def Let_def vs_errors_check)

lemma verify_loop_errors:
  assumes "\<forall>i. \<not> cancelled i"
  shows "\<exists>st'. verify_loop E c bundles cancelled i m ph (map Inr xs) st = (Inr (), st') \<and>
    vs_errors st' = vs_errors st + of_nat (violations E bundles (map_option (Pair m) ph) xs)"
proof (induction xs arbitrary: i m ph st)
  case (Cons x xs)
  obtain n b where x: "x = (n, b)" by (cases x)
  show ?case
    using Cons [of "Suc i" n "Some (block_hash E b)" "verify_block E c bundles m ph n b st"] assms
    by (auto simp: x vs_errors_verify_block algebra_simps)
qed simp

context block_store_live
begin

definition decoded :: "abs_db \<Rightarrow> u64 \<Rightarrow> u64 \<Rightarrow> u64 \<times> block" where
  "decoded s c n = (n, projr (dec (the (blocks s c n))))"

lemma iterate_decoded:
  assumes "live d" and "inv d" and "\<forall>n \<in> stored (abs d) c. \<exists>b. dec (the (blocks (abs d) c n)) = Inr b"
  shows "db_iterate D d c start Forward = map Inr (map (decoded (abs d) c) (sorted_list_of_set {n \<in> stored (abs d) c. start \<le> n}))"
proof -
  have "decode_item dec (Inr (n, the (blocks (abs d) c n))) = Inr (decoded (abs d) c n)"
    if "n \<in> set (sorted_list_of_set {n \<in> stored (abs d) c. start \<le> n})" for n
    using assms(3) that by (auto simp: decode_item_def decoded_def)
  then show ?thesis
    unfolding iterate_law iterate_bytes_live [OF assms(1,2)] block_entries_def by simp
qed

lemma verify_live:
  assumes "live d" and "inv d" and "\<forall>n \<in> stored (abs d) c. \<exists>b. dec (the (blocks (abs d) c n)) = Inr b"
    and "stored_bundles D pb d c = Inr bundles" and "\<forall>i. \<not> cancelled i" and "2 * card (stored (abs d) c) < 2 ^ 64"
    and "start = (case start_opt of None \<Rightarrow> 0 | Some n \<Rightarrow> n)"
  shows "\<exists>ls. verify D E pb cancelled d c start_opt None = (Inr (), ls) \<and> ls \<noteq> [] \<and>
    (last ls = BlocksVerified c \<longleftrightarrow>
       linked E bundles (map (decoded (abs d) c) (sorted_list_of_set {n \<in> stored (abs d) c. start \<le> n})))"
proof -
  define xs where "xs = map (decoded (abs d) c) (sorted_list_of_set {n \<in> stored (abs d) c. start \<le> n})"
  let ?st0 = "\<lparr>vs_warned = False, vs_errors = 0, vs_lines = []\<rparr>"
  obtain rs where rs: "db_get_ranges_of_chain_id D d c = Inr rs" using ranges_live [OF assms(1,2)] by blast
  obtain st' where loop: "verify_loop E c bundles cancelled 0 start None (map Inr xs) ?st0 = (Inr (), st')"
    "vs_errors st' = of_nat (violations E bundles None xs)"
    using verify_loop_errors [OF assms(5), of E c bundles 0 start None xs ?st0] by auto
  have "length xs \<le> card (stored (abs d) c)" by (simp add: xs_def card_mono)
  then have "violations E bundles None xs < 2 ^ 64"
    using violations_le [of E bundles None xs] assms(6) by linarith
  then have "unat (vs_errors st') = violations E bundles None xs" unfolding loop(2) by (subst unat_of_nat) simp
  then have "vs_errors st' = 0 \<longleftrightarrow> violations E bundles None xs = 0" by (metis unat_eq_zero)
  then have "vs_errors st' = 0 \<longleftrightarrow> linked E bundles xs" by (simp add: violations_zero)
  moreover have "verify D E pb cancelled d c start_opt None = (Inr (), vs_lines st' @
      [if vs_errors st' = 0 then BlocksVerified c else VerificationErrors c (vs_errors st')])"
    using assms(4,7) rs loop(1) iterate_decoded [OF assms(1-3), of start, folded xs_def]
    by (simp add: verify_def verify_given_def split: option.splits)
  ultimately show ?thesis unfolding xs_def by auto
qed

end

subsection \<open>Properties\<close>

text \<open>C11: on a store that does not fail, with blocks that decode, verification that is not
  cancelled ends with the success message exactly when, from the start block on, every block is
  stored under its own number and the parent hash of every block whose predecessor is stored too
  is the recomputed hash of that predecessor, apart from predecessors with failed bundles.\<close>

theorem verify_correct:
  assumes "rocks_block_db R rview wview healthy ho" and "healthy (rocks_inner d)" and "db_inv (rview (rocks_inner d))"
    and "s = abs_of (rview (rocks_inner d))"
    and "\<forall>n \<in> stored s c. \<exists>b. decode_block pr (the (blocks s c n)) = Inr b"
    and "stored_bundles (rocks_blockdb R ho pr) pb d c = Inr bundles" and "\<forall>i. \<not> cancelled i"
    and "2 * card (stored s c) < 2 ^ 64" and "start = (case start_opt of None \<Rightarrow> 0 | Some n \<Rightarrow> n)"
  shows "\<exists>ls. verify (rocks_blockdb R ho pr) E pb cancelled d c start_opt None = (Inr (), ls) \<and> ls \<noteq> [] \<and>
    (last ls = BlocksVerified c \<longleftrightarrow>
       linked E bundles (map (\<lambda>n. (n, projr (decode_block pr (the (blocks s c n)))))
         (sorted_list_of_set {n \<in> stored s c. start \<le> n})))"
proof -
  note L = rocks_block_db.rocks_block_store_live [OF assms(1), of pr]
  from block_store_live.verify_live [OF L assms(2,3) assms(5) [unfolded assms(4)] assms(6,7) assms(8) [unfolded assms(4)] assms(9), of E]
  show ?thesis unfolding block_store_live.decoded_def [OF L, abs_def] assms(4) .
qed

definition ex_eth :: eth where
  "ex_eth = plain_eth\<lparr>rlp_encode := (\<lambda>_. []), keccak256 := (\<lambda>_. zero_bytes 32)\<rparr>"

definition ex_chain_db :: "mem_db rocks_db" where
  "ex_chain_db = snd (db_put mem_blockdb (snd (db_put mem_blockdb ex_db1 9 default_block)) 9 (default_block\<lparr>b_number := 1\<rparr>))"

lemma ex_put:
  assumes "mem_fault (rocks_inner d) = None" and "db_inv (mem_view (rocks_inner d))"
  shows "mem_fault (rocks_inner (snd (db_put mem_blockdb d c b))) = None"
    and "db_inv (mem_view (rocks_inner (snd (db_put mem_blockdb d c b))))"
    and "abs_of (mem_view (rocks_inner (snd (db_put mem_blockdb d c b)))) =
      abs_put c (b_number b) (encode_block wire_prost b) (abs_of (mem_view (rocks_inner d)))"
proof -
  note S = memdb.rocks_block_store and L = memdb.rocks_block_store_live
  obtain d' where d': "db_put_bytes mem_blockdb d c (b_number b) (encode_block wire_prost b) = (Inr (), d')"
    "mem_fault (rocks_inner d') = None"
    using block_store_live.put_bytes_live [OF L assms] by blast
  then have "db_put mem_blockdb d c b = (Inr (), d')" using block_store.put_law [OF S] by simp
  then show "mem_fault (rocks_inner (snd (db_put mem_blockdb d c b))) = None"
    "db_inv (mem_view (rocks_inner (snd (db_put mem_blockdb d c b))))"
    "abs_of (mem_view (rocks_inner (snd (db_put mem_blockdb d c b)))) =
      abs_put c (b_number b) (encode_block wire_prost b) (abs_of (mem_view (rocks_inner d)))"
    using d'(2) block_store.put_bytes_law [OF S assms(2) d'(1)] by simp_all
qed

lemma ex_chain:
  "mem_fault (rocks_inner ex_chain_db) = None" "db_inv (mem_view (rocks_inner ex_chain_db))"
  "abs_of (mem_view (rocks_inner ex_chain_db)) =
     abs_put 9 1 (encode_block wire_prost (default_block\<lparr>b_number := 1\<rparr>)) (abs_put 9 0 (encode_block wire_prost default_block) abs_empty)"
proof -
  have ok: "db_inv (mem_view (rocks_inner ex_db1))" "abs_of (mem_view (rocks_inner ex_db1)) = abs_empty"
    using kv_store.create_ok [OF mem.rocks_store ex_created] by (simp_all add: abs_empty_def)
  note p = ex_put [OF conjunct1 [OF conjunct2 [OF ex_healthy]] ok(1), of 9 default_block]
  note q = ex_put [OF p(1,2), of 9 "default_block\<lparr>b_number := 1\<rparr>"]
  show "mem_fault (rocks_inner ex_chain_db) = None" "db_inv (mem_view (rocks_inner ex_chain_db))"
    "abs_of (mem_view (rocks_inner ex_chain_db)) =
     abs_put 9 1 (encode_block wire_prost (default_block\<lparr>b_number := 1\<rparr>)) (abs_put 9 0 (encode_block wire_prost default_block) abs_empty)"
    using q(1,2) q(3) [unfolded p(3) ok(2)] by (simp_all add: ex_chain_db_def default_block_def)
qed

lemma ex_chain_decodes:
  "decode_block wire_prost (encode_block wire_prost default_block) = Inr default_block"
  "decode_block wire_prost (encode_block wire_prost (default_block\<lparr>b_number := 1\<rparr>)) = Inr (default_block\<lparr>b_number := 1\<rparr>)"
  by (rule wire.decode_encode_block, simp)
    (rule wire.decode_encode_block, simp add: wf_block_def default_block_def len_ok_def zero_bytes_def)

theorem verify_correct_witness:
  "\<exists>ls. verify mem_blockdb ex_eth (\<lambda>_. Inr []) (\<lambda>_. False) ex_chain_db 9 None None = (Inr (), ls) \<and> last ls = BlocksVerified 9"
proof -
  let ?s = "abs_of (mem_view (rocks_inner ex_chain_db))"
  have blk: "blocks ?s 9 = [0 \<mapsto> encode_block wire_prost default_block, 1 \<mapsto> encode_block wire_prost (default_block\<lparr>b_number := 1\<rparr>)]"
    unfolding ex_chain(3) by (simp add: abs_put_def abs_empty_def)
  then have st: "stored ?s 9 = {0, 1}" by (auto simp: stored_def)
  obtain fb where fb: "db_get_failed_bundles mem_blockdb ex_chain_db 9 = Inr fb"
    using block_store_live.failed_bundles_live [OF memdb.rocks_block_store_live ex_chain(1)] by blast
  then have "fb = None" using block_store.failed_bundles_law [OF memdb.rocks_block_store fb] ex_chain(3)
    by (simp add: abs_put_def abs_empty_def)
  then have bundles: "stored_bundles mem_blockdb (\<lambda>_. Inr []) ex_chain_db 9 = Inr {}"
    using fb by (simp add: stored_bundles_def)
  have dec: "\<forall>n \<in> stored ?s 9. \<exists>b. decode_block wire_prost (the (blocks ?s 9 n)) = Inr b"
    unfolding st blk by (simp add: ex_chain_decodes)
  have "{n \<in> stored ?s 9. 0 \<le> n} = {0, 1}" using st by auto
  then have sl: "sorted_list_of_set {n \<in> stored ?s 9. 0 \<le> n} = [0, 1]" by (simp only:) simp
  moreover have "linked ex_eth {} [(0, default_block), (1, default_block\<lparr>b_number := 1\<rparr>)]"
    by (simp add: linked_def block_hash_def compute_hash_def ex_eth_def default_block_def)
  ultimately have "linked ex_eth {} (map (\<lambda>n. (n, projr (decode_block wire_prost (the (blocks ?s 9 n)))))
      (sorted_list_of_set {n \<in> stored ?s 9. 0 \<le> n}))"
    unfolding sl blk by (simp add: ex_chain_decodes)
  moreover have "2 * card (stored ?s 9) < 2 ^ 64" unfolding st by simp
  ultimately show ?thesis
    using verify_correct [OF memdb.rocks_block_db_axioms ex_chain(1,2) refl dec bundles, of "\<lambda>_. False" 0 None ex_eth] by fastforce
qed

end
