(* ===== verification/Slice_Reader.thy ===== *)
theory Slice_Reader
  imports Rlp
begin

section \<open>Errors of the genesis parser and the slice reader\<close>

text \<open>
  genesis-parser/src/error.rs and g_file/slice_reader.rs. A \<open>Read\<close> source is the bytes it
  still delivers and the I/O error, if any, that it reports where its end of file would be. A
  decoding function takes the slice and returns its result with the part of the slice that it
  left. Sizes are natural numbers: the only subtractions on \<open>usize\<close> are shown not to
  underflow. The slice reader is shown to be equivalent to decoding from the whole stream at
  once, for items that are at most \<open>min_slice_size\<close> bytes long.
\<close>

subsection \<open>Errors\<close>

datatype gfile_error =
    HeaderMissing
  | InvalidHeader bytes bytes
  | HeaderMismatch
  | InvalidFileVersion bytes bytes
  | BlocksUnitMissing
  | PieceSizeTooLarge u64 u64

datatype genesis_error =
    GRlp rlp_error
  | GIo string
  | GDecompression string
  | GGFile gfile_error
  | GEra string
  | GE2S string

subsection \<open>Reading\<close>

record source =
  src_bytes :: bytes
  src_error :: "string option"

definition read_to_end_take :: "nat \<Rightarrow> source \<Rightarrow> (genesis_error + unit) \<times> bytes \<times> source" where
  "read_to_end_take n src =
     (if n \<le> length (src_bytes src)
      then (Inr (), take n (src_bytes src), src\<lparr>src_bytes := drop n (src_bytes src)\<rparr>)
      else (case src_error src of None \<Rightarrow> Inr () | Some e \<Rightarrow> Inl (GIo e),
            src_bytes src, src\<lparr>src_bytes := []\<rparr>))"

record slice_reader =
  sr_reader :: source
  sr_reader_empty :: bool
  sr_buffer_size :: nat
  sr_min_slice_size :: nat
  sr_buffer :: bytes
  sr_buffer_idx :: nat

definition slice_reader_new :: "source \<Rightarrow> nat \<Rightarrow> nat \<Rightarrow> slice_reader" where
  "slice_reader_new src buffer_size min_slice_size =
     \<lparr>sr_reader = src, sr_reader_empty = False,
      sr_buffer_size = (if buffer_size < min_slice_size then min_slice_size * 2 else buffer_size),
      sr_min_slice_size = min_slice_size, sr_buffer = [], sr_buffer_idx = 0\<rparr>"

definition fill_buffer :: "slice_reader \<Rightarrow> (genesis_error + unit) \<times> slice_reader" where
  "fill_buffer st =
     (if sr_buffer_idx st + sr_min_slice_size st \<ge> length (sr_buffer st) \<and> \<not> sr_reader_empty st then
        let remaining = length (sr_buffer st) - sr_buffer_idx st;
            buffer = drop (sr_buffer_idx st) (sr_buffer st)
        in case read_to_end_take (sr_buffer_size st - remaining) (sr_reader st) of
             (r, data, reader) \<Rightarrow>
               let st' = st\<lparr>sr_reader := reader, sr_buffer := buffer @ data, sr_buffer_idx := 0\<rparr>
               in case r of
                    Inl e \<Rightarrow> (Inl e, st')
                  | Inr u \<Rightarrow>
                      (Inr (), if length (buffer @ data) = remaining then st'\<lparr>sr_reader_empty := True\<rparr> else st')
      else (Inr (), st))"

definition process_with ::
  "(bytes \<Rightarrow> ('e + 'a) \<times> bytes) \<Rightarrow> ('e \<Rightarrow> genesis_error) \<Rightarrow> slice_reader \<Rightarrow>
    (genesis_error + 'a option) \<times> slice_reader" where
  "process_with f into st =
     (case fill_buffer st of
        (Inl e, st') \<Rightarrow> (Inl e, st')
      | (Inr u, st') \<Rightarrow>
          let slice = drop (sr_buffer_idx st') (sr_buffer st') in
          if slice = [] then (Inr None, st')
          else case f slice of
            (res, rest) \<Rightarrow>
              let consumed = length slice - length rest
              in (map_ok Some (map_err into res), st'\<lparr>sr_buffer_idx := sr_buffer_idx st' + consumed\<rparr>))"

subsection \<open>Invariant\<close>

definition unread :: "slice_reader \<Rightarrow> bytes" where
  "unread st = drop (sr_buffer_idx st) (sr_buffer st) @ src_bytes (sr_reader st)"

definition sr_inv :: "slice_reader \<Rightarrow> bool" where
  "sr_inv st \<longleftrightarrow>
     sr_buffer_idx st \<le> length (sr_buffer st) \<and> length (sr_buffer st) \<le> sr_buffer_size st \<and>
     0 < sr_min_slice_size st \<and> sr_min_slice_size st < sr_buffer_size st \<and>
     (sr_reader_empty st \<longrightarrow> src_bytes (sr_reader st) = [])"

lemma slice_reader_new_ok:
  assumes "0 < m" and "m \<noteq> n"
  shows "sr_inv (slice_reader_new src n m)" "unread (slice_reader_new src n m) = src_bytes src"
  using assms by (auto simp: slice_reader_new_def sr_inv_def unread_def)

lemma read_to_end_take_ok:
  assumes "read_to_end_take n src = (r, data, src')"
  shows "data @ src_bytes src' = src_bytes src" "length data \<le> n" "src_error src' = src_error src"
    "src_bytes src' \<noteq> [] \<Longrightarrow> length data = n" "src_error src = None \<Longrightarrow> r = Inr ()"
  using assms by (auto simp: read_to_end_take_def split: if_splits option.splits)

lemma fill_buffer_ok:
  assumes "sr_inv st" and "fill_buffer st = (r, st')"
  shows "sr_inv st'" "unread st' = unread st" "src_error (sr_reader st') = src_error (sr_reader st)"
    "sr_min_slice_size st' = sr_min_slice_size st"
    "src_error (sr_reader st) = None \<Longrightarrow> r = Inr ()"
    "length (sr_buffer st) - sr_buffer_idx st \<le> sr_buffer_size st"
    "src_bytes (sr_reader st') \<noteq> [] \<Longrightarrow>
       sr_min_slice_size st \<le> length (drop (sr_buffer_idx st') (sr_buffer st'))"
proof -
  let ?refill = "sr_buffer_idx st + sr_min_slice_size st \<ge> length (sr_buffer st) \<and> \<not> sr_reader_empty st"
  let ?n = "sr_buffer_size st - (length (sr_buffer st) - sr_buffer_idx st)"
  obtain r0 data src where rd: "read_to_end_take ?n (sr_reader st) = (r0, data, src)" by (metis prod_cases3)
  note R = read_to_end_take_ok [OF rd]
  have n: "?n > 0" if ?refill using assms(1) that by (auto simp: sr_inv_def)
  show "length (sr_buffer st) - sr_buffer_idx st \<le> sr_buffer_size st"
    using assms(1) by (auto simp: sr_inv_def)
  consider (refill) ?refill | (keep) "\<not> ?refill" by blast
  then have "sr_inv st' \<and> unread st' = unread st \<and> src_error (sr_reader st') = src_error (sr_reader st) \<and>
      sr_min_slice_size st' = sr_min_slice_size st \<and> (src_error (sr_reader st) = None \<longrightarrow> r = Inr ()) \<and>
      (src_bytes (sr_reader st') \<noteq> [] \<longrightarrow> sr_min_slice_size st \<le> length (drop (sr_buffer_idx st') (sr_buffer st')))"
  proof cases
    case refill
    have "src_bytes src = []" if "data = []" using R(4) that n [OF refill] by auto
    moreover have "length data + (length (sr_buffer st) - sr_buffer_idx st) \<le> sr_buffer_size st"
      using R(2) assms(1) by (auto simp: sr_inv_def)
    moreover have "sr_min_slice_size st \<le> length data + (length (sr_buffer st) - sr_buffer_idx st)" if "src_bytes src \<noteq> []"
      using R(4) [OF that] assms(1) by (auto simp: sr_inv_def)
    moreover define st1 where "st1 = st\<lparr>sr_reader := src, sr_buffer := drop (sr_buffer_idx st) (sr_buffer st) @ data, sr_buffer_idx := 0\<rparr>"
    moreover have "(r, st') = (r0, if r0 = Inr () \<and> data = [] then st1\<lparr>sr_reader_empty := True\<rparr> else st1)"
      unfolding assms(2) [symmetric] fill_buffer_def if_P [OF refill] Let_def rd prod.case st1_def
      by (cases r0) auto
    ultimately show ?thesis
      using assms(1) R(1,3,5) by (auto simp: sr_inv_def unread_def)
  next
    case keep
    then show ?thesis using assms by (auto simp: fill_buffer_def sr_inv_def)
  qed
  then show "sr_inv st'" "unread st' = unread st" "src_error (sr_reader st') = src_error (sr_reader st)"
    "sr_min_slice_size st' = sr_min_slice_size st" "src_error (sr_reader st) = None \<Longrightarrow> r = Inr ()"
    "src_bytes (sr_reader st') \<noteq> [] \<Longrightarrow>
       sr_min_slice_size st \<le> length (drop (sr_buffer_idx st') (sr_buffer st'))"
    by blast+
qed

subsection \<open>Equivalence with decoding the whole stream\<close>

definition decodes :: "(bytes \<Rightarrow> ('e + 'a) \<times> bytes) \<Rightarrow> bytes \<Rightarrow> 'a \<Rightarrow> bool" where
  "decodes f x v \<longleftrightarrow> x \<noteq> [] \<and> (\<forall>ys. f (x @ ys) = (Inr v, ys))"

lemma process_with_item:
  assumes "sr_inv st" and "src_error (sr_reader st) = None" and "unread st = x @ rest"
    and "decodes f x v" and "length x \<le> sr_min_slice_size st"
  shows "\<exists>st'. process_with f into st = (Inr (Some v), st') \<and> sr_inv st' \<and> unread st' = rest \<and>
    src_error (sr_reader st') = None \<and> sr_min_slice_size st' = sr_min_slice_size st"
proof -
  obtain r st1 where fb: "fill_buffer st = (r, st1)" by fastforce
  note F = fill_buffer_ok [OF assms(1) fb]
  define slice where "slice = drop (sr_buffer_idx st1) (sr_buffer st1)"
  have u: "slice @ src_bytes (sr_reader st1) = x @ rest" using F(2) assms(3) by (simp add: unread_def slice_def)
  have "length x \<le> length slice"
  proof (cases "src_bytes (sr_reader st1) = []")
    case True
    then show ?thesis using u by simp
  next
    case False
    then show ?thesis using F(7) assms(5) by (simp add: slice_def)
  qed
  with u obtain ys where ys: "slice = x @ ys" "ys @ src_bytes (sr_reader st1) = rest"
    by (auto simp: append_eq_append_conv2)
  have len: "length (sr_buffer st1) = sr_buffer_idx st1 + length (x @ ys)"
    using F(1) arg_cong [OF ys(1), of length] by (auto simp: sr_inv_def slice_def)
  have "drop (sr_buffer_idx st1 + length x) (sr_buffer st1) = ys"
    using ys(1) by (metis add.commute append_eq_conv_conj drop_drop slice_def)
  then show ?thesis
    using fb F(1,3-5) assms(2,4) ys len
    by (auto simp: process_with_def decodes_def slice_def [symmetric] Let_def sr_inv_def unread_def)
qed

lemma process_with_end:
  assumes "sr_inv st" and "src_error (sr_reader st) = None" and "unread st = []"
  shows "\<exists>st'. process_with f into st = (Inr None, st') \<and> sr_inv st' \<and> unread st' = [] \<and>
    src_error (sr_reader st') = None \<and> sr_min_slice_size st' = sr_min_slice_size st"
proof -
  obtain r st1 where fb: "fill_buffer st = (r, st1)" by fastforce
  note F = fill_buffer_ok [OF assms(1) fb]
  have "drop (sr_buffer_idx st1) (sr_buffer st1) = []" using F(2) assms(3) by (simp add: unread_def)
  then show ?thesis using fb F assms by (auto simp: process_with_def Let_def)
qed

text \<open>The calls a consumer makes, up to the first that yields no item.\<close>

fun process_all ::
  "(bytes \<Rightarrow> ('e + 'a) \<times> bytes) \<Rightarrow> ('e \<Rightarrow> genesis_error) \<Rightarrow> nat \<Rightarrow> slice_reader \<Rightarrow> (genesis_error + 'a) list" where
  "process_all f into 0 st = []"
| "process_all f into (Suc n) st =
     (case process_with f into st of
        (Inl e, st') \<Rightarrow> [Inl e]
      | (Inr None, st') \<Rightarrow> []
      | (Inr (Some v), st') \<Rightarrow> Inr v # process_all f into n st')"

lemma process_all_items:
  assumes "sr_inv st" and "src_error (sr_reader st) = None" and "unread st = concat (map enc xs)"
    and "\<forall>x \<in> set xs. decodes f (enc x) x \<and> length (enc x) \<le> sr_min_slice_size st" and "length xs < n"
  shows "process_all f into n st = map Inr xs"
  using assms
proof (induction xs arbitrary: st n)
  case Nil
  then obtain n' where n: "n = Suc n'" using gr0_implies_Suc by auto
  obtain st' where "process_with f into st = (Inr None, st')"
    using process_with_end [OF Nil.prems(1,2)] Nil.prems(3) by auto
  then show ?case by (simp add: n)
next
  case (Cons x xs)
  then obtain n' where n: "n = Suc n'" by (cases n) auto
  have "unread st = enc x @ concat (map enc xs)" using Cons.prems(3) by simp
  then obtain st' where st': "process_with f into st = (Inr (Some x), st')" "sr_inv st'"
      "unread st' = concat (map enc xs)" "src_error (sr_reader st') = None" "sr_min_slice_size st' = sr_min_slice_size st"
    using process_with_item [OF Cons.prems(1,2)] Cons.prems(4) by (metis list.set_intros(1))
  have "process_all f into n' st' = map Inr xs"
    using Cons.IH [OF st'(2,4,3)] Cons.prems(4,5) by (simp add: st'(5) n)
  then show ?case by (simp add: n st'(1))
qed

subsection \<open>Properties\<close>

text \<open>C24: reading items through the slice reader, with its refills and its moving buffer, is
  equivalent to decoding them from the whole stream: if the stream is the concatenation of the
  encodings of some items, none longer than the minimum slice size, then the calls of
  \<open>process_with\<close> yield exactly these items and then end. (The buffer must not have exactly
  the minimum size.)\<close>

theorem slice_reader_equivalent:
  assumes "0 < min_size" and "min_size \<noteq> buffer_size"
    and "src = \<lparr>src_bytes = concat (map enc items), src_error = None\<rparr>"
    and "\<forall>x \<in> set items. decodes f (enc x) x \<and> length (enc x) \<le> min_size" and "length items < n"
  shows "process_all f into n (slice_reader_new src buffer_size min_size) = map Inr items"
proof (rule process_all_items)
  show "sr_inv (slice_reader_new src buffer_size min_size)" using assms(1,2) by (rule slice_reader_new_ok)
  show "unread (slice_reader_new src buffer_size min_size) = concat (map enc items)"
    using slice_reader_new_ok(2) [OF assms(1,2)] assms(3) by simp
qed (use assms in \<open>simp_all add: slice_reader_new_def\<close>)

definition ex_decode :: "bytes \<Rightarrow> (unit + u8 \<times> u8) \<times> bytes" where
  "ex_decode bs = (case bs of a # b # rest \<Rightarrow> (Inr (a, b), rest) | _ \<Rightarrow> (Inl (), bs))"

theorem slice_reader_equivalent_witness:
  "process_all ex_decode (\<lambda>_. GIo ''short'') 4 (slice_reader_new \<lparr>src_bytes = [1, 2, 3, 4, 5, 6], src_error = None\<rparr> 3 2) =
     [Inr (1, 2), Inr (3, 4), Inr (5, 6)]"
proof -
  have src: "\<lparr>src_bytes = [1, 2, 3, 4, 5, 6], src_error = None\<rparr> =
      \<lparr>src_bytes = concat (map (\<lambda>(a, b). [a, b]) [(1, 2), (3, 4), (5, 6)]), src_error = None\<rparr>" by simp
  have "process_all ex_decode (\<lambda>_. GIo ''short'') 4 (slice_reader_new \<lparr>src_bytes = [1, 2, 3, 4, 5, 6], src_error = None\<rparr> 3 2) =
      map Inr [(1, 2), (3, 4), (5, 6)]"
    by (rule slice_reader_equivalent [OF _ _ src]) (auto simp: decodes_def ex_decode_def)
  then show ?thesis by simp
qed

end
