(* ===== verification/GFile_Block.thy ===== *)
theory GFile_Block
  imports Header Slice_Reader
begin

section \<open>Blocks in genesis files\<close>

text \<open>
  genesis-parser/src/g_file/block.rs and transaction_receipt.rs: the records of a block in a
  genesis file, their RLP encoding and the conversions to and from \<open>Block\<close>. The decoder of
  \<open>RlpTransaction\<close> looks at an RLP header and then works on the buffer, so the structs
  around it are decoded from buffers, as the derived code does: \<open>struct_decode\<close> checks that
  the fields took exactly the payload, \<open>vec_decode\<close> decodes elements until the payload is
  used up. \<open>alloy_rlp::Header\<close> is the parameter \<open>H\<close>, with the laws of the locale
  \<open>rlp_headers\<close>. Shown: a block as Sonic writes it is the same after conversion, encoding,
  decoding and conversion back.
\<close>

subsection \<open>Buffers\<close>

record rlp_header =
  head_decode :: "bytes \<Rightarrow> rlp_error + (bool \<times> nat) \<times> bytes"
  head_encode :: "bool \<Rightarrow> nat \<Rightarrow> bytes"
  head_length :: "bool \<Rightarrow> nat \<Rightarrow> nat"

locale rlp_headers = eth_crates E
  for E :: eth +
  fixes H :: rlp_header
  assumes head_roundtrip: "l \<or> n \<noteq> 1 \<Longrightarrow> n < 2 ^ 64 \<Longrightarrow> n \<le> length rest \<Longrightarrow>
      head_decode H (head_encode H l n @ rest) = Inr ((l, n), rest)"
    and head_length: "head_length H l n = length (head_encode H l n)"
    and encode_list: "rlp_encode E (RList its) =
      head_encode H True (length (concat (map (rlp_encode E) its))) @ concat (map (rlp_encode E) its)"
    and head_short: "n < 2 ^ 64 \<Longrightarrow> length (head_encode H l n) \<le> 9"
    and keccak_length: "length (keccak256 E data) = 32"
    and encode_string: "length bs \<noteq> 1 \<Longrightarrow> rlp_encode E (RStr bs) = head_encode H False (length bs) @ bs"

type_synonym 'a decoder = "bytes \<Rightarrow> rlp_error + 'a \<times> bytes"

definition list_bytes :: "rlp_header \<Rightarrow> bytes list \<Rightarrow> bytes" where
  "list_bytes H parts = head_encode H True (length (concat parts)) @ concat parts"

definition struct_decode :: "rlp_header \<Rightarrow> 'a decoder \<Rightarrow> 'a decoder" where
  "struct_decode H dec buf =
     res_bind (head_decode H buf) (\<lambda>((list, payload_length), b).
       if \<not> list then Inl RlpUnexpectedString
       else if length b < payload_length then Inl RlpInputTooShort
       else res_bind (dec b) (\<lambda>(x, b').
         if length b - length b' \<noteq> payload_length then Inl RlpListLengthMismatch else Inr (x, b')))"

text \<open>Each element takes at least one byte, so the length of the payload is enough fuel.\<close>

fun decode_elements :: "'a decoder \<Rightarrow> nat \<Rightarrow> bytes \<Rightarrow> rlp_error + 'a list" where
  "decode_elements dec fuel payload =
     (if payload = [] then Inr []
      else case fuel of
        0 \<Rightarrow> Inl RlpInputTooShort
      | Suc fuel' \<Rightarrow>
          res_bind (dec payload) (\<lambda>(x, rest). map_ok (Cons x) (decode_elements dec fuel' rest)))"

definition vec_decode :: "rlp_header \<Rightarrow> 'a decoder \<Rightarrow> 'a list decoder" where
  "vec_decode H dec buf =
     res_bind (head_decode H buf) (\<lambda>((list, payload_length), b).
       if \<not> list then Inl RlpUnexpectedString
       else if length b < payload_length then Inl RlpInputTooShort
       else map_ok (\<lambda>xs. (xs, drop payload_length b)) (decode_elements dec payload_length (take payload_length b)))"

subsection \<open>Records\<close>

record stored_receipt_rlp =
  srr_post_state_or_status :: bytes
  srr_cumulative_gas_used :: u64
  srr_logs :: "log_entry list"

record stored_receipt_with_tx_type =
  srt_receipt :: stored_receipt_rlp
  srt_transaction_type :: transaction_type

datatype rlp_transaction = RlpTransaction (rlp_tx: transaction)

record full_block =
  fb_block_hash :: hash
  fb_parent_hash :: hash
  fb_state_root :: hash
  fb_timestamp :: u64
  fb_duration :: u64
  fb_difficulty :: u64
  fb_gas_limit :: u64
  fb_gas_used :: u64
  fb_base_fee :: u256
  fb_prev_randao :: hash
  fb_epoch :: u32
  fb_transactions :: "rlp_transaction list"
  fb_receipts :: "stored_receipt_rlp list"

record idx_full_block =
  ifb_block :: full_block
  ifb_block_number :: u64

subsection \<open>Encoding and decoding\<close>

definition u32_item :: "u32 \<Rightarrow> rlp_item" where
  "u32_item n = RStr (dropWhile (\<lambda>b. b = 0) (u32_to_be_bytes n))"

definition item_u32 :: "rlp_item \<Rightarrow> rlp_error + u32" where
  "item_u32 it =
     res_bind (item_bytes it) (\<lambda>bs.
       if bs \<noteq> [] \<and> hd bs = 0 then Inl RlpLeadingZero
       else if length bs > 4 then Inl RlpOverflow
       else Inr (u32_from_be_bytes bs))"

definition stored_receipt_item :: "stored_receipt_rlp \<Rightarrow> rlp_item" where
  "stored_receipt_item r =
     RList [rlp_string_item (srr_post_state_or_status r), u64_item (srr_cumulative_gas_used r), list_item log_item (srr_logs r)]"

definition item_stored_receipt :: "rlp_item \<Rightarrow> rlp_error + stored_receipt_rlp" where
  "item_stored_receipt it =
     res_bind (item_fields 3 it) (\<lambda>fs.
     res_bind (item_rlp_string (fs ! 0)) (\<lambda>status.
     res_bind (item_u64 (fs ! 1)) (\<lambda>gas.
     res_bind (item_list item_log (fs ! 2)) (\<lambda>logs.
       Inr \<lparr>srr_post_state_or_status = status, srr_cumulative_gas_used = gas, srr_logs = logs\<rparr>))))"

definition rlp_transaction_encode :: "eth \<Rightarrow> rlp_transaction \<Rightarrow> bytes" where
  "rlp_transaction_encode E t =
     (if tx_transaction_type (rlp_tx t) = Legacy then transaction_marshal E (rlp_tx t)
      else rlp_encode E (rlp_string_item (transaction_marshal E (rlp_tx t))))"

definition rlp_transaction_decode :: "eth \<Rightarrow> rlp_header \<Rightarrow> rlp_transaction decoder" where
  "rlp_transaction_decode E H buf =
     res_bind (head_decode H buf) (\<lambda>((list, payload_length), peek).
       map_ok (\<lambda>(tx, rest). (RlpTransaction tx, rest))
         (if list then transaction_unmarshal E buf
          else transaction_unmarshal E (drop (head_length H list payload_length) buf)))"

definition full_block_parts :: "eth \<Rightarrow> rlp_header \<Rightarrow> full_block \<Rightarrow> bytes list" where
  "full_block_parts E H b =
     map (rlp_encode E)
       [RStr (fb_block_hash b), RStr (fb_parent_hash b), RStr (fb_state_root b), u64_item (fb_timestamp b),
        u64_item (fb_duration b), u64_item (fb_difficulty b), u64_item (fb_gas_limit b), u64_item (fb_gas_used b),
        u256_item (fb_base_fee b), RStr (fb_prev_randao b), u32_item (fb_epoch b)] @
     [list_bytes H (map (rlp_transaction_encode E) (fb_transactions b)),
      rlp_encode E (list_item stored_receipt_item (fb_receipts b))]"

definition full_block_fields :: "eth \<Rightarrow> rlp_header \<Rightarrow> full_block decoder" where
  "full_block_fields E H b =
     res_bind (decode_with E (item_array 32) b) (\<lambda>(block_hash, b).
     res_bind (decode_with E (item_array 32) b) (\<lambda>(parent_hash, b).
     res_bind (decode_with E (item_array 32) b) (\<lambda>(state_root, b).
     res_bind (decode_with E item_u64 b) (\<lambda>(timestamp, b).
     res_bind (decode_with E item_u64 b) (\<lambda>(duration, b).
     res_bind (decode_with E item_u64 b) (\<lambda>(difficulty, b).
     res_bind (decode_with E item_u64 b) (\<lambda>(gas_limit, b).
     res_bind (decode_with E item_u64 b) (\<lambda>(gas_used, b).
     res_bind (decode_with E item_u256 b) (\<lambda>(base_fee, b).
     res_bind (decode_with E (item_array 32) b) (\<lambda>(prev_randao, b).
     res_bind (decode_with E item_u32 b) (\<lambda>(epoch, b).
     res_bind (vec_decode H (rlp_transaction_decode E H) b) (\<lambda>(transactions, b).
     res_bind (decode_with E (item_list item_stored_receipt) b) (\<lambda>(receipts, b).
       Inr (\<lparr>fb_block_hash = block_hash, fb_parent_hash = parent_hash, fb_state_root = state_root,
             fb_timestamp = timestamp, fb_duration = duration, fb_difficulty = difficulty,
             fb_gas_limit = gas_limit, fb_gas_used = gas_used, fb_base_fee = base_fee,
             fb_prev_randao = prev_randao, fb_epoch = epoch, fb_transactions = transactions,
             fb_receipts = receipts\<rparr>, b))))))))))))))"

definition idx_full_block_encode :: "eth \<Rightarrow> rlp_header \<Rightarrow> idx_full_block \<Rightarrow> bytes" where
  "idx_full_block_encode E H i =
     list_bytes H [list_bytes H (full_block_parts E H (ifb_block i)), rlp_encode E (u64_item (ifb_block_number i))]"

definition idx_full_block_decode :: "eth \<Rightarrow> rlp_header \<Rightarrow> idx_full_block decoder" where
  "idx_full_block_decode E H =
     struct_decode H (\<lambda>b.
       res_bind (struct_decode H (full_block_fields E H) b) (\<lambda>(block, b).
       res_bind (decode_with E item_u64 b) (\<lambda>(block_number, b).
         Inr (\<lparr>ifb_block = block, ifb_block_number = block_number\<rparr>, b))))"

subsection \<open>Conversion\<close>

definition receipt_try_from :: "stored_receipt_with_tx_type \<Rightarrow> string + transaction_receipt" where
  "receipt_try_from r =
     (let status = srr_post_state_or_status (srt_receipt r) in
      map_ok (\<lambda>p. \<lparr>tr_transaction_type = srt_transaction_type r, tr_post_state_or_status = p,
                   tr_cumulative_gas_used = srr_cumulative_gas_used (srt_receipt r), tr_logs = srr_logs (srt_receipt r)\<rparr>)
        (if status = RECEIPT_STATUS_FAILED_RLP then Inr (Status 0)
         else if status = RECEIPT_STATUS_SUCCESS_RLP then Inr (Status 1)
         else if length status = 32 then Inr (PostState status)
         else Inl ''invalid receipt status''))"

definition stored_receipt_from :: "transaction_receipt \<Rightarrow> stored_receipt_rlp" where
  "stored_receipt_from r =
     \<lparr>srr_post_state_or_status =
        (case tr_post_state_or_status r of
           Status n \<Rightarrow> if n = 1 then RECEIPT_STATUS_SUCCESS_RLP else RECEIPT_STATUS_FAILED_RLP
         | PostState post_state \<Rightarrow> post_state),
      srr_cumulative_gas_used = tr_cumulative_gas_used r, srr_logs = tr_logs r\<rparr>"

definition u32_of_u64 :: "u64 \<Rightarrow> u32" where
  "u32_of_u64 n = of_nat (unat n)"

definition u64_of_u32 :: "u32 \<Rightarrow> u64" where
  "u64_of_u32 n = of_nat (unat n)"

definition block_try_from :: "idx_full_block \<Rightarrow> string + block" where
  "block_try_from i =
     (let fb = ifb_block i;
          timestamp_nanos = u32_of_u64 (fb_timestamp fb mod 10 ^ 9);
          extra_data = u32_to_be_bytes timestamp_nanos @ u64_to_be_bytes (fb_duration fb);
          timestamp_secs = fb_timestamp fb div 10 ^ 9;
          transactions = map rlp_tx (fb_transactions fb)
      in res_bind
           (collect_results (map receipt_try_from
             (map (\<lambda>(receipt, tx). \<lparr>srt_receipt = receipt, srt_transaction_type = tx_transaction_type tx\<rparr>)
               (zip (fb_receipts fb) transactions)))) (\<lambda>receipts.
         Inr \<lparr>b_parent_hash = fb_parent_hash fb, b_ommers_hash = EMPTY_OMMERS_HASH, b_beneficiary = zero_bytes 20,
              b_state_root = fb_state_root fb, b_difficulty = fb_difficulty fb, b_number = ifb_block_number i,
              b_gas_limit = fb_gas_limit fb, b_timestamp = timestamp_secs, b_extra_data = extra_data,
              b_prev_randao = fb_prev_randao fb, b_nonce = zero_bytes 8, b_transactions = transactions,
              b_receipts = receipts, b_base_fee_per_gas = Some (fb_base_fee fb),
              b_withdrawals_root = Some EMPTY_TREE_ROOT_HASH, b_withdrawals = [], b_blob_gas_used = Some 0,
              b_excess_blob_gas = Some 0, b_parent_beacon_block_root = None, b_requests_hash = None,
              b_ommer_headers = [], b_verkle_state_root = None, b_binary_state_root = None\<rparr>))"

definition idx_full_block_try_from :: "eth \<Rightarrow> block \<Rightarrow> string + idx_full_block" where
  "idx_full_block_try_from E b =
     (if length (b_extra_data b) < 4 then Inl ''extra_data should be at least 12 bytes long''
      else if length (b_extra_data b) < 12 then Inl ''extra_data should be at least 12 bytes long''
      else
        let timestamp_nanos = u64_of_u32 (u32_from_be_bytes (take 4 (b_extra_data b)));
            timestamp = b_timestamp b * 10 ^ 9 + timestamp_nanos;
            duration = u64_from_be_bytes (take 8 (drop 4 (b_extra_data b)))
        in Inr \<lparr>ifb_block =
                  \<lparr>fb_block_hash = block_hash E b, fb_parent_hash = b_parent_hash b, fb_state_root = b_state_root b,
                   fb_timestamp = timestamp, fb_duration = duration, fb_difficulty = b_difficulty b,
                   fb_gas_limit = b_gas_limit b,
                   fb_gas_used = (if b_receipts b = [] then 0 else tr_cumulative_gas_used (last (b_receipts b))),
                   fb_base_fee = (case b_base_fee_per_gas b of None \<Rightarrow> 0 | Some n \<Rightarrow> n),
                   fb_prev_randao = b_prev_randao b, fb_epoch = 0,
                   fb_transactions = map RlpTransaction (b_transactions b),
                   fb_receipts = map stored_receipt_from (b_receipts b)\<rparr>,
                ifb_block_number = b_number b\<rparr>)"

subsection \<open>Decoding what was encoded\<close>

lemma item_u32_item [item_simps]: "item_u32 (u32_item n) = Inr n"
proof -
  let ?bs = "dropWhile (\<lambda>b. b = 0) (u32_to_be_bytes n)"
  have "\<not> (?bs \<noteq> [] \<and> hd ?bs = 0)" using hd_dropWhile by blast
  moreover have "length ?bs \<le> 4" using length_dropWhile_le [of _ "u32_to_be_bytes n"] by simp
  moreover have "u32_from_be_bytes ?bs = n"
    using from_to_be_bytes(1) [of n] by (simp add: u32_from_be_bytes_def)
  ultimately show ?thesis by (simp add: item_u32_def u32_item_def item_bytes_def)
qed

definition wf_stored_receipt :: "stored_receipt_rlp \<Rightarrow> bool" where
  "wf_stored_receipt r \<longleftrightarrow> list_all wf_log (srr_logs r)"

lemma item_stored_receipt_item [item_simps]:
  "wf_stored_receipt r \<Longrightarrow> item_stored_receipt (stored_receipt_item r) = Inr r"
  by (cases r) (auto simp: item_stored_receipt_def stored_receipt_item_def wf_stored_receipt_def list_all_iff
      intro: item_simps simp: item_simps)

lemma item_stored_receipts [item_simps]:
  "list_all wf_stored_receipt rs \<Longrightarrow> item_list item_stored_receipt (list_item stored_receipt_item rs) = Inr rs"
  by (auto simp: list_all_iff intro!: item_list_item item_simps)

lemma length_part: "x \<in> set parts \<Longrightarrow> length x \<le> length (concat parts)"
  by (induction parts) auto

lemma decode_elements_concat:
  assumes "\<forall>x \<in> set xs. enc x \<noteq> [] \<and> (\<forall>rest. dec (enc x @ rest) = Inr (x, rest))"
    and "length (concat (map enc xs)) \<le> fuel"
  shows "decode_elements dec fuel (concat (map enc xs)) = Inr xs"
  using assms
proof (induction xs arbitrary: fuel)
  case (Cons x xs)
  have "enc x \<noteq> []" using Cons.prems(1) by simp
  then have "0 < length (enc x)" by simp
  then have "length (concat (map enc xs)) < fuel"
    using Cons.prems(2) unfolding list.map concat.simps length_append by linarith
  then obtain fuel' where f: "fuel = Suc fuel'" "length (concat (map enc xs)) \<le> fuel'" by (cases fuel) auto
  have IH: "decode_elements dec fuel' (concat (map enc xs)) = Inr xs" using Cons.IH Cons.prems(1) f(2) by simp
  show ?case using Cons.prems(1) IH by (subst decode_elements.simps) (simp add: f(1) del: decode_elements.simps)
qed simp

definition wf_full_block :: "full_block \<Rightarrow> bool" where
  "wf_full_block b \<longleftrightarrow>
     len_ok 32 (fb_block_hash b) \<and> len_ok 32 (fb_parent_hash b) \<and> len_ok 32 (fb_state_root b) \<and>
     len_ok 32 (fb_prev_randao b) \<and> list_all wf_stored_receipt (fb_receipts b) \<and>
     list_all (\<lambda>t. wf_transaction (rlp_tx t) \<and> is_valid (rlp_tx t) = Inr () \<and> kind_only (rlp_tx t) = rlp_tx t)
       (fb_transactions b)"

context rlp_headers
begin

lemma decode_with_item: "length (rlp_encode E it) < 2 ^ 64 \<Longrightarrow>
    decode_with E f (rlp_encode E it @ rest) = map_ok (\<lambda>x. (x, rest)) (f it)"
  by (simp add: decode_with_def rlp_roundtrip)

lemma head_of_list: "length (concat parts) < 2 ^ 64 \<Longrightarrow>
    head_decode H (list_bytes H parts @ rest) = Inr ((True, length (concat parts)), concat parts @ rest)"
  by (simp add: list_bytes_def head_roundtrip)

lemma struct_decode_list:
  assumes "length (concat parts) < 2 ^ 64" and "dec (concat parts @ rest) = Inr (x, rest)"
  shows "struct_decode H dec (list_bytes H parts @ rest) = Inr (x, rest)"
  using assms by (simp add: struct_decode_def head_of_list)

lemma vec_decode_list:
  assumes "length (concat (map enc xs)) < 2 ^ 64"
    and "\<forall>x \<in> set xs. enc x \<noteq> [] \<and> (\<forall>rest. dec (enc x @ rest) = Inr (x, rest))"
  shows "vec_decode H dec (list_bytes H (map enc xs) @ rest) = Inr (xs, rest)"
  using assms decode_elements_concat [where dec = dec, OF assms(2) order_refl]
  by (simp add: vec_decode_def head_of_list)

lemma marshal_shape:
  assumes "is_valid tx = Inr ()"
  shows "\<exists>its. transaction_marshal E tx =
    (if tx_transaction_type tx = Legacy then [] else [transaction_type_as_u8 (tx_transaction_type tx)]) @ rlp_encode E (RList its)"
  using assms
  by (auto simp: transaction_marshal_def or_empty_string_def encode_with_type_def is_valid_def try_from_defs
      constructible_defs legacy_item_def access_list_item_def dynamic_fee_item_def blob_item_def set_code_item_def
      split: transaction_type.splits if_splits)

lemma rlp_transaction_roundtrip:
  assumes "wf_transaction (rlp_tx t)" and "is_valid (rlp_tx t) = Inr ()" and "kind_only (rlp_tx t) = rlp_tx t"
    and len: "length (rlp_transaction_encode E t) < 2 ^ 64"
  shows "rlp_transaction_encode E t \<noteq> []"
    and "rlp_transaction_decode E H (rlp_transaction_encode E t @ rest) = Inr (t, rest)"
proof -
  let ?tx = "rlp_tx t"
  obtain its where its: "transaction_marshal E ?tx =
      (if tx_transaction_type ?tx = Legacy then [] else [transaction_type_as_u8 (tx_transaction_type ?tx)]) @ rlp_encode E (RList its)"
    using marshal_shape [OF assms(2)] by blast
  let ?p = "concat (map (rlp_encode E) its)"
  have ne: "rlp_encode E (RList its) \<noteq> []" if "length (rlp_encode E (RList its)) < 2 ^ 64"
    using rlp_list_byte [OF that] by auto
  have "rlp_transaction_encode E t \<noteq> [] \<and> rlp_transaction_decode E H (rlp_transaction_encode E t @ rest) = Inr (t, rest)"
  proof (cases "tx_transaction_type ?tx = Legacy")
    case True
    then have m: "rlp_transaction_encode E t = transaction_marshal E ?tx" "transaction_marshal E ?tx = rlp_encode E (RList its)"
      using its by (simp_all add: rlp_transaction_encode_def)
    then have l: "length (rlp_encode E (RList its)) < 2 ^ 64" using len by simp
    then have "length ?p < 2 ^ 64" by (simp add: encode_list)
    then have "head_decode H (rlp_encode E (RList its) @ rest) = Inr ((True, length ?p), ?p @ rest)"
      by (simp add: encode_list head_roundtrip)
    moreover have "transaction_unmarshal E (rlp_encode E (RList its) @ rest) = Inr (?tx, rest)"
      using unmarshal_marshal [OF assms(1,2), of rest] m l assms(3) by simp
    ultimately show ?thesis using m ne [OF l] by (simp add: rlp_transaction_decode_def)
  next
    case False
    let ?m = "transaction_marshal E ?tx"
    have e: "rlp_transaction_encode E t = rlp_encode E (RStr ?m)"
      using False by (simp add: rlp_transaction_encode_def rlp_string_item_def)
    have m1: "length ?m \<noteq> 1"
    proof
      assume one: "length ?m = 1"
      then have "length (rlp_encode E (RList its)) = 0" using its False by simp
      then show False using ne by simp
    qed
    have s: "rlp_encode E (RStr ?m) = head_encode H False (length ?m) @ ?m" by (rule encode_string [OF m1])
    then have lm: "length ?m < 2 ^ 64" using len e by simp
    then have "head_decode H (rlp_encode E (RStr ?m) @ rest) = Inr ((False, length ?m), ?m @ rest)"
      using m1 by (simp add: s head_roundtrip)
    moreover have "transaction_unmarshal E (?m @ rest) = Inr (?tx, rest)"
      using unmarshal_marshal [OF assms(1,2) lm] assms(3) by simp
    ultimately have "rlp_transaction_decode E H (rlp_encode E (RStr ?m) @ rest) = Inr (t, rest)"
      by (simp add: rlp_transaction_decode_def s head_length)
    moreover have "?m \<noteq> []" using its False by simp
    ultimately show ?thesis using e s by simp
  qed
  then show "rlp_transaction_encode E t \<noteq> []"
    and "rlp_transaction_decode E H (rlp_transaction_encode E t @ rest) = Inr (t, rest)" by blast+
qed

lemma full_block_roundtrip:
  assumes wf: "wf_full_block b" and len: "length (concat (full_block_parts E H b)) < 2 ^ 64"
  shows "full_block_fields E H (concat (full_block_parts E H b) @ rest) = Inr (b, rest)"
proof -
  have "\<forall>x \<in> set (full_block_parts E H b). length x < 2 ^ 64"
    using length_part len by (meson le_less_trans)
  note L = this [unfolded full_block_parts_def, simplified]
  let ?txs = "map (rlp_transaction_encode E) (fb_transactions b)"
  have "length (concat ?txs) \<le> length (list_bytes H ?txs)" by (simp add: list_bytes_def)
  then have lt: "length (concat ?txs) < 2 ^ 64" using L by simp
  have "\<forall>t \<in> set (fb_transactions b). length (rlp_transaction_encode E t) < 2 ^ 64"
    using length_part [of _ ?txs] lt by (auto intro: le_less_trans)
  then have "\<forall>t \<in> set (fb_transactions b). rlp_transaction_encode E t \<noteq> [] \<and>
      (\<forall>rest. rlp_transaction_decode E H (rlp_transaction_encode E t @ rest) = Inr (t, rest))"
    using wf rlp_transaction_roundtrip by (auto simp: wf_full_block_def list_all_iff)
  note V = vec_decode_list [where dec = "rlp_transaction_decode E H", OF lt this]
  show ?thesis
    using wf L unfolding full_block_fields_def full_block_parts_def wf_full_block_def
    by (simp add: decode_with_item item_simps V)
qed

lemma idx_full_block_roundtrip:
  assumes wf: "wf_full_block (ifb_block i)" and len: "length (idx_full_block_encode E H i) < 2 ^ 64"
  shows "idx_full_block_decode E H (idx_full_block_encode E H i @ rest) = Inr (i, rest)"
proof -
  let ?fb = "list_bytes H (full_block_parts E H (ifb_block i))" and ?n = "rlp_encode E (u64_item (ifb_block_number i))"
  have l: "length (concat [?fb, ?n]) < 2 ^ 64" using len by (simp add: idx_full_block_encode_def list_bytes_def)
  then have lfb: "length (concat (full_block_parts E H (ifb_block i))) < 2 ^ 64" and ln: "length ?n < 2 ^ 64"
    by (simp_all add: list_bytes_def)
  have fb: "struct_decode H (full_block_fields E H) (?fb @ r) = Inr (ifb_block i, r)" for r
    by (rule struct_decode_list [where dec = "full_block_fields E H", OF lfb full_block_roundtrip [OF wf lfb]])
  show ?thesis
    unfolding idx_full_block_decode_def idx_full_block_encode_def
    by (rule struct_decode_list [OF l]) (simp add: fb decode_with_item [OF ln] item_simps)
qed

end

subsection \<open>Conversion there and back\<close>

text \<open>The blocks that a genesis file can hold: the fields that the format does not have are the
  constants of Sonic, the nanoseconds in the extra data are fewer than a second, and each
  transaction has its receipt.\<close>

definition sonic_receipt :: "transaction \<Rightarrow> transaction_receipt \<Rightarrow> bool" where
  "sonic_receipt tx r \<longleftrightarrow>
     tr_transaction_type r = tx_transaction_type tx \<and> list_all wf_log (tr_logs r) \<and>
     (case tr_post_state_or_status r of Status n \<Rightarrow> n \<le> 1 | PostState h \<Rightarrow> len_ok 32 h)"

definition sonic_block :: "block \<Rightarrow> bool" where
  "sonic_block b \<longleftrightarrow>
     wf_block b \<and> b_ommers_hash b = EMPTY_OMMERS_HASH \<and> b_beneficiary b = zero_bytes 20 \<and> b_nonce b = zero_bytes 8 \<and>
     length (b_extra_data b) = 12 \<and> be_val (take 4 (b_extra_data b)) < 10 ^ 9 \<and>
     unat (b_timestamp b) * 10 ^ 9 + be_val (take 4 (b_extra_data b)) < 2 ^ 64 \<and>
     list_all2 sonic_receipt (b_transactions b) (b_receipts b) \<and>
     list_all (\<lambda>tx. is_valid tx = Inr () \<and> kind_only tx = tx) (b_transactions b) \<and>
     b_base_fee_per_gas b \<noteq> None \<and> b_withdrawals_root b = Some EMPTY_TREE_ROOT_HASH \<and> b_withdrawals b = [] \<and>
     b_blob_gas_used b = Some 0 \<and> b_excess_blob_gas b = Some 0 \<and> b_parent_beacon_block_root b = None \<and>
     b_requests_hash b = None \<and> b_ommer_headers b = [] \<and> b_verkle_state_root b = None \<and> b_binary_state_root b = None"

lemma receipt_roundtrip:
  assumes "sonic_receipt tx r"
  shows "receipt_try_from \<lparr>srt_receipt = stored_receipt_from r, srt_transaction_type = tx_transaction_type tx\<rparr> = Inr r"
    and "wf_stored_receipt (stored_receipt_from r)"
proof -
  have "n = 0 \<or> n = 1" if "n \<le> 1" for n :: u64 using that by (auto simp: word_le_nat_alt le_Suc_eq word_unat_eq_iff)
  then show "receipt_try_from \<lparr>srt_receipt = stored_receipt_from r, srt_transaction_type = tx_transaction_type tx\<rparr> = Inr r"
    using assms
    by (cases r; cases "tr_post_state_or_status r")
      (auto simp: sonic_receipt_def receipt_try_from_def stored_receipt_from_def RECEIPT_STATUS_SUCCESS_RLP_def
        RECEIPT_STATUS_FAILED_RLP_def len_ok_def Let_def)
  show "wf_stored_receipt (stored_receipt_from r)"
    using assms by (simp add: sonic_receipt_def wf_stored_receipt_def stored_receipt_from_def)
qed

lemma receipts_roundtrip:
  assumes "list_all2 sonic_receipt txs rs"
  shows "collect_results (map receipt_try_from
      (map (\<lambda>(receipt, tx). \<lparr>srt_receipt = receipt, srt_transaction_type = tx_transaction_type tx\<rparr>)
        (zip (map stored_receipt_from rs) txs))) = Inr rs"
    and "list_all wf_stored_receipt (map stored_receipt_from rs)"
  using assms by (induction rule: list_all2_induct) (simp_all add: receipt_roundtrip)

lemma timestamp_roundtrip:
  assumes "length bs = 4" and "be_val bs < 10 ^ 9" and "unat (secs :: u64) * 10 ^ 9 + be_val bs < 2 ^ 64"
    and "t = secs * 10 ^ 9 + u64_of_u32 (u32_from_be_bytes bs)"
  shows "t div 10 ^ 9 = secs" "u32_to_be_bytes (u32_of_u64 (t mod 10 ^ 9)) = bs"
proof -
  have b: "unat (u32_from_be_bytes bs) = be_val bs"
    using unat_of_nat_be_val(1) [OF assms(1)] by (simp add: u32_from_be_bytes_def)
  have "be_val bs < 2 ^ 64" using assms(2) by simp
  then have n: "unat (u64_of_u32 (u32_from_be_bytes bs)) = be_val bs" unfolding u64_of_u32_def b by (subst unat_of_nat) simp
  have s: "unat (secs * 10 ^ 9) = unat secs * 10 ^ 9" using assms(3) by (simp add: unat_word_ariths)
  have t: "unat t = unat secs * 10 ^ 9 + be_val bs"
    using assms(3) unfolding assms(4) unat_word_ariths(1) s n by simp
  have p: "unat (10 ^ 9 :: u64) = 10 ^ 9" by simp
  show "t div 10 ^ 9 = secs"
    using assms(2) by (subst word_unat_eq_iff) (simp only: unat_div t p, simp)
  have "unat (t mod 10 ^ 9) = be_val bs" using assms(2) by (simp only: unat_mod t p, simp)
  then show "u32_to_be_bytes (u32_of_u64 (t mod 10 ^ 9)) = bs"
    using to_from_be_bytes(1) [OF assms(1)] by (simp add: u32_of_u64_def u32_from_be_bytes_def)
qed

lemma sonic_block_roundtrip:
  assumes "sonic_block b" and "length (block_hash E b) = 32"
  shows "\<exists>i. idx_full_block_try_from E b = Inr i \<and> wf_full_block (ifb_block i) \<and> block_try_from i = Inr b"
proof -
  let ?x = "b_extra_data b"
  have x: "length (take 4 ?x) = 4" "length (take 8 (drop 4 ?x)) = 8" "take 4 ?x @ take 8 (drop 4 ?x) = ?x"
    using assms(1) by (auto simp: sonic_block_def simp flip: take_add)
  have R: "list_all2 sonic_receipt (b_transactions b) (b_receipts b)" using assms(1) by (simp add: sonic_block_def)
  note T = timestamp_roundtrip [OF x(1) _ _ refl, of "b_timestamp b"]
  have t: "(b_timestamp b * 10 ^ 9 + u64_of_u32 (u32_from_be_bytes (take 4 ?x))) div 10 ^ 9 = b_timestamp b"
    "u32_to_be_bytes (u32_of_u64 ((b_timestamp b * 10 ^ 9 + u64_of_u32 (u32_from_be_bytes (take 4 ?x))) mod 10 ^ 9)) = take 4 ?x"
    using assms(1) by (intro T; simp add: sonic_block_def)+
  have rlp_txs: "map rlp_tx (map RlpTransaction xs) = xs" for xs by (simp add: comp_def)
  obtain i where i: "idx_full_block_try_from E b = Inr i" using assms(1) by (simp add: idx_full_block_try_from_def sonic_block_def Let_def)
  have "wf_full_block (ifb_block i)"
    using i assms receipts_roundtrip(2) [OF R]
    by (auto simp: idx_full_block_try_from_def sonic_block_def wf_full_block_def wf_block_def list_all_iff Let_def len_ok_def split: if_splits)
  moreover have "block_try_from i = Inr b"
  proof -
    have "block_try_from i = Inr (b\<lparr>b_extra_data := take 4 ?x @ u64_to_be_bytes (u64_from_be_bytes (take 8 (drop 4 ?x)))\<rparr>)"
      using i assms(1) unfolding block_try_from_def idx_full_block_try_from_def Let_def
      by (auto simp: sonic_block_def t receipts_roundtrip(1) [OF R] rlp_txs split: if_splits simp del: power_numeral map_map)
    also have "u64_to_be_bytes (u64_from_be_bytes (take 8 (drop 4 ?x))) = take 8 (drop 4 ?x)"
      by (rule to_from_be_bytes(2) [OF x(2)])
    finally show ?thesis unfolding x(3) by simp
  qed
  ultimately show ?thesis using i by blast
qed

subsection \<open>An executable header\<close>

definition plain_header :: rlp_header where
  "plain_header =
     \<lparr>head_decode = (\<lambda>buf. case rlp_split buf of None \<Rightarrow> Inl RlpInputTooShort
        | Some (l, payload, rest) \<Rightarrow> Inr ((l, length payload), payload @ rest)),
      head_encode = (\<lambda>l n. rlp_head (if l then 192 else 128) n),
      head_length = (\<lambda>l n. length (rlp_head (if l then 192 else 128) n))\<rparr>"

interpretation plain_headers: rlp_headers plain_eth plain_header
proof (unfold_locales, goal_cases)
  case (1 l n rest)
  let ?p = "take n rest"
  have p: "length ?p = n" "?p @ drop n rest = rest" using 1(3) by simp_all
  have "rlp_split (rlp_head (if l then 192 else 128) n @ rest) = Some (l, ?p, drop n rest)"
    using rlp_split_head [of ?p "drop n rest"] 1(2) unfolding p by (cases l) (simp_all del: rlp_split.simps)
  then show ?case using p by (simp add: plain_header_def)
next
  case (2 l n)
  show ?case by (simp add: plain_header_def)
next
  case (3 its)
  show ?case by (simp add: plain_header_def plain_eth_def Let_def)
next
  case (4 n l)
  then have "length (be_min n) \<le> 8" by (intro length_be_min) simp
  then show ?case by (simp add: plain_header_def rlp_head_def Let_def)
next
  case (5 data)
  show ?case by (simp add: plain_eth_def)
next
  case (6 bs)
  then show ?case by (simp add: plain_header_def plain_eth_def)
qed

subsection \<open>Properties\<close>

text \<open>C25: a block as Sonic produces it (\<open>sonic_block\<close>) survives a genesis file: it converts
  to a genesis record, the encoding of the record decodes to the record again and leaves what
  follows it in the buffer, and the record converts back to the same block, timestamps in
  nanoseconds, transactions and receipts included.\<close>

theorem genesis_block_roundtrip:
  assumes "rlp_headers E H" and "sonic_block b"
  shows "\<exists>i. idx_full_block_try_from E b = Inr i \<and> block_try_from i = Inr b \<and>
    (length (idx_full_block_encode E H i) < 2 ^ 64 \<longrightarrow>
       idx_full_block_decode E H (idx_full_block_encode E H i @ rest) = Inr (i, rest))"
proof -
  have "length (block_hash E b) = 32" using rlp_headers.keccak_length [OF assms(1)] by (simp add: block_hash_def compute_hash_def)
  then obtain i where "idx_full_block_try_from E b = Inr i" "wf_full_block (ifb_block i)" "block_try_from i = Inr b"
    using sonic_block_roundtrip [OF assms(2)] by blast
  then show ?thesis using rlp_headers.idx_full_block_roundtrip [OF assms(1)] by blast
qed

definition ex_sonic_block :: block where
  "ex_sonic_block =
     default_sonic\<lparr>b_number := 7, b_timestamp := 1700000000, b_extra_data := [0, 0, 1, 5, 0, 0, 0, 0, 0, 0, 2, 1],
       b_transactions := [default_transaction\<lparr>tx_nonce := 300\<rparr>], b_receipts := [default_receipt\<lparr>tr_post_state_or_status := Status 1\<rparr>]\<rparr>"

lemma ex_sonic_block: "sonic_block ex_sonic_block"
proof -
  have "wf_block ex_sonic_block"
    using wf_defaults(2-4)
    by (simp add: wf_block_def ex_sonic_block_def wf_receipt_def default_receipt_def default_sonic_def default_block_def
        wf_transaction_def default_transaction_def)
  moreover have "be_val [0, 0, 1, 5] = 261" by (simp add: be_val_def)
  moreover have "kind_only (default_transaction\<lparr>tx_nonce := 300\<rparr>) = default_transaction\<lparr>tx_nonce := 300\<rparr>"
    "is_valid (default_transaction\<lparr>tx_nonce := 300\<rparr>) = Inr ()"
    by (simp_all add: kind_only_def default_transaction_def is_valid_def constructible_defs)
  ultimately show ?thesis
    by (simp add: sonic_block_def ex_sonic_block_def default_sonic_def default_block_def sonic_receipt_def default_receipt_def
        default_transaction_def)
qed

theorem genesis_block_roundtrip_witness:
  "\<exists>i. idx_full_block_try_from plain_eth ex_sonic_block = Inr i \<and> block_try_from i = Inr ex_sonic_block \<and>
     fb_timestamp (ifb_block i) = 1700000000000000261"
proof -
  have "fb_timestamp (ifb_block i) = 1700000000000000261" if "idx_full_block_try_from plain_eth ex_sonic_block = Inr i" for i
    using that by (auto simp: idx_full_block_try_from_def ex_sonic_block_def u64_of_u32_def u32_from_be_bytes_def be_val_def Let_def
        split: if_splits)
  then show ?thesis using genesis_block_roundtrip [OF plain_headers.rlp_headers_axioms ex_sonic_block] by blast
qed

text \<open>The conversion pairs receipts with transactions by \<open>zip\<close>, so a record with more receipts
  than transactions is accepted and the surplus receipts are lost.\<close>

lemma surplus_receipts_dropped:
  "map_ok b_receipts (block_try_from (i\<lparr>ifb_block := (ifb_block i)\<lparr>fb_transactions := [], fb_receipts := rs\<rparr>\<rparr>)) = Inr []"
  by (simp add: block_try_from_def Let_def)

end
