(* ===== verification/GFile.thy ===== *)
theory GFile
  imports GFile_Block
begin

section \<open>Genesis files\<close>

text \<open>
  genesis-parser/src/g_file: units.rs (the file headers and the table of units), block_parser.rs
  (the iterator over the blocks of the unit \<open>brs\<close>), mod.rs and the generator of files in
  test_utils.rs. A file is its bytes, the position of the reader and an offset from which reading
  fails, if there is one. The gzip crate is the parameter \<open>gunzip\<close>. Sizes that the code
  computes on \<open>usize\<close> from numbers in the file are 64-bit words, so that they wrap around as
  in a release build. The loop over the units may run forever, so \<open>parse_units\<close> is a
  partial function whose value is \<open>None\<close> in that case. The warning about further block
  units is not modelled.
\<close>

subsection \<open>Reading files\<close>

record file_reader =
  fr_data :: bytes
  fr_pos :: nat
  fr_fault :: "(nat \<times> string) option"

datatype read_error = UnexpectedEof | ReadFault string

definition eof_text :: string where
  "eof_text = ''failed to fill whole buffer''"

definition genesis_io :: "read_error \<Rightarrow> genesis_error" where
  "genesis_io e = (case e of UnexpectedEof \<Rightarrow> GIo eof_text | ReadFault s \<Rightarrow> GIo s)"

definition faulty :: "file_reader \<Rightarrow> nat \<Rightarrow> string option" where
  "faulty r n =
     (case fr_fault r of
        Some (k, e) \<Rightarrow> if k < min (fr_pos r + n) (length (fr_data r)) \<and> 0 < n then Some e else None
      | None \<Rightarrow> None)"

definition read_bytes :: "nat \<Rightarrow> file_reader \<Rightarrow> read_error + bytes \<times> file_reader" where
  "read_bytes n r =
     (case faulty r n of
        Some e \<Rightarrow> Inl (ReadFault e)
      | None \<Rightarrow>
          if length (fr_data r) < fr_pos r + n then Inl UnexpectedEof
          else Inr (take n (drop (fr_pos r) (fr_data r)), r\<lparr>fr_pos := fr_pos r + n\<rparr>))"

definition seek_relative :: "int \<Rightarrow> file_reader \<Rightarrow> genesis_error + file_reader" where
  "seek_relative off r =
     (let p = int (fr_pos r) + off in
      if p < 0 \<or> 2 ^ 63 \<le> p then Inl (GIo ''invalid seek'') else Inr (r\<lparr>fr_pos := nat p\<rparr>))"

subsection \<open>Units\<close>

text \<open>A Rust string is a list of the bytes of its UTF-8 encoding.\<close>

definition continuation :: "u8 \<Rightarrow> bool" where
  "continuation b \<longleftrightarrow> 0x80 \<le> b \<and> b \<le> 0xbf"

fun utf8_valid :: "bytes \<Rightarrow> bool" where
  "utf8_valid [] = True"
| "utf8_valid (b0 # bs) =
     (if b0 < 0x80 then utf8_valid bs
      else case bs of
        [] \<Rightarrow> False
      | b1 # bs1 \<Rightarrow>
          if 0xc2 \<le> b0 \<and> b0 \<le> 0xdf then continuation b1 \<and> utf8_valid bs1
          else case bs1 of
            [] \<Rightarrow> False
          | b2 # bs2 \<Rightarrow>
              if 0xe0 \<le> b0 \<and> b0 \<le> 0xef then
                continuation b1 \<and> (b0 = 0xe0 \<longrightarrow> 0xa0 \<le> b1) \<and> (b0 = 0xed \<longrightarrow> b1 \<le> 0x9f) \<and>
                continuation b2 \<and> utf8_valid bs2
              else case bs2 of
                [] \<Rightarrow> False
              | b3 # bs3 \<Rightarrow>
                  0xf0 \<le> b0 \<and> b0 \<le> 0xf4 \<and> continuation b1 \<and> (b0 = 0xf0 \<longrightarrow> 0x90 \<le> b1) \<and>
                  (b0 = 0xf4 \<longrightarrow> b1 \<le> 0x8f) \<and> continuation b2 \<and> continuation b3 \<and> utf8_valid bs3)"

definition string_of_bytes :: "bytes \<Rightarrow> string" where
  "string_of_bytes bs = map (\<lambda>b. char_of (unat b)) bs"

definition bytes_of_string :: "string \<Rightarrow> bytes" where
  "bytes_of_string s = map (\<lambda>c. of_nat (of_char c)) s"

definition item_str :: "rlp_item \<Rightarrow> rlp_error + string" where
  "item_str it =
     res_bind (item_bytes it) (\<lambda>bs.
       if utf8_valid bs then Inr (string_of_bytes bs) else Inl (RlpCustom ''invalid string''))"

record genesis_header =
  gh_genesis_id :: hash
  gh_network_id :: u64
  gh_network_name :: string

record genesis_unit =
  gu_unit_name :: string
  gu_header :: genesis_header

record unit_descriptor =
  ud_offset :: nat
  ud_compressed_size :: u64
  ud_uncompressed_size :: u64

type_synonym units = "string \<rightharpoonup> unit_descriptor"

record genesis_metadata =
  gm_chain_id :: u64
  gm_units :: units

definition HEADER :: bytes where
  "HEADER = [0x64, 0x1b, 0x00, 0xac]"

definition VERSION :: bytes where
  "VERSION = [0x00, 0x02, 0x00, 0x01]"

definition genesis_header_item :: "genesis_header \<Rightarrow> rlp_item" where
  "genesis_header_item h =
     RList [RStr (gh_genesis_id h), u64_item (gh_network_id h), RStr (bytes_of_string (gh_network_name h))]"

definition item_genesis_header :: "rlp_item \<Rightarrow> rlp_error + genesis_header" where
  "item_genesis_header it =
     res_bind (item_fields 3 it) (\<lambda>fs.
     res_bind (item_array 32 (fs ! 0)) (\<lambda>genesis_id.
     res_bind (item_u64 (fs ! 1)) (\<lambda>network_id.
     res_bind (item_str (fs ! 2)) (\<lambda>network_name.
       Inr \<lparr>gh_genesis_id = genesis_id, gh_network_id = network_id, gh_network_name = network_name\<rparr>))))"

definition unit_item :: "genesis_unit \<Rightarrow> rlp_item" where
  "unit_item u = RList [RStr (bytes_of_string (gu_unit_name u)), genesis_header_item (gu_header u)]"

definition item_unit :: "rlp_item \<Rightarrow> rlp_error + genesis_unit" where
  "item_unit it =
     res_bind (item_fields 2 it) (\<lambda>fs.
     res_bind (item_str (fs ! 0)) (\<lambda>unit_name.
     res_bind (item_genesis_header (fs ! 1)) (\<lambda>header.
       Inr \<lparr>gu_unit_name = unit_name, gu_header = header\<rparr>)))"

definition read_file_header :: "file_reader \<Rightarrow> genesis_error + file_reader" where
  "read_file_header r =
     (case read_bytes 4 r of
        Inl UnexpectedEof \<Rightarrow> Inl (GGFile HeaderMissing)
      | Inl (ReadFault e) \<Rightarrow> Inl (GIo e)
      | Inr (header, r1) \<Rightarrow>
          if header \<noteq> HEADER then Inl (GGFile (InvalidHeader header HEADER))
          else case read_bytes 4 r1 of
            Inl UnexpectedEof \<Rightarrow> Inl (GGFile HeaderMissing)
          | Inl (ReadFault e) \<Rightarrow> Inl (GIo e)
          | Inr (version, r2) \<Rightarrow>
              if version \<noteq> VERSION then Inl (GGFile (InvalidFileVersion version VERSION)) else Inr r2)"

definition parse_unit :: "eth \<Rightarrow> file_reader \<Rightarrow> nat \<Rightarrow> genesis_error + genesis_unit \<times> file_reader" where
  "parse_unit E r reader_len =
     (let unit_buf_len = min 1024 (reader_len - fr_pos r) in
      res_bind (map_err genesis_io (read_bytes unit_buf_len r)) (\<lambda>(unit_buffer, r1).
      res_bind (map_err GRlp (decode_with E item_unit unit_buffer)) (\<lambda>(u, rest).
      res_bind (seek_relative (- int (length rest)) r1) (\<lambda>r2. Inr (u, r2)))))"

definition parse_entry ::
  "eth \<Rightarrow> nat \<Rightarrow> file_reader \<Rightarrow> genesis_header option \<Rightarrow> units \<Rightarrow>
    genesis_error + file_reader \<times> genesis_header option \<times> units" where
  "parse_entry E len r header units =
     res_bind (read_file_header r) (\<lambda>r1.
     res_bind (parse_unit E r1 len) (\<lambda>(u, r2).
     res_bind
       (case header of
          Some h \<Rightarrow> if h \<noteq> gu_header u then Inl (GGFile HeaderMismatch) else Inr (Some h)
        | None \<Rightarrow> Inr (Some (gu_header u))) (\<lambda>header'.
     res_bind (seek_relative 32 r2) (\<lambda>r3.
     res_bind (map_err genesis_io (read_bytes 8 r3)) (\<lambda>(cs, r4).
     res_bind (map_err genesis_io (read_bytes 8 r4)) (\<lambda>(us, r5).
       let compressed_size = u64_from_be_bytes cs; uncompressed_size = u64_from_be_bytes us;
           units' = units(gu_unit_name u \<mapsto>
             \<lparr>ud_offset = fr_pos r5, ud_compressed_size = compressed_size, ud_uncompressed_size = uncompressed_size\<rparr>)
       in res_bind (seek_relative (sint compressed_size) r5) (\<lambda>r6. Inr (r6, header', units'))))))))"

partial_function (option) parse_units ::
  "eth \<Rightarrow> nat \<Rightarrow> file_reader \<Rightarrow> genesis_header option \<Rightarrow> units \<Rightarrow>
    (genesis_error + genesis_header option \<times> units) option" where
  "parse_units E len r header units =
     (if len \<le> fr_pos r then Some (Inr (header, units))
      else case parse_entry E len r header units of
        Inl e \<Rightarrow> Some (Inl e)
      | Inr (r', header', units') \<Rightarrow> parse_units E len r' header' units')"

definition parse_metadata :: "eth \<Rightarrow> file_reader \<Rightarrow> (genesis_error + genesis_metadata) option" where
  "parse_metadata E r =
     (case parse_units E (length (fr_data r)) (r\<lparr>fr_pos := 0\<rparr>) None Map.empty of
        None \<Rightarrow> None
      | Some (Inl e) \<Rightarrow> Some (Inl e)
      | Some (Inr (None, units)) \<Rightarrow> Some (Inl (GGFile HeaderMissing))
      | Some (Inr (Some h, units)) \<Rightarrow> Some (Inr \<lparr>gm_chain_id = gh_network_id h, gm_units = units\<rparr>))"

subsection \<open>The block parser\<close>

datatype 'a run = Returns 'a | Panics

record block_parser =
  bp_slice_reader :: slice_reader
  bp_error :: bool

definition MAX_MEM_USAGE :: u64 where
  "MAX_MEM_USAGE = 256 * 1024 * 1024"

definition file_source :: "file_reader \<Rightarrow> nat \<Rightarrow> u64 \<Rightarrow> source" where
  "file_source r offset limit =
     (let section = take (unat limit) (drop offset (fr_data r)) in
      case fr_fault r of
        Some (k, e) \<Rightarrow>
          if k < offset + length section then \<lparr>src_bytes = take (k - offset) section, src_error = Some e\<rparr>
          else \<lparr>src_bytes = section, src_error = None\<rparr>
      | None \<Rightarrow> \<lparr>src_bytes = section, src_error = None\<rparr>)"

definition source_read_bytes :: "nat \<Rightarrow> source \<Rightarrow> genesis_error + bytes \<times> source" where
  "source_read_bytes n src =
     (if n \<le> length (src_bytes src) then Inr (take n (src_bytes src), src\<lparr>src_bytes := drop n (src_bytes src)\<rparr>)
      else case src_error src of Some e \<Rightarrow> Inl (GIo e) | None \<Rightarrow> Inl (GIo eof_text))"

definition div_ceil :: "u64 \<Rightarrow> u64 \<Rightarrow> u64 run" where
  "div_ceil a b = (if b = 0 then Panics else Returns (if a mod b > 0 then a div b + 1 else a div b))"

definition block_parser_try_new :: "(source \<Rightarrow> source) \<Rightarrow> file_reader \<Rightarrow> units \<Rightarrow> (genesis_error + block_parser) run" where
  "block_parser_try_new gunzip r units =
     (case units ''brs'' of
        None \<Rightarrow> Returns (Inl (GGFile BlocksUnitMissing))
      | Some u \<Rightarrow>
     (case source_read_bytes 4 (gunzip (file_source r (ud_offset u) (ud_compressed_size u))) of
        Inl e \<Rightarrow> Returns (Inl e)
      | Inr (ps, src1) \<Rightarrow>
     (case source_read_bytes 8 src1 of
        Inl e \<Rightarrow> Returns (Inl e)
      | Inr (sz, src2) \<Rightarrow>
          let piece_size = u64_of_u32 (u32_from_be_bytes ps); total_size = u64_from_be_bytes sz in
          (case div_ceil total_size piece_size of
             Panics \<Rightarrow> Panics
           | Returns num_hashes \<Rightarrow>
               if piece_size + num_hashes * 128 > MAX_MEM_USAGE
               then Returns (Inl (GGFile (PieceSizeTooLarge piece_size MAX_MEM_USAGE)))
               else case read_to_end_take (unat (num_hashes * 32)) src2 of
                 (Inl e, _, _) \<Rightarrow> Returns (Inl e)
               | (Inr _, _, src3) \<Rightarrow>
                   Returns (Inr \<lparr>bp_slice_reader = slice_reader_new src3 (unat MAX_MEM_USAGE) (unat (MAX_MEM_USAGE div 2)),
                                 bp_error = False\<rparr>)))))"

text \<open>A decoder for the slice reader; after an error the iterator yields nothing more, so what is
  left of the slice then does not matter.\<close>

definition slice_decoder :: "'a decoder \<Rightarrow> bytes \<Rightarrow> (rlp_error + 'a) \<times> bytes" where
  "slice_decoder dec buf = (case dec buf of Inl e \<Rightarrow> (Inl e, buf) | Inr (x, rest) \<Rightarrow> (Inr x, rest))"

definition block_parser_next ::
  "eth \<Rightarrow> rlp_header \<Rightarrow> block_parser \<Rightarrow> (genesis_error + block) option \<times> block_parser" where
  "block_parser_next E H bp =
     (if bp_error bp then (None, bp)
      else case process_with (slice_decoder (idx_full_block_decode E H)) GRlp (bp_slice_reader bp) of
        (Inr (Some i), sr) \<Rightarrow> (Some (map_err (\<lambda>msg. GRlp (RlpCustom msg)) (block_try_from i)), bp\<lparr>bp_slice_reader := sr\<rparr>)
      | (Inr None, sr) \<Rightarrow> (None, bp\<lparr>bp_slice_reader := sr\<rparr>)
      | (Inl e, sr) \<Rightarrow> (Some (Inl e), bp\<lparr>bp_slice_reader := sr, bp_error := True\<rparr>))"

text \<open>The items that at most \<open>n\<close> calls of \<open>next\<close> yield.\<close>

fun next_blocks :: "eth \<Rightarrow> rlp_header \<Rightarrow> nat \<Rightarrow> block_parser \<Rightarrow> (genesis_error + block) list" where
  "next_blocks E H 0 bp = []"
| "next_blocks E H (Suc n) bp =
     (case block_parser_next E H bp of
        (None, bp') \<Rightarrow> []
      | (Some item, bp') \<Rightarrow> item # next_blocks E H n bp')"

subsection \<open>The file\<close>

record gfile =
  gf_chain_id :: u64
  gf_blocks :: block_parser

definition gfile_parse ::
  "eth \<Rightarrow> (source \<Rightarrow> source) \<Rightarrow> file_reader \<Rightarrow> (genesis_error + gfile) run option" where
  "gfile_parse E gunzip r =
     (case parse_metadata E r of
        None \<Rightarrow> None
      | Some (Inl e) \<Rightarrow> Some (Returns (Inl e))
      | Some (Inr m) \<Rightarrow>
          Some (case block_parser_try_new gunzip r (gm_units m) of
            Panics \<Rightarrow> Panics
          | Returns (Inl e) \<Rightarrow> Returns (Inl e)
          | Returns (Inr bp) \<Rightarrow> Returns (Inr \<lparr>gf_chain_id = gm_chain_id m, gf_blocks = bp\<rparr>)))"

subsection \<open>Generating a file\<close>

fun test_chain :: "eth \<Rightarrow> u64 \<Rightarrow> hash \<Rightarrow> nat \<Rightarrow> block list" where
  "test_chain E block_number prev_hash 0 = []"
| "test_chain E block_number prev_hash (Suc k) =
     (let b = default_sonic\<lparr>b_number := block_number, b_parent_hash := prev_hash\<rparr>
      in b # test_chain E (block_number + 1) (block_hash E b) k)"

definition unit_head :: "eth \<Rightarrow> genesis_unit \<Rightarrow> hash \<Rightarrow> u64 \<Rightarrow> u64 \<Rightarrow> bytes" where
  "unit_head E u data_hash compressed_size uncompressed_size =
     HEADER @ VERSION @ rlp_encode E (unit_item u) @ data_hash @ u64_to_be_bytes compressed_size @
     u64_to_be_bytes uncompressed_size"

definition generate_test_genesis ::
  "eth \<Rightarrow> rlp_header \<Rightarrow> (bytes \<Rightarrow> bytes) \<Rightarrow> u64 \<Rightarrow> nat \<Rightarrow> block list \<Rightarrow> bytes run" where
  "generate_test_genesis E H gzip network_id num_blocks extra_blocks =
     (let PIECE_SIZE = 1000; SIZE = 10000;
          prefix = u32_to_be_bytes PIECE_SIZE @ u64_to_be_bytes SIZE @ concat (replicate 10 (zero_bytes 32));
          all_blocks = test_chain E 0 (zero_bytes 32) num_blocks @ extra_blocks
      in case collect_results (map (idx_full_block_try_from E) (rev all_blocks)) of
           Inl e \<Rightarrow> Panics
         | Inr records \<Rightarrow>
             let unit_data = prefix @ concat (map (idx_full_block_encode E H) records);
                 compressed = gzip unit_data;
                 header = \<lparr>gh_genesis_id = zero_bytes 32, gh_network_id = network_id, gh_network_name = ''test_network''\<rparr>
             in Returns (unit_head E \<lparr>gu_unit_name = ''brs'', gu_header = header\<rparr> (zero_bytes 32) (of_nat (length compressed))
                        (of_nat (length unit_data)) @ compressed))"

subsection \<open>Parsing the table of units\<close>

lemma string_of_bytes_of_string [simp]: "string_of_bytes (bytes_of_string s) = s"
proof -
  have "char_of (unat (of_nat (of_char c) :: u8)) = c" for c :: char
    by (simp add: unat_of_nat)
  then show ?thesis by (simp add: string_of_bytes_def bytes_of_string_def comp_def map_idI del: unat_of_nat unsigned_of_nat)
qed

definition wf_unit :: "genesis_unit \<Rightarrow> bool" where
  "wf_unit u \<longleftrightarrow>
     utf8_valid (bytes_of_string (gu_unit_name u)) \<and> utf8_valid (bytes_of_string (gh_network_name (gu_header u))) \<and>
     len_ok 32 (gh_genesis_id (gu_header u))"

lemma item_unit_item: "wf_unit u \<Longrightarrow> item_unit (unit_item u) = Inr u"
  by (cases u; cases "gu_header u")
    (simp add: wf_unit_def item_unit_def unit_item_def item_genesis_header_def genesis_header_item_def item_str_def
      item_bytes_def item_simps)

lemma read_bytes_ok:
  assumes "fr_fault r = None" and "fr_data r = pre @ x @ post" and "fr_pos r = length pre" and "length x = n"
  shows "read_bytes n r = Inr (x, r\<lparr>fr_pos := length (pre @ x)\<rparr>)"
  using assms by (simp add: read_bytes_def faulty_def)

lemma seek_relative_ok:
  "0 \<le> int (fr_pos r) + off \<Longrightarrow> int (fr_pos r) + off < 2 ^ 63 \<Longrightarrow>
   seek_relative off r = Inr (r\<lparr>fr_pos := nat (int (fr_pos r) + off)\<rparr>)"
  by (simp add: seek_relative_def Let_def)

lemma int_less_2_63: "n < 2 ^ 63 \<Longrightarrow> int n < 2 ^ 63"
  by (metis of_nat_less_iff of_nat_numeral of_nat_power)

lemma sint_of_length: "n < 2 ^ 63 \<Longrightarrow> sint (of_nat n :: u64) = int n"
proof -
  assume n: "n < 2 ^ 63"
  have "sint (of_nat n :: u64) = signed_take_bit 63 (int n)" by (simp add: signed_of_nat)
  also have "\<dots> = int n" using int_less_2_63 [OF n] by (intro signed_take_bit_int_eq_self) auto
  finally show ?thesis .
qed

lemma read_file_header_ok:
  assumes "fr_fault r = None" and "fr_data r = pre @ HEADER @ VERSION @ post" and "fr_pos r = length pre"
  shows "read_file_header r = Inr (r\<lparr>fr_pos := length (pre @ HEADER @ VERSION)\<rparr>)"
proof -
  have l: "length HEADER = 4" "length VERSION = 4" by (simp_all add: HEADER_def VERSION_def)
  let ?r1 = "r\<lparr>fr_pos := length (pre @ HEADER)\<rparr>"
  have "read_bytes 4 r = Inr (HEADER, ?r1)" using assms l by (intro read_bytes_ok) auto
  moreover have "read_bytes 4 ?r1 = Inr (VERSION, ?r1\<lparr>fr_pos := length ((pre @ HEADER) @ VERSION)\<rparr>)"
    using assms l by (intro read_bytes_ok [where post = post]) auto
  ultimately show ?thesis by (simp add: read_file_header_def)
qed

context eth_crates
begin

lemma parse_unit_ok:
  assumes "fr_fault r = None" and data: "fr_data r = pre @ rlp_encode E (unit_item u) @ post" and pos: "fr_pos r = length pre"
    and "wf_unit u" and len: "length (rlp_encode E (unit_item u)) \<le> 1024" and small: "length (fr_data r) < 2 ^ 63"
  shows "parse_unit E r (length (fr_data r)) = Inr (u, r\<lparr>fr_pos := length (pre @ rlp_encode E (unit_item u))\<rparr>)"
proof -
  let ?enc = "rlp_encode E (unit_item u)"
  let ?n = "min 1024 (length (fr_data r) - fr_pos r)"
  define tail where "tail = take (?n - length ?enc) post"
  have n: "length ?enc \<le> ?n" "?n - length ?enc \<le> length post" using len by (simp_all add: data pos)
  then have tl: "length (?enc @ tail) = ?n" by (simp add: tail_def)
  let ?r1 = "r\<lparr>fr_pos := length (pre @ ?enc @ tail)\<rparr>"
  have rd: "read_bytes ?n r = Inr (?enc @ tail, ?r1)"
    by (rule read_bytes_ok [where post = "drop (?n - length ?enc) post"])
      (use assms tl in \<open>simp_all add: tail_def\<close>)
  have dw: "decode_with E item_unit (?enc @ tail) = Inr (u, tail)"
    using len by (intro decode_with_encode item_unit_item [OF assms(4)]) simp
  have "fr_pos ?r1 \<le> length (fr_data r)" using tl by (simp add: data pos tail_def)
  moreover have "int (length (fr_data r)) < 2 ^ 63" by (rule int_less_2_63 [OF small])
  ultimately have "seek_relative (- int (length tail)) ?r1 = Inr (?r1\<lparr>fr_pos := nat (int (fr_pos ?r1) + - int (length tail))\<rparr>)"
    by (intro seek_relative_ok) simp_all
  then have sk: "seek_relative (- int (length tail)) ?r1 = Inr (r\<lparr>fr_pos := length (pre @ ?enc)\<rparr>)"
    by (simp add: nat_diff_distrib')
  show ?thesis
    unfolding parse_unit_def Let_def rd by (simp only: map_err_simps res_bind_simps prod.case dw sk)
qed

lemma parse_entry_ok:
  assumes "fr_fault r = None" and data: "fr_data r = pre @ unit_head E u data_hash cs us @ post"
    and pos: "fr_pos r = length pre"
    and wf: "wf_unit u" and len: "length (rlp_encode E (unit_item u)) \<le> 1024" and small: "length (fr_data r) < 2 ^ 63"
    and dh: "length data_hash = 32" and header: "header = None \<or> header = Some (gu_header u)"
    and nxt: "int (length (pre @ unit_head E u data_hash cs us)) + sint cs = int p" "p < 2 ^ 63"
  shows "parse_entry E (length (fr_data r)) r header units =
    Inr (r\<lparr>fr_pos := p\<rparr>, Some (gu_header u),
      units(gu_unit_name u \<mapsto> \<lparr>ud_offset = length (pre @ unit_head E u data_hash cs us),
        ud_compressed_size = cs, ud_uncompressed_size = us\<rparr>))"
proof -
  let ?p1 = "pre @ HEADER @ VERSION" and ?enc = "rlp_encode E (unit_item u)"
  let ?cs = "u64_to_be_bytes cs" and ?us = "u64_to_be_bytes us"
  let ?p2 = "?p1 @ ?enc" and ?p3 = "(?p1 @ ?enc) @ data_hash"
  define r1 where "r1 = r\<lparr>fr_pos := length ?p1\<rparr>"
  define r2 where "r2 = r\<lparr>fr_pos := length ?p2\<rparr>"
  define r3 where "r3 = r\<lparr>fr_pos := length ?p3\<rparr>"
  define r4 where "r4 = r\<lparr>fr_pos := length (?p3 @ ?cs)\<rparr>"
  define r5 where "r5 = r\<lparr>fr_pos := length ((?p3 @ ?cs) @ ?us)\<rparr>"
  note d = data [unfolded unit_head_def]
  have i: "int (length (fr_data r)) < 2 ^ 63" by (rule int_less_2_63 [OF small])
  have h: "read_file_header r = Inr r1"
    unfolding r1_def by (rule read_file_header_ok) (use assms(1) pos d in simp_all)
  have "parse_unit E r1 (length (fr_data r1)) = Inr (u, r1\<lparr>fr_pos := length (?p1 @ ?enc)\<rparr>)"
    by (rule parse_unit_ok [OF _ _ _ wf len]) (use assms(1) d small in \<open>simp_all add: r1_def\<close>)
  then have u: "parse_unit E r1 (length (fr_data r)) = Inr (u, r2)" by (simp add: r1_def r2_def)
  have "seek_relative 32 r2 = Inr (r2\<lparr>fr_pos := nat (int (fr_pos r2) + 32)\<rparr>)"
    using i dh by (intro seek_relative_ok) (simp_all add: r2_def d)
  then have s: "seek_relative 32 r2 = Inr r3" using dh by (simp add: r2_def r3_def nat_add_distrib)
  have c: "read_bytes 8 r3 = Inr (?cs, r4)"
    using read_bytes_ok [of r3 ?p3 ?cs "?us @ post" 8] assms(1) d by (simp add: r3_def r4_def)
  have z: "read_bytes 8 r4 = Inr (?us, r5)"
    using read_bytes_ok [of r4 "?p3 @ ?cs" ?us post 8] assms(1) d by (simp add: r4_def r5_def)
  have o: "fr_pos r5 = length (pre @ unit_head E u data_hash cs us)" by (simp add: r5_def unit_head_def)
  have "seek_relative (sint cs) r5 = Inr (r5\<lparr>fr_pos := nat (int (fr_pos r5) + sint cs)\<rparr>)"
    using nxt int_less_2_63 [OF nxt(2)] unfolding o [symmetric] by (intro seek_relative_ok) auto
  then have e: "seek_relative (sint cs) r5 = Inr (r\<lparr>fr_pos := p\<rparr>)"
    using nxt(1) unfolding o [symmetric] by (simp add: r5_def)
  have hd: "(case header of Some h \<Rightarrow> if h \<noteq> gu_header u then Inl (GGFile HeaderMismatch) else Inr (Some h)
      | None \<Rightarrow> Inr (Some (gu_header u))) = (Inr (Some (gu_header u)) :: genesis_error + genesis_header option)"
    using header by auto
  show ?thesis
    unfolding parse_entry_def h u s c z hd Let_def by (simp add: u s c z hd e o)
qed

end

record unit_entry =
  ue_unit :: genesis_unit
  ue_hash :: hash
  ue_data :: bytes
  ue_uncompressed :: u64

definition entry_head :: "eth \<Rightarrow> unit_entry \<Rightarrow> bytes" where
  "entry_head E e = unit_head E (ue_unit e) (ue_hash e) (of_nat (length (ue_data e))) (ue_uncompressed e)"

definition entry_bytes :: "eth \<Rightarrow> unit_entry \<Rightarrow> bytes" where
  "entry_bytes E e = entry_head E e @ ue_data e"

definition wf_entry :: "eth \<Rightarrow> genesis_header \<Rightarrow> unit_entry \<Rightarrow> bool" where
  "wf_entry E h e \<longleftrightarrow>
     wf_unit (ue_unit e) \<and> gu_header (ue_unit e) = h \<and> length (ue_hash e) = 32 \<and>
     length (rlp_encode E (unit_item (ue_unit e))) \<le> 1024"

abbreviation entry_name :: "unit_entry \<Rightarrow> string" where
  "entry_name e \<equiv> gu_unit_name (ue_unit e)"

fun unit_table :: "eth \<Rightarrow> nat \<Rightarrow> unit_entry list \<Rightarrow> units \<Rightarrow> units" where
  "unit_table E off [] m = m"
| "unit_table E off (e # es) m =
     unit_table E (off + length (entry_bytes E e)) es
       (m(entry_name e \<mapsto> \<lparr>ud_offset = off + length (entry_head E e),
          ud_compressed_size = of_nat (length (ue_data e)), ud_uncompressed_size = ue_uncompressed e\<rparr>))"

lemma unit_table_other: "x \<notin> entry_name ` set es \<Longrightarrow> unit_table E off es m x = m x"
  by (induction es arbitrary: off m) auto

lemma unit_table_lookup:
  assumes "distinct (map entry_name es)" and "e \<in> set es" and "length (concat (map (entry_bytes E) es)) < 2 ^ 63"
  shows "\<exists>d. unit_table E (length pre) es m (entry_name e) = Some d \<and> ud_uncompressed_size d = ue_uncompressed e \<and>
    unat (ud_compressed_size d) = length (ue_data e) \<and>
    take (length (ue_data e)) (drop (ud_offset d) (pre @ concat (map (entry_bytes E) es))) = ue_data e"
  using assms
proof (induction es arbitrary: pre m)
  case (Cons x es)
  show ?case
  proof (cases "e = x")
    case True
    have "unat (of_nat (length (ue_data e)) :: u64) = length (ue_data e)"
      using Cons.prems(3) True by (subst unat_of_nat) (simp add: entry_bytes_def)
    moreover have "entry_name e \<notin> entry_name ` set es" using Cons.prems(1) True by simp
    ultimately show ?thesis using True by (simp add: unit_table_other) (simp add: entry_bytes_def)
  next
    case False
    then show ?thesis
      using Cons.IH [of "pre @ entry_bytes E x"] Cons.prems by simp
  qed
qed simp

context eth_crates
begin

lemma parse_units_entries:
  assumes "fr_fault r = None" and "fr_data r = pre @ concat (map (entry_bytes E) es)" and "fr_pos r = length pre"
    and "list_all (wf_entry E h) es" and "length (fr_data r) < 2 ^ 63" and "header = None \<or> header = Some h"
  shows "parse_units E (length (fr_data r)) r header units =
    Some (Inr (if es = [] then header else Some h, unit_table E (length pre) es units))"
  using assms
proof (induction es arbitrary: pre r header units)
  case Nil
  then show ?case by (subst parse_units.simps) simp
next
  case (Cons e es)
  let ?e = "entry_bytes E e" and ?p = "length (pre @ entry_bytes E e)"
  let ?units = "units(entry_name e \<mapsto> \<lparr>ud_offset = length (pre @ entry_head E e),
      ud_compressed_size = of_nat (length (ue_data e)), ud_uncompressed_size = ue_uncompressed e\<rparr>)"
  have wf: "wf_entry E h e" using Cons.prems(4) by simp
  have l: "length (ue_data e) < 2 ^ 63" "?p < 2 ^ 63" using Cons.prems(2,5) by (simp_all add: entry_bytes_def)
  have d: "fr_data r = pre @ unit_head E (ue_unit e) (ue_hash e) (of_nat (length (ue_data e))) (ue_uncompressed e) @
      (ue_data e @ concat (map (entry_bytes E) es))"
    using Cons.prems(2) by (simp add: entry_bytes_def [of E e] entry_head_def [of E e])
  have step: "parse_entry E (length (fr_data r)) r header units = Inr (r\<lparr>fr_pos := ?p\<rparr>, Some h, ?units)"
    using wf l Cons.prems(6)
      parse_entry_ok [OF Cons.prems(1) d Cons.prems(3) _ _ Cons.prems(5), where p = ?p and header = header and units = units]
    by (simp add: wf_entry_def entry_head_def [symmetric] entry_bytes_def sint_of_length)
  have "parse_units E (length (fr_data (r\<lparr>fr_pos := ?p\<rparr>))) (r\<lparr>fr_pos := ?p\<rparr>) (Some h) ?units =
      Some (Inr (if es = [] then Some h else Some h, unit_table E (length (pre @ ?e)) es ?units))"
    by (rule Cons.IH) (use Cons.prems in simp_all)
  then have rec: "parse_units E (length (fr_data r)) (r\<lparr>fr_pos := ?p\<rparr>) (Some h) ?units =
      Some (Inr (Some h, unit_table E (length (pre @ ?e)) es ?units))" by simp
  have "0 < length ?e" by (simp add: entry_bytes_def entry_head_def unit_head_def HEADER_def)
  then have "\<not> length (fr_data r) \<le> fr_pos r" using Cons.prems(2,3) by simp
  then show ?case using rec by (subst parse_units.simps) (simp add: step)
qed

lemma parse_metadata_entries:
  assumes "fr_fault r = None" and "fr_data r = concat (map (entry_bytes E) es)" and "es \<noteq> []"
    and "list_all (wf_entry E h) es" and "length (fr_data r) < 2 ^ 63"
  shows "parse_metadata E r = Some (Inr \<lparr>gm_chain_id = gh_network_id h, gm_units = unit_table E 0 es Map.empty\<rparr>)"
  using parse_units_entries [of "r\<lparr>fr_pos := 0\<rparr>" "[]" es h None Map.empty] assms by (simp add: parse_metadata_def)

text \<open>A compressed size that is negative as an \<open>i64\<close> moves the reader back.\<close>

lemma parse_units_cycle:
  assumes "fr_fault r = None" and data: "fr_data r = unit_head E u data_hash cs us" and pos: "fr_pos r = 0"
    and "wf_unit u" and "length (rlp_encode E (unit_item u)) \<le> 1024" and "length (fr_data r) < 2 ^ 63"
    and "length data_hash = 32" and "sint cs = - int (length (fr_data r))"
    and "header = None \<or> header = Some (gu_header u)"
  shows "parse_units E (length (fr_data r)) r header units = None"
proof -
  let ?P = "\<lambda>E' l r0 h (us' :: units) (y :: genesis_error + genesis_header option \<times> units).
    E' = E \<longrightarrow> l = length (fr_data r) \<longrightarrow> r0 = r \<longrightarrow> h = None \<or> h = Some (gu_header u) \<longrightarrow> False"
  have step: "parse_entry E (length (fr_data r)) r h us' = Inr (r, Some (gu_header u),
      us'(gu_unit_name u \<mapsto> \<lparr>ud_offset = length (fr_data r), ud_compressed_size = cs, ud_uncompressed_size = us\<rparr>))"
    if "h = None \<or> h = Some (gu_header u)" for h us'
    using parse_entry_ok [of r "[]" u data_hash cs us "[]" h 0 us'] assms that by simp
  have pos': "\<not> length (fr_data r) \<le> fr_pos r" using pos by (simp add: data unit_head_def HEADER_def)
  have "False" if "parse_units E (length (fr_data r)) r header units = Some y" for y
  proof -
    have "?P E (length (fr_data r)) r header units y"
    proof (rule parse_units.raw_induct [of ?P, OF _ that], intro impI)
      fix f E' l r0 h us' y
      assume IH: "\<And>E' l r0 h us' y. f E' l r0 h us' = Some y \<Longrightarrow> ?P E' l r0 h us' y"
        and body: "(if l \<le> fr_pos r0 then Some (Inr (h, us'))
          else case parse_entry E' l r0 h us' of Inl e \<Rightarrow> Some (Inl e)
            | Inr (r', header', units') \<Rightarrow> f E' l r' header' units') = Some y"
        and "E' = E" "l = length (fr_data r)" "r0 = r" "h = None \<or> h = Some (gu_header u)"
      then have "f E (length (fr_data r)) r (Some (gu_header u)) (us'(gu_unit_name u \<mapsto> \<lparr>ud_offset = length (fr_data r),
          ud_compressed_size = cs, ud_uncompressed_size = us\<rparr>)) = Some y" using step [of h us'] pos' by auto
      from IH [OF this] show False by simp
    qed
    then show False using assms(9) by simp
  qed
  then show ?thesis by (cases "parse_units E (length (fr_data r)) r header units") auto
qed

end

subsection \<open>Parsing blocks\<close>

lemma unat_MAX_MEM_USAGE [simp]: "unat MAX_MEM_USAGE = 268435456" "unat (MAX_MEM_USAGE div 2) = 134217728"
  by (simp_all add: MAX_MEM_USAGE_def)

definition record_item :: "idx_full_block \<Rightarrow> genesis_error + block" where
  "record_item i = map_err (\<lambda>msg. GRlp (RlpCustom msg)) (block_try_from i)"

context rlp_headers
begin

lemma idx_full_block_decodes:
  assumes "wf_full_block (ifb_block i)" and "length (idx_full_block_encode E H i) < 2 ^ 64"
  shows "decodes (slice_decoder (idx_full_block_decode E H)) (idx_full_block_encode E H i) i"
proof -
  let ?r = "rlp_encode E (list_item stored_receipt_item (fb_receipts (ifb_block i)))"
  have "length ?r \<le> length (idx_full_block_encode E H i)"
    by (simp add: idx_full_block_encode_def list_bytes_def full_block_parts_def)
  then have "length ?r < 2 ^ 64" using assms(2) by (rule le_less_trans)
  then have "?r \<noteq> []" using rlp_list_byte unfolding list_item_def by fastforce
  then have "idx_full_block_encode E H i \<noteq> []"
    using \<open>length ?r \<le> length (idx_full_block_encode E H i)\<close> by auto
  then show ?thesis using idx_full_block_roundtrip [OF assms] by (simp add: decodes_def slice_decoder_def)
qed

lemma next_blocks_records:
  assumes "\<not> bp_error bp" and "sr_inv (bp_slice_reader bp)" and "src_error (sr_reader (bp_slice_reader bp)) = None"
    and "unread (bp_slice_reader bp) = concat (map (idx_full_block_encode E H) is)"
    and "\<forall>i \<in> set is. wf_full_block (ifb_block i) \<and> length (idx_full_block_encode E H i) < 2 ^ 64 \<and>
      length (idx_full_block_encode E H i) \<le> sr_min_slice_size (bp_slice_reader bp)"
    and "length is < n"
  shows "next_blocks E H n bp = map record_item is"
  using assms
proof (induction "is" arbitrary: bp n)
  case Nil
  then obtain n' where n: "n = Suc n'" using gr0_implies_Suc by auto
  obtain sr where "process_with (slice_decoder (idx_full_block_decode E H)) GRlp (bp_slice_reader bp) = (Inr None, sr)"
    using process_with_end [OF Nil.prems(2,3)] Nil.prems(4) by auto
  then show ?case using Nil.prems(1) by (simp add: n block_parser_next_def)
next
  case (Cons i "is")
  then obtain n' where n: "n = Suc n'" by (cases n) auto
  have "unread (bp_slice_reader bp) = idx_full_block_encode E H i @ concat (map (idx_full_block_encode E H) is)"
    using Cons.prems(4) by simp
  then obtain sr where sr: "process_with (slice_decoder (idx_full_block_decode E H)) GRlp (bp_slice_reader bp) = (Inr (Some i), sr)"
      "sr_inv sr" "unread sr = concat (map (idx_full_block_encode E H) is)" "src_error (sr_reader sr) = None"
      "sr_min_slice_size sr = sr_min_slice_size (bp_slice_reader bp)"
    using process_with_item [OF Cons.prems(2,3)] idx_full_block_decodes Cons.prems(5) by (metis list.set_intros(1))
  have "next_blocks E H n' (bp\<lparr>bp_slice_reader := sr\<rparr>) = map record_item is"
    using Cons.IH [of "bp\<lparr>bp_slice_reader := sr\<rparr>" n'] Cons.prems sr by (simp add: n)
  then show ?case using Cons.prems(1) sr(1) by (simp add: n block_parser_next_def record_item_def)
qed

end

subsection \<open>A file with blocks\<close>

text \<open>What a gzip stream of a block unit holds: sizes, hashes of the pieces and records.\<close>

definition block_section :: "eth \<Rightarrow> rlp_header \<Rightarrow> u32 \<Rightarrow> u64 \<Rightarrow> bytes \<Rightarrow> idx_full_block list \<Rightarrow> bytes" where
  "block_section E H piece_size total_size hashes records =
     u32_to_be_bytes piece_size @ u64_to_be_bytes total_size @ hashes @ concat (map (idx_full_block_encode E H) records)"

lemma take_drop_take: "length xs = n \<Longrightarrow> take n (xs @ ys) = xs" "length xs = n \<Longrightarrow> drop n (xs @ ys) = ys"
  by auto

lemma block_parser_try_new_ok:
  assumes "units ''brs'' = Some u" and "gunzip (file_source r (ud_offset u) (ud_compressed_size u)) =
      \<lparr>src_bytes = block_section E H piece_size total_size hashes records, src_error = None\<rparr>"
    and "div_ceil total_size (u64_of_u32 piece_size) = Returns k" and "length hashes = unat (k * 32)"
    and "u64_of_u32 piece_size + k * 128 \<le> MAX_MEM_USAGE"
  shows "block_parser_try_new gunzip r units = Returns (Inr
    \<lparr>bp_slice_reader = slice_reader_new \<lparr>src_bytes = concat (map (idx_full_block_encode E H) records), src_error = None\<rparr> 268435456 134217728,
     bp_error = False\<rparr>)"
  using assms
  by (simp add: block_parser_try_new_def block_section_def source_read_bytes_def take_drop_take Let_def not_less read_to_end_take_def
      del: unat_mult_lem)

context rlp_headers
begin

lemma gfile_blocks:
  assumes "\<forall>i \<in> set records. wf_full_block (ifb_block i) \<and> length (idx_full_block_encode E H i) \<le> 134217728"
    and "length records < n"
  shows "next_blocks E H n \<lparr>bp_slice_reader = slice_reader_new
      \<lparr>src_bytes = concat (map (idx_full_block_encode E H) records), src_error = None\<rparr> 268435456 134217728, bp_error = False\<rparr> =
    map record_item records"
proof (rule next_blocks_records)
  let ?src = "\<lparr>src_bytes = concat (map (idx_full_block_encode E H) records), src_error = None\<rparr>"
  have "(0 :: nat) < 134217728" "(134217728 :: nat) \<noteq> 268435456" by simp_all
  note S = slice_reader_new_ok [OF this, of ?src]
  show "sr_inv (bp_slice_reader \<lparr>bp_slice_reader = slice_reader_new ?src 268435456 134217728, bp_error = False\<rparr>)"
    using S(1) by simp
  show "unread (bp_slice_reader \<lparr>bp_slice_reader = slice_reader_new ?src 268435456 134217728, bp_error = False\<rparr>) =
      concat (map (idx_full_block_encode E H) records)" using S(2) by simp
qed (use assms in \<open>auto simp: slice_reader_new_def\<close>)

lemma genesis_file_blocks:
  assumes wf: "list_all (wf_entry E h) es" and distinct: "distinct (map entry_name es)"
    and small: "length (concat (map (entry_bytes E) es)) < 2 ^ 63"
    and brs: "e \<in> set es" "entry_name e = ''brs''"
    and gz: "gunzip \<lparr>src_bytes = ue_data e, src_error = None\<rparr> =
      \<lparr>src_bytes = block_section E H piece_size total_size hashes records, src_error = None\<rparr>"
    and pieces: "div_ceil total_size (u64_of_u32 piece_size) = Returns k" "length hashes = unat (k * 32)"
      "u64_of_u32 piece_size + k * 128 \<le> MAX_MEM_USAGE"
    and records: "\<forall>i \<in> set records. wf_full_block (ifb_block i) \<and> length (idx_full_block_encode E H i) \<le> 134217728"
  shows "\<exists>g. gfile_parse E gunzip \<lparr>fr_data = concat (map (entry_bytes E) es), fr_pos = 0, fr_fault = None\<rparr> =
      Some (Returns (Inr g)) \<and> gf_chain_id g = gh_network_id h \<and>
    (\<forall>n > length records. next_blocks E H n (gf_blocks g) = map record_item records)"
proof -
  let ?r = "\<lparr>fr_data = concat (map (entry_bytes E) es), fr_pos = 0, fr_fault = None\<rparr>"
  let ?units = "unit_table E 0 es Map.empty"
  have m: "parse_metadata E ?r = Some (Inr \<lparr>gm_chain_id = gh_network_id h, gm_units = ?units\<rparr>)"
    using brs(1) wf small by (intro parse_metadata_entries) auto
  obtain d where d: "?units ''brs'' = Some d" "unat (ud_compressed_size d) = length (ue_data e)"
      "take (length (ue_data e)) (drop (ud_offset d) (concat (map (entry_bytes E) es))) = ue_data e"
    using unit_table_lookup [OF distinct brs(1) small, of "[]" Map.empty] brs(2) by auto
  then have "file_source ?r (ud_offset d) (ud_compressed_size d) = \<lparr>src_bytes = ue_data e, src_error = None\<rparr>"
    by (simp add: file_source_def)
  with gz have "gunzip (file_source ?r (ud_offset d) (ud_compressed_size d)) =
      \<lparr>src_bytes = block_section E H piece_size total_size hashes records, src_error = None\<rparr>" by simp
  from block_parser_try_new_ok [where units = ?units and gunzip = gunzip and r = ?r, OF d(1) this pieces]
  show ?thesis using gfile_blocks [OF records] by (simp add: gfile_parse_def m)
qed

end

subsection \<open>The generated file\<close>

lemma be_val_zeros: "be_val (replicate n 0) = 0"
  by (induction n) simp_all

lemma test_chain_sonic:
  assumes "\<forall>data. length (keccak256 E data) = 32" and "length h = 32"
  shows "list_all sonic_block (test_chain E n h k)"
  using assms(2)
proof (induction k arbitrary: n h)
  case (Suc k)
  have "sonic_block (default_sonic\<lparr>b_number := n, b_parent_hash := h\<rparr>)"
    using Suc.prems wf_defaults(2)
    by (simp add: sonic_block_def default_sonic_def default_block_def wf_block_def len_ok_def zero_bytes_def
        EMPTY_OMMERS_HASH_def EMPTY_TREE_ROOT_HASH_def be_val_zeros)
  then show ?case using Suc.IH assms(1) by (simp add: Let_def block_hash_def compute_hash_def)
qed simp

lemma records_of_sonic:
  assumes "\<forall>data. length (keccak256 E data) = 32" and "list_all sonic_block bs"
  shows "\<exists>rs. collect_results (map (idx_full_block_try_from E) bs) = Inr rs \<and> length rs = length bs \<and>
    map record_item rs = map Inr bs \<and> (\<forall>r \<in> set rs. wf_full_block (ifb_block r) \<and> (\<exists>b \<in> set bs. idx_full_block_try_from E b = Inr r))"
  using assms(2)
proof (induction bs)
  case (Cons b bs)
  then obtain rs where rs: "collect_results (map (idx_full_block_try_from E) bs) = Inr rs" "length rs = length bs"
      "map record_item rs = map Inr bs" "\<forall>r \<in> set rs. wf_full_block (ifb_block r) \<and> (\<exists>b \<in> set bs. idx_full_block_try_from E b = Inr r)"
    by auto
  have "length (block_hash E b) = 32" using assms(1) by (simp add: block_hash_def compute_hash_def)
  then obtain i where "idx_full_block_try_from E b = Inr i" "wf_full_block (ifb_block i)" "block_try_from i = Inr b"
    using sonic_block_roundtrip Cons.prems by auto
  then show ?case using rs by (intro exI [where x = "i # rs"]) (auto simp: record_item_def [of i])
qed simp

definition generated_blocks :: "eth \<Rightarrow> nat \<Rightarrow> block list \<Rightarrow> block list" where
  "generated_blocks E num_blocks extra_blocks = test_chain E 0 (zero_bytes 32) num_blocks @ extra_blocks"

context rlp_headers
begin

lemma test_unit_short:
  fixes nid :: u64
  defines "u \<equiv> \<lparr>gu_unit_name = ''brs'', gu_header = \<lparr>gh_genesis_id = zero_bytes 32, gh_network_id = nid, gh_network_name = ''test_network''\<rparr>\<rparr>"
  shows "wf_unit u" and "length (rlp_encode E (unit_item u)) \<le> 1024"
proof -
  show "wf_unit u" by (simp add: u_def wf_unit_def bytes_of_string_def len_ok_def zero_bytes_def)
  have s: "length (rlp_encode E (RStr bs)) \<le> 56" if "length bs \<le> 55" for bs
    using rlp_short_string [OF that] that by simp
  have n: "length (dropWhile (\<lambda>b. b = 0) (u64_to_be_bytes nid)) \<le> 55" using length_dropWhile_be [of _ nid] by (rule order_trans) simp
  let ?h = "genesis_header_item (gu_header u)"
  have "length (concat (map (rlp_encode E) [RStr (zero_bytes 32), u64_item nid, RStr (bytes_of_string ''test_network'')])) \<le> 168"
    using s [of "zero_bytes 32"] s [OF n] s [of "bytes_of_string ''test_network''"]
    by (simp add: u64_item_def bytes_of_string_def zero_bytes_def)
  then have "length (rlp_encode E ?h) \<le> 177"
    using head_short [of "length (concat (map (rlp_encode E) [RStr (zero_bytes 32), u64_item nid, RStr (bytes_of_string ''test_network'')]))" True]
    unfolding u_def genesis_header_item_def encode_list by simp
  then have "length (concat (map (rlp_encode E) [RStr (bytes_of_string ''brs''), ?h])) \<le> 233"
    using s [of "bytes_of_string ''brs''"] by (simp add: bytes_of_string_def)
  then show "length (rlp_encode E (unit_item u)) \<le> 1024"
    using head_short [of "length (concat (map (rlp_encode E) [RStr (bytes_of_string ''brs''), ?h]))" True]
    unfolding unit_item_def encode_list by (simp add: u_def)
qed

lemma generated_file:
  assumes gz: "\<forall>bs. gunzip \<lparr>src_bytes = gzip bs, src_error = None\<rparr> = \<lparr>src_bytes = bs, src_error = None\<rparr>"
    and extra: "list_all sonic_block extra_blocks"
    and sizes: "\<forall>b \<in> set (generated_blocks E k extra_blocks). \<forall>i. idx_full_block_try_from E b = Inr i \<longrightarrow>
      length (idx_full_block_encode E H i) \<le> 134217728"
  shows "\<exists>file. generate_test_genesis E H gzip nid k extra_blocks = Returns file \<and>
    (length file < 2 ^ 63 \<longrightarrow>
      (\<exists>g. gfile_parse E gunzip \<lparr>fr_data = file, fr_pos = 0, fr_fault = None\<rparr> = Some (Returns (Inr g)) \<and> gf_chain_id g = nid \<and>
        (\<forall>n > length (generated_blocks E k extra_blocks).
           next_blocks E H n (gf_blocks g) = map Inr (rev (generated_blocks E k extra_blocks)))))"
proof -
  let ?bs = "rev (generated_blocks E k extra_blocks)"
  have kl: "\<forall>data. length (keccak256 E data) = 32" by (simp add: keccak_length)
  have "list_all sonic_block (test_chain E 0 (zero_bytes 32) k)"
    by (rule test_chain_sonic [OF kl]) (simp add: zero_bytes_def)
  then have "list_all sonic_block ?bs" using extra by (auto simp: generated_blocks_def list_all_iff)
  then obtain rs where rs: "collect_results (map (idx_full_block_try_from E) ?bs) = Inr rs" "length rs = length ?bs"
      "map record_item rs = map Inr ?bs" "\<forall>r \<in> set rs. wf_full_block (ifb_block r) \<and> (\<exists>b \<in> set ?bs. idx_full_block_try_from E b = Inr r)"
    using records_of_sonic [OF kl] by blast
  let ?u = "\<lparr>gu_unit_name = ''brs'', gu_header = \<lparr>gh_genesis_id = zero_bytes 32, gh_network_id = nid, gh_network_name = ''test_network''\<rparr>\<rparr>"
  let ?hashes = "concat (replicate 10 (zero_bytes 32))"
  let ?data = "block_section E H 1000 10000 ?hashes rs"
  let ?e = "\<lparr>ue_unit = ?u, ue_hash = zero_bytes 32, ue_data = gzip ?data, ue_uncompressed = of_nat (length ?data)\<rparr>"
  have gen: "generate_test_genesis E H gzip nid k extra_blocks = Returns (entry_bytes E ?e)"
    using rs(1) by (simp add: generate_test_genesis_def generated_blocks_def entry_bytes_def entry_head_def block_section_def Let_def
        add.assoc)
  have "\<exists>g. gfile_parse E gunzip \<lparr>fr_data = entry_bytes E ?e, fr_pos = 0, fr_fault = None\<rparr> = Some (Returns (Inr g)) \<and>
      gf_chain_id g = nid \<and> (\<forall>n > length rs. next_blocks E H n (gf_blocks g) = map record_item rs)"
    if "length (entry_bytes E ?e) < 2 ^ 63"
  proof -
    have "list_all (wf_entry E (gu_header ?u)) [?e]" using test_unit_short [of nid] by (simp add: wf_entry_def zero_bytes_def)
    moreover have "div_ceil 10000 (u64_of_u32 1000) = Returns 10" by (simp add: div_ceil_def u64_of_u32_def)
    moreover have "length ?hashes = unat (10 * 32 :: u64)" by (simp add: length_concat sum_list_replicate zero_bytes_def)
    moreover have "u64_of_u32 1000 + 10 * 128 \<le> MAX_MEM_USAGE" by (simp add: u64_of_u32_def MAX_MEM_USAGE_def)
    moreover have "\<forall>i \<in> set rs. wf_full_block (ifb_block i) \<and> length (idx_full_block_encode E H i) \<le> 134217728"
      using rs(4) sizes by auto
    ultimately show ?thesis
      using genesis_file_blocks [of "gu_header ?u" "[?e]" ?e gunzip 1000 10000 ?hashes rs 10] gz that by simp
  qed
  then show ?thesis using gen rs(2,3) by auto
qed

end

subsection \<open>Properties\<close>

text \<open>C26: parsing the table of a genesis file with any number of units of one network ends and
  returns the network ID and, for units with distinct names, descriptors whose offset and
  compressed size delimit exactly the data of their unit in the file.\<close>

theorem unit_table_correct:
  assumes "eth_crates E" and "es \<noteq> []" and "list_all (wf_entry E h) es" and "distinct (map entry_name es)"
    and "file = concat (map (entry_bytes E) es)" and "length file < 2 ^ 63"
  shows "\<exists>m. parse_metadata E \<lparr>fr_data = file, fr_pos = p, fr_fault = None\<rparr> = Some (Inr m) \<and> gm_chain_id m = gh_network_id h \<and>
    dom (gm_units m) = set (map entry_name es) \<and>
    (\<forall>e \<in> set es. \<exists>d. gm_units m (entry_name e) = Some d \<and>
       take (unat (ud_compressed_size d)) (drop (ud_offset d) file) = ue_data e)"
proof -
  note P = eth_crates.parse_metadata_entries [OF assms(1), of "\<lparr>fr_data = file, fr_pos = p, fr_fault = None\<rparr>" es h]
  have "dom (unit_table E off es m) = dom m \<union> set (map entry_name es)" for off m
    by (induction es arbitrary: off m) auto
  moreover have "\<exists>d. unit_table E 0 es Map.empty (entry_name e) = Some d \<and>
      take (unat (ud_compressed_size d)) (drop (ud_offset d) file) = ue_data e" if "e \<in> set es" for e
    using unit_table_lookup [OF assms(4) that, of E "[]" Map.empty] assms(5,6) by auto
  ultimately show ?thesis using P assms by auto
qed

definition ex_entry :: "string \<Rightarrow> bytes \<Rightarrow> unit_entry" where
  "ex_entry name data =
     \<lparr>ue_unit = \<lparr>gu_unit_name = name, gu_header = \<lparr>gh_genesis_id = zero_bytes 32, gh_network_id = 146, gh_network_name = ''sonic''\<rparr>\<rparr>,
      ue_hash = zero_bytes 32, ue_data = data, ue_uncompressed = 5\<rparr>"

lemma ex_entry_size:
  assumes "length name \<le> 10"
  shows "length (rlp_encode plain_eth (unit_item (ue_unit (ex_entry name data)))) \<le> 1024"
proof -
  have "rlp_size (unit_item (ue_unit (ex_entry name data))) \<le> 1024"
    using rlp_size_fields(1) [of 146] assms
    by (simp add: ex_entry_def unit_item_def genesis_header_item_def bytes_of_string_def zero_bytes_def)
  then show ?thesis using length_rlp_enc [of "unit_item (ue_unit (ex_entry name data))"] by (simp add: plain_eth_def)
qed

theorem unit_table_correct_witness:
  "\<exists>m d. parse_metadata plain_eth \<lparr>fr_data = concat (map (entry_bytes plain_eth) [ex_entry ''brs'' [1, 2, 3], ex_entry ''ers'' [9]]),
      fr_pos = 0, fr_fault = None\<rparr> = Some (Inr m) \<and> gm_chain_id m = 146 \<and> gm_units m ''brs'' = Some d \<and>
     take (unat (ud_compressed_size d)) (drop (ud_offset d) (concat (map (entry_bytes plain_eth) [ex_entry ''brs'' [1, 2, 3], ex_entry ''ers'' [9]]))) =
       [1, 2, 3]"
proof -
  let ?es = "[ex_entry ''brs'' [1, 2, 3], ex_entry ''ers'' [9]]"
  let ?h = "\<lparr>gh_genesis_id = zero_bytes 32, gh_network_id = 146, gh_network_name = ''sonic''\<rparr>"
  have wf: "list_all (wf_entry plain_eth ?h) ?es"
    using ex_entry_size [of "''brs''" "[1, 2, 3]"] ex_entry_size [of "''ers''" "[9]"]
    by (simp add: wf_entry_def wf_unit_def ex_entry_def bytes_of_string_def len_ok_def zero_bytes_def)
  have "length (concat (map (entry_bytes plain_eth) ?es)) < 2 ^ 63"
    using ex_entry_size [of "''brs''" "[1, 2, 3]"] ex_entry_size [of "''ers''" "[9]"]
    by (simp add: entry_bytes_def entry_head_def unit_head_def HEADER_def VERSION_def) (simp add: ex_entry_def zero_bytes_def)
  from unit_table_correct [OF plain.eth_crates_axioms _ wf _ refl this, of 0]
  show ?thesis by (auto simp: ex_entry_def)
qed

text \<open>C27: reading the units of a crafted file never ends: the compressed size is an unsigned
  number, but the code seeks by it as a signed one, so a unit whose compressed size is the
  two's complement of its own length leads back to its beginning.\<close>

theorem parse_metadata_diverges:
  assumes "eth_crates E" and "wf_unit u" and "length (rlp_encode E (unit_item u)) \<le> 1024" and "length data_hash = 32"
    and "file = unit_head E u data_hash (- of_nat n) us" and "n = length file"
  shows "parse_metadata E \<lparr>fr_data = file, fr_pos = p, fr_fault = None\<rparr> = None"
proof -
  let ?r = "\<lparr>fr_data = file, fr_pos = 0, fr_fault = None\<rparr>"
  have "length (unit_head E u data_hash cs us) \<le> 2000" for cs
    using assms(3,4) by (simp add: unit_head_def HEADER_def VERSION_def)
  then have n: "n \<le> 2000" using assms(5,6) by metis
  have "(- of_nat n :: u64) = of_int (- int n)" by simp
  moreover have "sint (of_int (- int n) :: u64) = signed_take_bit 63 (- int n)" unfolding signed_of_int by simp
  ultimately have "sint (- of_nat n :: u64) = signed_take_bit 63 (- int n)" by (simp only:)
  also have "\<dots> = - int n" using n by (intro signed_take_bit_int_eq_self) auto
  finally have s: "sint (- of_nat n :: u64) = - int (length (fr_data ?r))" using assms(6) by simp
  have "length (fr_data ?r) < 2 ^ 63" using n by (simp add: assms(6))
  moreover have "fr_data ?r = unit_head E u data_hash (- of_nat n) us" using assms(5) by simp
  ultimately have "parse_units E (length (fr_data ?r)) ?r None Map.empty = None"
    using s by (intro eth_crates.parse_units_cycle [OF assms(1) _ _ _ assms(2,3) _ assms(4)]) simp_all
  then show ?thesis by (simp add: parse_metadata_def)
qed

theorem parse_metadata_diverges_witness:
  "\<exists>file. parse_metadata plain_eth \<lparr>fr_data = file, fr_pos = 0, fr_fault = None\<rparr> = None"
proof -
  let ?u = "ue_unit (ex_entry ''brs'' [])"
  define n where "n = length (unit_head plain_eth ?u (zero_bytes 32) 0 5)"
  have n: "n = length (unit_head plain_eth ?u (zero_bytes 32) (- of_nat n) 5)" by (simp add: n_def unit_head_def)
  have "wf_unit ?u" by (simp add: wf_unit_def ex_entry_def bytes_of_string_def len_ok_def zero_bytes_def)
  moreover have "length (zero_bytes 32) = 32" by (simp add: zero_bytes_def)
  ultimately show ?thesis
    using parse_metadata_diverges [OF plain.eth_crates_axioms _ ex_entry_size _ refl n] by auto
qed

text \<open>C15: a generated genesis file reads back: for any number of generated blocks and further
  Sonic blocks the generator returns a file, and parsing that file yields its chain ID and then,
  block by block through the buffered parser, exactly these blocks in descending order, with no
  error and no block lost. The records must fit the minimum slice of 128 MiB.\<close>

theorem genesis_file_roundtrip:
  assumes "rlp_headers E H"
    and "\<forall>bs. gunzip \<lparr>src_bytes = gzip bs, src_error = None\<rparr> = \<lparr>src_bytes = bs, src_error = None\<rparr>"
    and "list_all sonic_block extra_blocks"
    and "\<forall>b \<in> set (generated_blocks E k extra_blocks). \<forall>i. idx_full_block_try_from E b = Inr i \<longrightarrow>
      length (idx_full_block_encode E H i) \<le> 134217728"
  shows "\<exists>file. generate_test_genesis E H gzip nid k extra_blocks = Returns file \<and>
    (length file < 2 ^ 63 \<longrightarrow>
      (\<exists>g. gfile_parse E gunzip \<lparr>fr_data = file, fr_pos = 0, fr_fault = None\<rparr> = Some (Returns (Inr g)) \<and> gf_chain_id g = nid \<and>
        (\<forall>n > length (generated_blocks E k extra_blocks).
           next_blocks E H n (gf_blocks g) = map Inr (rev (generated_blocks E k extra_blocks)))))"
  using rlp_headers.generated_file [OF assms] .

lemma plain_list_bytes: "length (list_bytes plain_header parts) \<le> 2 * length (concat parts) + 1"
  using length_rlp_head [of 192 "length (concat parts)"] by (simp add: list_bytes_def plain_header_def)

lemma plain_encode: "length (rlp_encode plain_eth it) \<le> rlp_size it"
  using length_rlp_enc by (simp add: plain_eth_def)

lemma plain_record_size:
  assumes "wf_full_block (ifb_block i)"
    and t: "length (concat (map (rlp_transaction_encode plain_eth) (fb_transactions (ifb_block i)))) \<le> 1000"
    and r: "length (rlp_encode plain_eth (list_item stored_receipt_item (fb_receipts (ifb_block i)))) \<le> 1000"
  shows "length (idx_full_block_encode plain_eth plain_header i) \<le> 20000"
proof -
  let ?b = "ifb_block i"
  have h: "length (rlp_encode plain_eth (RStr bs)) \<le> 65" if "len_ok 32 bs" for bs
    using plain_encode [of "RStr bs"] that by (simp add: len_ok_def)
  have n: "length (rlp_encode plain_eth (u64_item k)) \<le> 17" for k using plain_encode rlp_size_fields(1) by (rule order_trans)
  have w: "length (rlp_encode plain_eth (u256_item k)) \<le> 65" for k using plain_encode rlp_size_fields(2) by (rule order_trans)
  have e: "length (rlp_encode plain_eth (u32_item k)) \<le> 9" for k
    using plain_encode [of "u32_item k"] length_dropWhile_le [of "\<lambda>b. b = 0" "u32_to_be_bytes k"] by (simp add: u32_item_def)
  have "length (concat (full_block_parts plain_eth plain_header ?b)) \<le> 4000"
    using h [of "fb_block_hash ?b"] h [of "fb_parent_hash ?b"] h [of "fb_state_root ?b"] h [of "fb_prev_randao ?b"]
      n [of "fb_timestamp ?b"] n [of "fb_duration ?b"] n [of "fb_difficulty ?b"] n [of "fb_gas_limit ?b"] n [of "fb_gas_used ?b"]
      w [of "fb_base_fee ?b"] e [of "fb_epoch ?b"] r t
      plain_list_bytes [of "map (rlp_transaction_encode plain_eth) (fb_transactions ?b)"] assms(1)
    by (simp add: full_block_parts_def wf_full_block_def)
  then show ?thesis
    using plain_list_bytes [of "full_block_parts plain_eth plain_header ?b"] n [of "ifb_block_number i"]
      plain_list_bytes [of "[list_bytes plain_header (full_block_parts plain_eth plain_header ?b), rlp_encode plain_eth (u64_item (ifb_block_number i))]"]
    by (simp add: idx_full_block_encode_def)
qed

lemma ex_genesis:
  "generated_blocks plain_eth 1 [] = [default_sonic]"
  "\<forall>i. idx_full_block_try_from plain_eth default_sonic = Inr i \<longrightarrow> length (idx_full_block_encode plain_eth plain_header i) \<le> 134217728"
  "\<exists>f. generate_test_genesis plain_eth plain_header (\<lambda>bs. bs) 146 1 [] = Returns f \<and> length f < 2 ^ 63"
proof -
  let ?E = plain_eth and ?H = plain_header
  show gb: "generated_blocks ?E 1 [] = [default_sonic]"
    by (simp add: generated_blocks_def default_sonic_def default_block_def Let_def)
  have kl: "\<forall>data. length (keccak256 ?E data) = 32" using plain_headers.keccak_length by simp
  have "list_all sonic_block (generated_blocks ?E 1 [])"
    using test_chain_sonic [OF kl, of "zero_bytes 32" 0 1] by (simp add: generated_blocks_def zero_bytes_def)
  then have sonic: "sonic_block default_sonic" unfolding gb by simp
  then obtain i where i: "idx_full_block_try_from ?E default_sonic = Inr i" "wf_full_block (ifb_block i)"
    using sonic_block_roundtrip [OF sonic, of ?E] kl by (auto simp: block_hash_def compute_hash_def)
  then have "fb_transactions (ifb_block i) = []" "fb_receipts (ifb_block i) = []"
    by (auto simp: idx_full_block_try_from_def default_sonic_def default_block_def Let_def split: if_splits)
  then have len: "length (idx_full_block_encode ?E ?H i) \<le> 20000"
    using plain_encode [of "list_item stored_receipt_item []"] by (intro plain_record_size [OF i(2)]) (simp_all add: list_item_def)
  then show "\<forall>i. idx_full_block_try_from ?E default_sonic = Inr i \<longrightarrow> length (idx_full_block_encode ?E ?H i) \<le> 134217728"
    using i(1) by auto
  obtain f where f: "generate_test_genesis ?E ?H (\<lambda>bs. bs) 146 1 [] = Returns f"
    using i(1) gb by (simp add: generate_test_genesis_def generated_blocks_def Let_def)
  then have "length f \<le> 30000"
    using i(1) gb len plain_headers.test_unit_short(2) [of 146]
    by (auto simp: generate_test_genesis_def generated_blocks_def Let_def unit_head_def HEADER_def VERSION_def zero_bytes_def
        length_concat sum_list_replicate)
  then show "\<exists>f. generate_test_genesis ?E ?H (\<lambda>bs. bs) 146 1 [] = Returns f \<and> length f < 2 ^ 63" using f by auto
qed

theorem genesis_file_roundtrip_witness:
  "\<exists>file g. generate_test_genesis plain_eth plain_header (\<lambda>bs. bs) 146 1 [] = Returns file \<and>
     gfile_parse plain_eth (\<lambda>src. src) \<lparr>fr_data = file, fr_pos = 0, fr_fault = None\<rparr> = Some (Returns (Inr g)) \<and> gf_chain_id g = 146 \<and>
     next_blocks plain_eth plain_header 2 (gf_blocks g) = [Inr default_sonic]"
proof -
  have hyp: "\<forall>b \<in> set (generated_blocks plain_eth 1 []). \<forall>i. idx_full_block_try_from plain_eth b = Inr i \<longrightarrow>
      length (idx_full_block_encode plain_eth plain_header i) \<le> 134217728"
    using ex_genesis(2) unfolding ex_genesis(1) by auto
  have "\<forall>bs. (\<lambda>src :: source. src) \<lparr>src_bytes = (\<lambda>bs. bs) bs, src_error = None\<rparr> = \<lparr>src_bytes = bs, src_error = None\<rparr>" by simp
  from genesis_file_roundtrip [OF plain_headers.rlp_headers_axioms this list.pred_inject(1) hyp, of 146] ex_genesis(3)
  show ?thesis unfolding ex_genesis(1) by fastforce
qed

text \<open>Each record of the block section yields one item of the iterator, in order: its block
  or, for a record that cannot be converted, an error. Such an error does not end the iteration,
  against the documentation that no block is yielded after an error.\<close>

theorem block_parser_yields_records:
  assumes "rlp_headers E H"
    and "\<forall>i \<in> set records. wf_full_block (ifb_block i) \<and> length (idx_full_block_encode E H i) \<le> 134217728"
    and "bp = \<lparr>bp_slice_reader = slice_reader_new \<lparr>src_bytes = concat (map (idx_full_block_encode E H) records), src_error = None\<rparr>
      (unat MAX_MEM_USAGE) (unat (MAX_MEM_USAGE div 2)), bp_error = False\<rparr>"
    and "length records < n"
  shows "next_blocks E H n bp = map (\<lambda>i. map_err (\<lambda>msg. GRlp (RlpCustom msg)) (block_try_from i)) records"
  using rlp_headers.gfile_blocks [OF assms(1,2,4)] unfolding assms(3) by (simp add: record_item_def [abs_def])

definition ex_record :: "bytes \<Rightarrow> u64 \<Rightarrow> idx_full_block" where
  "ex_record status n =
     \<lparr>ifb_block =
        \<lparr>fb_block_hash = zero_bytes 32, fb_parent_hash = zero_bytes 32, fb_state_root = zero_bytes 32, fb_timestamp = 0,
         fb_duration = 0, fb_difficulty = 0, fb_gas_limit = 0, fb_gas_used = 0, fb_base_fee = 0, fb_prev_randao = zero_bytes 32,
         fb_epoch = 0, fb_transactions = [RlpTransaction default_transaction],
         fb_receipts = [\<lparr>srr_post_state_or_status = status, srr_cumulative_gas_used = 0, srr_logs = []\<rparr>]\<rparr>,
      ifb_block_number = n\<rparr>"

lemma ex_record:
  assumes "length status \<le> 32"
  shows "wf_full_block (ifb_block (ex_record status n)) \<and> length (idx_full_block_encode plain_eth plain_header (ex_record status n)) \<le> 134217728"
proof -
  have wf: "wf_full_block (ifb_block (ex_record status n))"
    using wf_defaults(3)
    by (simp add: wf_full_block_def ex_record_def len_ok_def zero_bytes_def wf_stored_receipt_def)
       (simp add: kind_only_def default_transaction_def is_valid_def constructible_defs)
  obtain t where "legacy_try_from default_transaction = Inr t" "rlp_size (legacy_item t) \<le> 1000"
    using rlp_size_fields(1) [of 0] rlp_size_fields(2) [of 0]
    by (auto simp: legacy_try_from_def constructible_defs default_transaction_def legacy_item_def rlp_nil_item_def
        rlp_string_item_def zero_bytes_def)
  then have "length (transaction_marshal plain_eth default_transaction) \<le> 1000"
    using plain_encode [of "legacy_item t"]
    by (simp add: transaction_marshal_def or_empty_string_def default_transaction_def)
  moreover have "length (rlp_encode plain_eth (list_item stored_receipt_item (fb_receipts (ifb_block (ex_record status n))))) \<le> 1000"
    using plain_encode [of "list_item stored_receipt_item (fb_receipts (ifb_block (ex_record status n)))"]
      rlp_size_fields(1) [of 0] assms
    by (simp add: ex_record_def list_item_def stored_receipt_item_def rlp_string_item_def)
  ultimately have "length (idx_full_block_encode plain_eth plain_header (ex_record status n)) \<le> 20000"
    by (intro plain_record_size [OF wf]) (simp_all add: ex_record_def rlp_transaction_encode_def default_transaction_def)
  then show ?thesis using wf by simp
qed

theorem block_parser_yields_records_witness:
  "\<exists>b. next_blocks plain_eth plain_header 3 \<lparr>bp_slice_reader = slice_reader_new
       \<lparr>src_bytes = concat (map (idx_full_block_encode plain_eth plain_header) [ex_record [5] 2, ex_record [1] 1]), src_error = None\<rparr>
       (unat MAX_MEM_USAGE) (unat (MAX_MEM_USAGE div 2)), bp_error = False\<rparr> =
     [Inl (GRlp (RlpCustom ''invalid receipt status'')), Inr b] \<and> b_number b = 1"
proof -
  let ?rs = "[ex_record [5] 2, ex_record [1] 1]"
  have rs: "\<forall>i \<in> set ?rs. wf_full_block (ifb_block i) \<and> length (idx_full_block_encode plain_eth plain_header i) \<le> 134217728"
    using ex_record [of "[5]" 2] ex_record [of "[1]" 1] by simp
  have "block_try_from (ex_record [5] 2) = Inl ''invalid receipt status''"
    by (simp add: block_try_from_def ex_record_def receipt_try_from_def RECEIPT_STATUS_FAILED_RLP_def
        RECEIPT_STATUS_SUCCESS_RLP_def Let_def)
  moreover have "\<exists>b. block_try_from (ex_record [1] 1) = Inr b \<and> b_number b = 1"
    by (simp add: block_try_from_def ex_record_def receipt_try_from_def RECEIPT_STATUS_FAILED_RLP_def
        RECEIPT_STATUS_SUCCESS_RLP_def Let_def)
  moreover have "length ?rs < 3" by simp
  ultimately show ?thesis
    using block_parser_yields_records [OF plain_headers.rlp_headers_axioms rs refl \<open>length ?rs < 3\<close>] by auto
qed

end
