(* ===== verification/Cmd_Import.thy ===== *)
theory Cmd_Import
  imports Cmd_Verify GFile
begin

section \<open>Importing blocks\<close>

text \<open>
  blockservice/src/cmd/import.rs: importing the blocks that a genesis file or a directory of era
  files yields, newest first, in batches, with optional verification of the parent hashes. The
  blocks are the items of the iterator of the genesis parser; \<open>cancelled i\<close> is the answer
  of the cancellation token to poll \<open>i\<close>. Timing, the progress bar and errors of the
  output are not modelled. Shown: whatever happens, an import keeps the invariant of the database
  and writes only blocks of its source that are not already part of the range that starts at
  block zero; an import that ends without an error or cancellation has stored all of these; a
  verified import stores only blocks that are linked by their hashes.
\<close>

subsection \<open>The loop\<close>

datatype import_error =
    ImportErr error
  | GenesisErr genesis_error
  | OpenErr string
  | InvalidMetadata u64
  | ParentHashMismatch u64 hash hash
  | BlockZeroParentHash hash

datatype import_line =
    ContainsBlocks u64 u64
  | CreatingEntry u64
  | AllBlocksPresent
  | SkippingBlocks u64
  | ImportingBlocks u64
  | ImportCancelled
  | WroteBlocks nat nat

record 'b import_state =
  is_batch :: 'b
  is_prev_parent_hash :: "hash option"
  is_written :: nat
  is_count :: nat

definition BATCH_SIZE :: nat where
  "BATCH_SIZE = 100000000"

definition import_check ::
  "('d, 'b) blockdb \<Rightarrow> eth \<Rightarrow> 'd \<Rightarrow> u64 \<Rightarrow> u64 \<Rightarrow> hash option \<Rightarrow> block \<Rightarrow> import_error + block \<times> hash option" where
  "import_check D E d chain_id smallest prev_parent_hash b0 =
     res_bind
       (if b_number b0 < smallest then
          (case db_get D d chain_id (b_number b0) of
             Inl e \<Rightarrow> Inl (ImportErr e)
           | Inr None \<Rightarrow> Inl (InvalidMetadata (b_number b0))
           | Inr (Some b) \<Rightarrow> Inr b)
        else Inr b0) (\<lambda>b.
     res_bind
       (case prev_parent_hash of
          None \<Rightarrow> Inr ()
        | Some h \<Rightarrow>
            if block_hash E b \<noteq> h then Inl (ParentHashMismatch (b_number b + 1) (block_hash E b) h) else Inr ()) (\<lambda>_.
     if b_number b = 0 \<and> b_parent_hash b \<noteq> zero_bytes 32 then Inl (BlockZeroParentHash (zero_bytes 32))
     else Inr (b, Some (b_parent_hash b))))"

definition import_flush ::
  "('d, 'b) blockdb \<Rightarrow> 'd \<Rightarrow> 'b \<Rightarrow> (import_error + 'b) \<times> 'd" where
  "import_flush D d batch =
     (if bb_size D batch \<ge> BATCH_SIZE then
        (case db_write_batch D d batch of
           (Inl e, d') \<Rightarrow> (Inl (ImportErr e), d')
         | (Inr u, d') \<Rightarrow> (Inr (db_batch D d'), d'))
      else (Inr batch, d))"

fun import_loop ::
  "('d, 'b) blockdb \<Rightarrow> eth \<Rightarrow> prost \<Rightarrow> u64 \<Rightarrow> bool \<Rightarrow> u64 \<Rightarrow> (nat \<Rightarrow> bool) \<Rightarrow> nat \<Rightarrow> (genesis_error + block) list \<Rightarrow>
    'd \<Rightarrow> 'b import_state \<Rightarrow> (import_error + 'b import_state \<times> import_line list) \<times> 'd" where
  "import_loop D E pr chain_id check smallest cancelled i [] d st = (Inr (st, []), d)"
| "import_loop D E pr chain_id check smallest cancelled i (result # rest) d st =
     (if cancelled i then (Inr (st, [ImportCancelled]), d)
      else case result of
        Inl e \<Rightarrow> (Inl (GenesisErr e), d)
      | Inr b0 \<Rightarrow>
          (case (if check then import_check D E d chain_id smallest (is_prev_parent_hash st) b0
                 else Inr (b0, is_prev_parent_hash st)) of
             Inl e \<Rightarrow> (Inl e, d)
           | Inr (b, prev') \<Rightarrow>
               if b_number b < smallest then (Inr (st, []), d)
               else
                 let protoblock = encode_block pr b in
                 case import_flush D d (is_batch st) of
                   (Inl e, d') \<Rightarrow> (Inl e, d')
                 | (Inr batch, d') \<Rightarrow>
                     import_loop D E pr chain_id check smallest cancelled (Suc i) rest d'
                       \<lparr>is_batch = bb_put_bytes D batch chain_id (b_number b) protoblock, is_prev_parent_hash = prev',
                        is_written = is_written st + length protoblock, is_count = Suc (is_count st)\<rparr>))"

definition smallest_import_block_number :: "block_range list \<Rightarrow> u64" where
  "smallest_import_block_number ranges =
     (case ranges of
        [] \<Rightarrow> 0
      | r # _ \<Rightarrow> if range_start r = 0 then range_end r + 1 else 0)"

definition saturating_sub :: "u64 \<Rightarrow> u64 \<Rightarrow> u64" where
  "saturating_sub a b = (if b \<le> a then a - b else 0)"

definition import_blocks ::
  "('d, 'b) blockdb \<Rightarrow> eth \<Rightarrow> prost \<Rightarrow> (nat \<Rightarrow> bool) \<Rightarrow> 'd \<Rightarrow> u64 \<Rightarrow> bool \<Rightarrow> u64 \<Rightarrow> (genesis_error + block) list \<Rightarrow>
    ((import_error + unit) \<times> import_line list) \<times> 'd" where
  "import_blocks D E pr cancelled d chain_id check total_blocks source =
     (case db_get_ranges_of_chain_id D d chain_id of
        Inl e \<Rightarrow> ((Inl (ImportErr e), []), d)
      | Inr ranges \<Rightarrow>
          let smallest = smallest_import_block_number ranges;
              to_import = saturating_sub total_blocks smallest in
          if to_import = 0 then ((Inr (), [AllBlocksPresent]), d)
          else
            let skip = (if to_import \<noteq> total_blocks then [SkippingBlocks (total_blocks - to_import)] else []);
                st0 = \<lparr>is_batch = db_batch D d, is_prev_parent_hash = None, is_written = 0, is_count = 0\<rparr>
            in case import_loop D E pr chain_id check smallest cancelled 0 source d st0 of
                 (Inl e, d') \<Rightarrow> ((Inl e, skip @ [ImportingBlocks to_import]), d')
               | (Inr (st, ls), d') \<Rightarrow>
                   case db_write_batch D d' (is_batch st) of
                     (Inl e, d'') \<Rightarrow> ((Inl (ImportErr e), skip @ [ImportingBlocks to_import] @ ls), d'')
                   | (Inr u, d'') \<Rightarrow>
                       ((Inr (), skip @ [ImportingBlocks to_import] @ ls @
                          [WroteBlocks (is_count st) (is_written st div (1024 * 1024))]), d''))"

definition import ::
  "'doc toml \<Rightarrow> io \<Rightarrow> ('d, 'b) blockdb \<Rightarrow> eth \<Rightarrow> prost \<Rightarrow> (nat \<Rightarrow> bool) \<Rightarrow> 's fs \<Rightarrow> config \<Rightarrow> 'd \<Rightarrow> u64 \<Rightarrow> bool \<Rightarrow>
    (genesis_error + block) list \<Rightarrow> ((import_error + unit) \<times> import_line list) \<times> 'd \<times> config \<times> 's fs" where
  "import toml io D E pr cancelled fs cfg d chain_id check source =
     (case source of
        Inl e # _ \<Rightarrow> ((Inl (GenesisErr e), []), d, cfg, fs)
      | _ \<Rightarrow>
          let total_blocks = (case source of Inr b # _ \<Rightarrow> b_number b + 1 | _ \<Rightarrow> 0);
              head = [ContainsBlocks total_blocks chain_id] in
          if get_chain_config cfg chain_id = None then
            (case add_chain toml io fs cfg (chain_config_new chain_id) of
               (Inl e, cfg', fs') \<Rightarrow> ((Inl (ImportErr e), head @ [CreatingEntry chain_id]), d, cfg', fs')
             | (Inr u, cfg', fs') \<Rightarrow>
                 (case import_blocks D E pr cancelled d chain_id check total_blocks source of
                    ((r, ls), d') \<Rightarrow> ((r, head @ CreatingEntry chain_id # ls), d', cfg', fs')))
          else
            (case import_blocks D E pr cancelled d chain_id check total_blocks source of
               ((r, ls), d') \<Rightarrow> ((r, head @ ls), d', cfg, fs)))"

subsection \<open>What the loop writes\<close>

definition import_put :: "prost \<Rightarrow> u64 \<Rightarrow> block \<Rightarrow> u64 \<times> u64 \<times> bytes" where
  "import_put pr c b = (c, b_number b, encode_block pr b)"

definition own_numbers :: "(bytes \<Rightarrow> error + block) \<Rightarrow> abs_db \<Rightarrow> u64 \<Rightarrow> u64 \<Rightarrow> bool" where
  "own_numbers dec s c k \<longleftrightarrow>
     (\<forall>n < k. \<forall>data b. blocks s c n = Some data \<longrightarrow> dec data = Inr b \<longrightarrow> b_number b = n)"

fun hash_linked :: "eth \<Rightarrow> hash option \<Rightarrow> block list \<Rightarrow> bool" where
  "hash_linked E prev [] \<longleftrightarrow> True"
| "hash_linked E prev (b # bs) \<longleftrightarrow>
     (prev = None \<or> prev = Some (block_hash E b)) \<and> (b_number b = 0 \<longrightarrow> b_parent_hash b = zero_bytes 32) \<and>
     hash_linked E (Some (b_parent_hash b)) bs"

definition puts_above :: "u64 \<Rightarrow> u64 \<Rightarrow> (u64 \<times> u64 \<times> bytes) list \<Rightarrow> bool" where
  "puts_above c k puts \<longleftrightarrow> list_all (\<lambda>p. fst p = c \<and> k \<le> fst (snd p)) puts"

lemma puts_above_simps [simp]:
  "puts_above c k []" "puts_above c k (p # ps) \<longleftrightarrow> fst p = c \<and> k \<le> fst (snd p) \<and> puts_above c k ps"
  "puts_above c k (ps @ qs) \<longleftrightarrow> puts_above c k ps \<and> puts_above c k qs"
  by (auto simp: puts_above_def)

lemma puts_above_imports: "puts_above c k (map (import_put pr c) bs) \<longleftrightarrow> (\<forall>b \<in> set bs. k \<le> b_number b)"
  by (induction bs) (auto simp: import_put_def)

lemma puts_above_blocks: "puts_above c k puts \<Longrightarrow> n < k \<Longrightarrow> blocks (abs_put_all puts s) c n = blocks s c n"
proof (induction puts arbitrary: s)
  case (Cons p puts)
  obtain c' n' data where p: "p = (c', n', data)" by (metis prod_cases3)
  with Cons show ?case by (auto simp: abs_put_all_Cons abs_put_def)
qed simp

lemma own_numbers_above: "puts_above c k puts \<Longrightarrow> own_numbers dec (abs_put_all puts s) c k \<longleftrightarrow> own_numbers dec s c k"
  by (simp add: own_numbers_def puts_above_blocks)

definition ended :: "(nat \<Rightarrow> bool) \<Rightarrow> u64 \<Rightarrow> nat \<Rightarrow> (genesis_error + block) list \<Rightarrow> bool" where
  "ended cancelled k i rest \<longleftrightarrow>
     rest = [] \<or> cancelled i \<or> (\<exists>b rest'. rest = Inr b # rest' \<and> b_number b < k)"

context block_store
begin

lemma import_flush_effect:
  assumes "inv d" and "holds batch puts" and "import_flush D d batch = (r, d')"
  shows "inv d' \<and> (\<exists>qs ps. puts = qs @ ps \<and> abs d' = abs_put_all qs (abs d) \<and> (\<forall>batch'. r = Inr batch' \<longrightarrow> holds batch' ps))"
proof (cases "bb_size D batch \<ge> BATCH_SIZE")
  case True
  obtain r1 d1 where w: "db_write_batch D d batch = (r1, d1)" by fastforce
  note W = write_batch_law [OF assms(1,2) w]
  show ?thesis
  proof (cases r1)
    case (Inl e)
    with True w W assms(3) show ?thesis
      by (auto simp: import_flush_def intro: exI [where x = "[]"])
  next
    case (Inr u)
    with True w W assms(3) batch_law show ?thesis
      by (auto simp: import_flush_def intro: exI [where x = puts])
  qed
next
  case False
  with assms show ?thesis by (auto simp: import_flush_def intro: exI [where x = "[]"])
qed

lemma import_check_ok:
  assumes "import_check D E d c k prev b0 = Inr (b, prev')" and "own_numbers dec (abs d) c k"
  shows "prev' = Some (b_parent_hash b)" and "hash_linked E prev [b]" and "b_number b = b_number b0"
    and "k \<le> b_number b0 \<Longrightarrow> b = b0"
    and "b_number b0 < k \<Longrightarrow> \<exists>data. blocks (abs d) c (b_number b0) = Some data \<and> dec data = Inr b"
proof -
  have get: "\<exists>data. blocks (abs d) c n = Some data \<and> dec data = Inr b'" if "db_get D d c n = Inr (Some b')" for n b'
  proof -
    from that obtain v where "db_get_bytes D d c n = Inr v" "opt_transpose (map_option dec v) = Inr (Some b')"
      unfolding get_law by auto
    with get_bytes_law show ?thesis by (cases v; cases "dec (the v)") auto
  qed
  show "prev' = Some (b_parent_hash b)" "hash_linked E prev [b]"
    using assms(1) by (auto simp: import_check_def split: if_splits option.splits sum.splits)
  show "\<exists>data. blocks (abs d) c (b_number b0) = Some data \<and> dec data = Inr b" if "b_number b0 < k"
    using assms(1) that get by (auto simp: import_check_def split: if_splits option.splits sum.splits)
  then show "b_number b = b_number b0"
    using assms by (cases "b_number b0 < k") (auto simp: own_numbers_def import_check_def split: if_splits)
  show "b = b0" if "k \<le> b_number b0"
    using assms(1) that by (auto simp: import_check_def leD split: if_splits)
qed

lemma import_loop_effect:
  assumes "inv d" and "holds (is_batch st) puts" and "puts_above c k puts" and "check \<longrightarrow> own_numbers dec (abs d) c k"
    and "import_loop D E pr c check k cancelled i source d st = (r, d')"
  shows "\<exists>bs rest qs ps. source = map Inr bs @ rest \<and> (\<forall>b \<in> set bs. k \<le> b_number b) \<and> inv d' \<and>
    puts @ map (import_put pr c) bs = qs @ ps \<and> abs d' = abs_put_all qs (abs d) \<and>
    (\<forall>st' ls. r = Inr (st', ls) \<longrightarrow> holds (is_batch st') ps \<and> is_count st' = is_count st + length bs \<and>
      ended cancelled k (i + length bs) rest \<and>
      (check \<longrightarrow> hash_linked E (is_prev_parent_hash st) bs \<and>
        (\<not> cancelled (i + length bs) \<and> rest \<noteq> [] \<longrightarrow>
          (\<exists>b0 data b. hd rest = Inr b0 \<and> blocks (abs d) c (b_number b0) = Some data \<and> dec data = Inr b \<and>
             hash_linked E (is_prev_parent_hash st) (bs @ [b])))))"
  (is "\<exists>bs rest qs ps. ?P source d st puts i bs rest qs ps")
  using assms
proof (induction source arbitrary: i d st puts)
  case Nil
  then show ?case by (intro exI [where x = "[]"] exI [where x = puts]) (auto simp: ended_def)
next
  case (Cons x source)
  let ?stop = "\<exists>bs rest qs ps. ?P (x # source) d st puts i bs rest qs ps"
  have stop: ?stop if "d' = d" "\<And>st' ls. r = Inr (st', ls) \<Longrightarrow> st' = st \<and> ended cancelled k i (x # source) \<and>
      (check \<longrightarrow> \<not> cancelled i \<longrightarrow> (\<exists>b0 data b. x = Inr b0 \<and> blocks (abs d) c (b_number b0) = Some data \<and> dec data = Inr b \<and>
         hash_linked E (is_prev_parent_hash st) [b]))"
    by (rule exI [where x = "[]"], rule exI [where x = "x # source"], rule exI [where x = "[]"], rule exI [where x = puts])
      (use that Cons.prems(1,2) in auto)
  show ?case
  proof (cases "cancelled i")
    case True
    then show ?thesis using Cons.prems(5) by (intro stop) (auto simp: ended_def)
  next
    case nc: False
    show ?thesis
    proof (cases x)
      case (Inl e)
      then show ?thesis using nc Cons.prems(5) by (intro stop) auto
    next
      case x: (Inr b0)
      define chk where "chk = (if check then import_check D E d c k (is_prev_parent_hash st) b0 else Inr (b0, is_prev_parent_hash st))"
      have unf: "(r, d') = (case chk of
          Inl e \<Rightarrow> (Inl e, d)
        | Inr (b, prev') \<Rightarrow>
            if b_number b < k then (Inr (st, []), d)
            else case import_flush D d (is_batch st) of
                (Inl e, d') \<Rightarrow> (Inl e, d')
              | (Inr batch, d') \<Rightarrow>
                  import_loop D E pr c check k cancelled (Suc i) source d'
                    \<lparr>is_batch = bb_put_bytes D batch c (b_number b) (encode_block pr b), is_prev_parent_hash = prev',
                     is_written = is_written st + length (encode_block pr b), is_count = Suc (is_count st)\<rparr>)"
        unfolding Cons.prems(5) [symmetric] chk_def using nc x by (simp only: import_loop.simps sum.case if_False Let_def)
      show ?thesis
      proof (cases chk)
        case (Inl e)
        then show ?thesis using unf by (intro stop) auto
      next
        case (Inr p)
        obtain b prev' where p: "p = (b, prev')" by fastforce
        note unf = unf [unfolded Inr p sum.case prod.case]
        have nb: "b_number b = b_number b0" and bb: "k \<le> b_number b0 \<Longrightarrow> b = b0"
          and ck: "check \<Longrightarrow> prev' = Some (b_parent_hash b) \<and> hash_linked E (is_prev_parent_hash st) [b] \<and>
            (b_number b0 < k \<longrightarrow> (\<exists>data. blocks (abs d) c (b_number b0) = Some data \<and> dec data = Inr b))"
        proof -
          have plain: "b = b0" if "\<not> check" using Inr p that by (simp add: chk_def)
          have checked: "import_check D E d c k (is_prev_parent_hash st) b0 = Inr (b, prev')" "own_numbers dec (abs d) c k" if check
            using Inr p that Cons.prems(4) by (simp_all add: chk_def)
          note C = import_check_ok [OF checked]
          show "b_number b = b_number b0" using plain C(3) by (cases check) simp_all
          show "b = b0" if "k \<le> b_number b0" using plain C(4) that by (cases check) simp_all
          show "prev' = Some (b_parent_hash b) \<and> hash_linked E (is_prev_parent_hash st) [b] \<and>
            (b_number b0 < k \<longrightarrow> (\<exists>data. blocks (abs d) c (b_number b0) = Some data \<and> dec data = Inr b))" if check
            using C(1,2,5) [OF that that] by blast
        qed
        show ?thesis
        proof (cases "b_number b < k")
          case True
          then show ?thesis using unf nb ck x by (intro stop) (auto simp: ended_def)
        next
          case False
          then have ge: "k \<le> b_number b0" and b: "b = b0" using nb bb by auto
          obtain r1 d1 where fl: "import_flush D d (is_batch st) = (r1, d1)" by fastforce
          from import_flush_effect [OF Cons.prems(1,2) fl] obtain qs1 ps1 where
            F: "inv d1" "puts = qs1 @ ps1" "abs d1 = abs_put_all qs1 (abs d)" "\<And>b'. r1 = Inr b' \<Longrightarrow> holds b' ps1" by blast
          show ?thesis
          proof (cases r1)
            case (Inl e)
            then have "r = Inl e" "d' = d1" using unf fl False by auto
            then show ?thesis
              by - (rule exI [where x = "[]"], rule exI [where x = "x # source"], rule exI [where x = qs1], rule exI [where x = ps1],
                use F in auto)
          next
            case (Inr batch)
            define st1 where "st1 = \<lparr>is_batch = bb_put_bytes D batch c (b_number b) (encode_block pr b), is_prev_parent_hash = prev',
              is_written = is_written st + length (encode_block pr b), is_count = Suc (is_count st)\<rparr>"
            let ?puts1 = "ps1 @ [import_put pr c b]"
            have run: "import_loop D E pr c check k cancelled (Suc i) source d1 st1 = (r, d')"
              using unf fl Inr False by (simp add: st1_def)
            have h1: "holds (is_batch st1) ?puts1" using batch_put_law [OF F(4) [OF Inr]] by (simp add: st1_def import_put_def)
            have ab: "puts_above c k qs1" "puts_above c k ?puts1" using Cons.prems(3) F(2) ge b by (auto simp: import_put_def)
            have own: "check \<longrightarrow> own_numbers dec (abs d1) c k" using Cons.prems(4) ab(1) by (simp add: F(3) own_numbers_above)
            from Cons.IH [OF F(1) h1 ab(2) own run] obtain bs rest qs ps where
              IH: "?P source d1 st1 ?puts1 (Suc i) bs rest qs ps" by blast
            have abs: "abs d' = abs_put_all (qs1 @ qs) (abs d)" using IH F(3) by (simp add: abs_put_all_append)
            have same: "blocks (abs d1) c n = blocks (abs d) c n" if "n < k" for n
              using puts_above_blocks [OF ab(1) that] F(3) by simp
            have "?P (x # source) d st puts i (b0 # bs) rest (qs1 @ qs) ps"
              using IH abs F(2) ck b ge same x
              by (auto simp: st1_def import_put_def ended_def neq_Nil_conv)
            then show ?thesis by blast
          qed
        qed
      qed
    qed
  qed
qed

end

subsection \<open>What the command writes\<close>

lemma u64_successor:
  "b \<noteq> u64_max \<Longrightarrow> b < b + 1" "n < b + 1 \<Longrightarrow> n \<le> b" for b :: u64
proof -
  note * = unat_Suc_word [of b]
  show "b \<noteq> u64_max \<Longrightarrow> b < b + 1" using * by (simp add: word_less_nat_alt)
  show "n < b + 1 \<Longrightarrow> n \<le> b" using * by (cases "b = u64_max") (auto simp: word_less_nat_alt word_le_nat_alt)
qed

lemma smallest_stored:
  "n < smallest_import_block_number rs \<Longrightarrow> n \<in> ranges_set rs"
proof (cases rs)
  case (Cons r rs')
  assume "n < smallest_import_block_number rs"
  then have "range_start r = 0" "n < range_end r + 1" using Cons by (auto simp: smallest_import_block_number_def split: if_splits)
  then have "n \<in> range_set r" by (simp add: range_set_def u64_successor(2))
  then show ?thesis using Cons by simp
qed (simp add: smallest_import_block_number_def)

definition import_outcome ::
  "prost \<Rightarrow> eth \<Rightarrow> (bytes \<Rightarrow> error + block) \<Rightarrow> (nat \<Rightarrow> bool) \<Rightarrow> u64 \<Rightarrow> bool \<Rightarrow> (genesis_error + block) list \<Rightarrow> abs_db \<Rightarrow>
    import_error + unit \<Rightarrow> abs_db \<Rightarrow> bool" where
  "import_outcome pr E dec cancelled c check source s r s' \<longleftrightarrow>
     (\<exists>k bs rest m. source = map Inr bs @ rest \<and> {n. n < k} \<subseteq> stored s c \<and> (\<forall>b \<in> set bs. k \<le> b_number b) \<and>
        s' = abs_put_all (map (import_put pr c) (take m bs)) s \<and>
        (r = Inr () \<longrightarrow> length bs \<le> m \<and> ended cancelled k (length bs) rest \<and>
           (check \<longrightarrow> hash_linked E None bs \<and>
              (\<not> cancelled (length bs) \<and> bs \<noteq> [] \<and> rest \<noteq> [] \<longrightarrow>
                 (\<exists>b0 data b. hd rest = Inr b0 \<and> blocks s c (b_number b0) = Some data \<and> dec data = Inr b \<and>
                    hash_linked E None (bs @ [b]))))))"

lemma import_outcome_none:
  "r \<noteq> Inr () \<or> ended cancelled 0 0 source \<Longrightarrow> import_outcome pr E dec cancelled c check source s r s"
  unfolding import_outcome_def
  by (rule exI [where x = 0], rule exI [where x = "[]"], rule exI [where x = source]) auto

definition first_below_max :: "(genesis_error + block) list \<Rightarrow> bool" where
  "first_below_max source \<longleftrightarrow> (\<forall>b rest. source = Inr b # rest \<longrightarrow> b_number b \<noteq> u64_max)"

definition announced_total :: "(genesis_error + block) list \<Rightarrow> u64" where
  "announced_total source = (case source of Inr b # _ \<Rightarrow> b_number b + 1 | _ \<Rightarrow> 0)"

context block_store
begin

lemma import_blocks_effect:
  assumes "inv d" and "check \<longrightarrow> (\<forall>k. own_numbers dec (abs d) c k)" and "first_below_max source"
    and "\<forall>e rest. source \<noteq> Inl e # rest"
    and run: "import_blocks D E pr cancelled d c check (announced_total source) source = ((r, ls), d')"
  shows "inv d' \<and> import_outcome pr E dec cancelled c check source (abs d) r (abs d')"
proof (cases "db_get_ranges_of_chain_id D d c")
  case (Inl e)
  then have "r = Inl (ImportErr e)" "d' = d" using run by (simp_all add: import_blocks_def)
  then show ?thesis using assms(1) import_outcome_none by auto
next
  case (Inr rs)
  let ?k = "smallest_import_block_number rs" and ?t = "announced_total source"
  have k: "{n. n < ?k} \<subseteq> stored (abs d) c" using smallest_stored ranges_law [OF assms(1) Inr] by auto
  show ?thesis
  proof (cases "saturating_sub ?t ?k = 0")
    case True
    have "ended cancelled ?k 0 source"
    proof (cases source)
      case (Cons x rest)
      then obtain b where b: "x = Inr b" using assms(4) by (cases x) auto
      then have "b_number b \<noteq> u64_max" using assms(3) Cons by (simp add: first_below_max_def)
      then have "b_number b < b_number b + 1" by (rule u64_successor(1))
      moreover have "b_number b + 1 \<le> ?k" using True Cons b by (auto simp: saturating_sub_def announced_total_def split: if_splits)
      ultimately have "b_number b < ?k" by (rule less_le_trans)
      then show ?thesis using Cons b by (auto simp: ended_def)
    qed (simp add: ended_def)
    moreover have "r = Inr ()" "d' = d" using run Inr True by (simp_all add: import_blocks_def)
    ultimately show ?thesis
      unfolding import_outcome_def using assms(1) k
      by (auto intro!: exI [where x = ?k] exI [where x = "[]"] exI [where x = source])
  next
    case False
    let ?st0 = "\<lparr>is_batch = db_batch D d, is_prev_parent_hash = None, is_written = 0, is_count = 0\<rparr>"
    obtain r1 d1 where loop: "import_loop D E pr c check ?k cancelled 0 source d ?st0 = (r1, d1)" by fastforce
    have "check \<longrightarrow> own_numbers dec (abs d) c ?k" using assms(2) by blast
    from import_loop_effect [OF assms(1) _ _ this loop, of "[]"] batch_law
    obtain bs rest qs ps where L: "source = map Inr bs @ rest" "\<forall>b \<in> set bs. ?k \<le> b_number b" "inv d1"
      "map (import_put pr c) bs = qs @ ps" "abs d1 = abs_put_all qs (abs d)"
      "\<And>st' ls. r1 = Inr (st', ls) \<Longrightarrow> holds (is_batch st') ps \<and> ended cancelled ?k (length bs) rest \<and>
        (check \<longrightarrow> hash_linked E None bs \<and> (\<not> cancelled (length bs) \<and> rest \<noteq> [] \<longrightarrow>
          (\<exists>b0 data b. hd rest = Inr b0 \<and> blocks (abs d) c (b_number b0) = Some data \<and> dec data = Inr b \<and>
             hash_linked E None (bs @ [b]))))"
      by auto
    have q: "qs = map (import_put pr c) (take (length qs) bs)" using arg_cong [OF L(4), of "take (length qs)"] by (simp add: take_map)
    show ?thesis
    proof (cases r1)
      case (Inl e)
      then have "r = Inl e" "d' = d1" using run \<open>db_get_ranges_of_chain_id D d c = Inr rs\<close> False loop
        by (simp_all add: import_blocks_def Let_def)
      then show ?thesis using L(1-3,5) q k unfolding import_outcome_def by (metis Inl_Inr_False)
    next
      case (Inr p)
      obtain st' ls' where p: "p = (st', ls')" by fastforce
      obtain r2 d2 where w: "db_write_batch D d1 (is_batch st') = (r2, d2)" by fastforce
      note E = L(6) [OF Inr [unfolded p]]
      have W: "inv d2 \<and> abs d2 = effect (abs_put_all ps) r2 (abs d1)" using write_batch_law [OF L(3) _ w] E by blast
      have r: "r = map_err ImportErr r2" "d' = d2"
        using run \<open>db_get_ranges_of_chain_id D d c = Inr rs\<close> False loop Inr p w
        by (cases r2; simp add: import_blocks_def Let_def)+
      show ?thesis
      proof (cases r2)
        case (Inl e)
        then show ?thesis using W r L(1,2,5) q k unfolding import_outcome_def by (metis Inl_Inr_False effect_simps(1) map_err_simps(1))
      next
        case (Inr u)
        then have "abs d' = abs_put_all (map (import_put pr c) (take (length bs) bs)) (abs d)"
          using W r L(4,5) by (simp add: abs_put_all_append [symmetric])
        then show ?thesis using W r E L(1,2) k unfolding import_outcome_def by blast
      qed
    qed
  qed
qed

lemma import_effect:
  assumes "inv d" and "check \<longrightarrow> (\<forall>k. own_numbers dec (abs d) c k)" and "first_below_max source"
    and "import toml io D E pr cancelled fs cfg d c check source = ((r, ls), d', cfg', fs')"
  shows "inv d' \<and> import_outcome pr E dec cancelled c check source (abs d) r (abs d')"
proof (cases "\<exists>e rest. source = Inl e # rest")
  case True
  then have "r \<noteq> Inr ()" "d' = d" using assms(4) by (auto simp: import_def)
  then show ?thesis using assms(1) import_outcome_none by auto
next
  case False
  then have src: "\<forall>e rest. source \<noteq> Inl e # rest" by blast
  obtain r1 ls1 d1 where b: "import_blocks D E pr cancelled d c check (announced_total source) source = ((r1, ls1), d1)"
    by (metis prod.collapse)
  obtain r2 cfg2 fs2 where a: "add_chain toml io fs cfg (chain_config_new c) = (r2, cfg2, fs2)" by (metis prod_cases3)
  have "(r, d') = (r1, d1) \<or> r \<noteq> Inr () \<and> d' = d"
    using assms(4) src b a unfolding import_def announced_total_def
    by (cases source; cases "get_chain_config cfg c"; cases r2) (auto split: sum.splits simp: Let_def)
  then show ?thesis
    using import_blocks_effect [OF assms(1-3) src b] assms(1) import_outcome_none by auto
qed

end

context block_store_live
begin

lemma import_flush_live:
  assumes "live d" and "inv d" and "holds batch puts"
  shows "\<exists>batch' d'. import_flush D d batch = (Inr batch', d') \<and> live d'"
  using write_batch_live [OF assms] assms(1) by (auto simp: import_flush_def)

lemma import_check_linked:
  "hash_linked E prev (b # bs) \<Longrightarrow> k \<le> b_number b \<Longrightarrow> import_check D E d c k prev b = Inr (b, Some (b_parent_hash b))"
proof -
  assume l: "hash_linked E prev (b # bs)" and k: "k \<le> b_number b"
  have "\<not> b_number b < k" using k by simp
  moreover have "\<not> (b_number b = 0 \<and> b_parent_hash b \<noteq> zero_bytes 32)" using l by simp
  moreover have "(case prev of None \<Rightarrow> Inr () | Some h \<Rightarrow>
      if block_hash E b \<noteq> h then Inl (ParentHashMismatch (b_number b + 1) (block_hash E b) h) else Inr ()) = (Inr () :: import_error + unit)"
    using l by (cases "prev = None") simp_all
  ultimately show ?thesis by (simp only: import_check_def if_False res_bind_simps)
qed

lemma import_loop_live:
  assumes "live d" and "inv d" and "holds (is_batch st) puts"
    and "check \<longrightarrow> hash_linked E (is_prev_parent_hash st) bs \<and> (\<forall>b \<in> set bs. k \<le> b_number b)"
  shows "\<exists>st' ls d'. import_loop D E pr c check k cancelled i (map Inr bs) d st = (Inr (st', ls), d') \<and> live d'"
  using assms
proof (induction bs arbitrary: i d st puts)
  case (Cons b bs)
  obtain batch d1 where f: "import_flush D d (is_batch st) = (Inr batch, d1)" "live d1"
    using import_flush_live [OF Cons.prems(1-3)] by blast
  then obtain ps where h: "inv d1" "holds batch ps" using import_flush_effect [OF Cons.prems(2,3) f(1)] by blast
  let ?prev = "if check then Some (b_parent_hash b) else is_prev_parent_hash st"
  have chk: "(if check then import_check D E d c k (is_prev_parent_hash st) b else Inr (b, is_prev_parent_hash st)) = Inr (b, ?prev)"
    using Cons.prems(4) import_check_linked [of E "is_prev_parent_hash st" b bs k d c] by (cases check) simp_all
  show ?case
    using Cons.IH [OF f(2) h(1), of "\<lparr>is_batch = bb_put_bytes D batch c (b_number b) (encode_block pr b),
        is_prev_parent_hash = ?prev, is_written = is_written st + length (encode_block pr b), is_count = Suc (is_count st)\<rparr>"
        "ps @ [(c, b_number b, encode_block pr b)]" "Suc i"] batch_put_law [OF h(2)] f Cons.prems(1,4) chk
    by (auto simp: Let_def)
qed simp

lemma import_blocks_live:
  assumes "live d" and "inv d" and "check \<longrightarrow> hash_linked E None bs \<and> stored (abs d) c = {}"
  shows "\<exists>ls d'. import_blocks D E pr cancelled d c check t (map Inr bs) = ((Inr (), ls), d') \<and> live d'"
proof -
  obtain rs where rs: "db_get_ranges_of_chain_id D d c = Inr rs" using ranges_live [OF assms(1,2)] by blast
  let ?k = "smallest_import_block_number rs"
  let ?st0 = "\<lparr>is_batch = db_batch D d, is_prev_parent_hash = None, is_written = 0, is_count = 0\<rparr>"
  have h: "holds (is_batch ?st0) []" by (simp add: batch_law)
  have "?k = 0" if "stored (abs d) c = {}"
    using smallest_stored [of 0 rs] ranges_law [OF assms(2) rs] that by (auto simp: word_gt_0)
  then have chk: "check \<longrightarrow> hash_linked E (is_prev_parent_hash ?st0) bs \<and> (\<forall>b \<in> set bs. ?k \<le> b_number b)" using assms(3) by simp
  obtain st' ls d1 where l: "import_loop D E pr c check ?k cancelled 0 (map Inr bs) d ?st0 = (Inr (st', ls), d1)" "live d1"
    using import_loop_live [OF assms(1,2) h chk] by blast
  have "check \<longrightarrow> own_numbers dec (abs d) c ?k" using assms(3) by (auto simp: own_numbers_def stored_def)
  then obtain ps where "inv d1" "holds (is_batch st') ps"
    using import_loop_effect [OF assms(2) h _ _ l(1)] by auto
  then obtain d2 where "db_write_batch D d1 (is_batch st') = (Inr (), d2)" "live d2" using write_batch_live [OF l(2)] by blast
  then show ?thesis using rs l assms(1) by (auto simp: import_blocks_def Let_def)
qed

end

lemma put_imports_Cons:
  "abs_put_all (map (import_put pr c) (b # bs)) s = abs_put_all (map (import_put pr c) bs) (abs_put c (b_number b) (encode_block pr b) s)"
  by (simp add: abs_put_all_Cons import_put_def [of pr c b])

lemma put_imports:
  "stored (abs_put_all (map (import_put pr c) bs) s) c = stored s c \<union> b_number ` set bs"
  "n \<notin> b_number ` set bs \<Longrightarrow> blocks (abs_put_all (map (import_put pr c) bs) s) c n = blocks s c n"
  "only_blocks_of c s (abs_put_all (map (import_put pr c) bs) s)"
proof -
  show "stored (abs_put_all (map (import_put pr c) bs) s) c = stored s c \<union> b_number ` set bs"
    by (induction bs arbitrary: s) (auto simp: put_imports_Cons abs_put_def stored_def simp del: list.map(2))
  show "n \<notin> b_number ` set bs \<Longrightarrow> blocks (abs_put_all (map (import_put pr c) bs) s) c n = blocks s c n"
    by (induction bs arbitrary: s) (auto simp: put_imports_Cons abs_put_def simp del: list.map(2))
  show "only_blocks_of c s (abs_put_all (map (import_put pr c) bs) s)"
  proof (induction bs arbitrary: s)
    case (Cons b bs)
    show ?case using Cons [of "abs_put c (b_number b) (encode_block pr b) s"]
      unfolding put_imports_Cons by (auto simp: only_blocks_of_def abs_put_def)
  qed (auto simp: only_blocks_of_def)
qed

lemma blocks_put_imports:
  assumes "distinct (map b_number bs)" and "b \<in> set bs"
  shows "blocks (abs_put_all (map (import_put pr c) bs) s) c (b_number b) = Some (encode_block pr b)"
  using assms
proof (induction bs arbitrary: s)
  case (Cons x bs)
  show ?case
  proof (cases "b = x")
    case True
    then show ?thesis using Cons.prems(1) unfolding put_imports_Cons by (simp add: put_imports(2) abs_put_def)
  next
    case False
    then show ?thesis using Cons unfolding put_imports_Cons by simp
  qed
qed simp

lemma descending_split:
  fixes k :: "'a::linorder"
  assumes "sorted_wrt (>) (xs @ ys)" and "\<forall>x \<in> set xs. k \<le> x" and "ys = [] \<or> hd ys < k"
  shows "\<forall>y \<in> set ys. y < k"
  using assms by (cases ys) (auto simp: sorted_wrt_append)

lemma hash_linkedI:
  assumes "successively (\<lambda>b a. b_parent_hash b = block_hash E a) bs"
    and "\<forall>b \<in> set bs. b_number b = 0 \<longrightarrow> b_parent_hash b = zero_bytes 32"
    and "bs \<noteq> [] \<longrightarrow> prev = None \<or> prev = Some (block_hash E (hd bs))"
  shows "hash_linked E prev bs"
  using assms
proof (induction bs arbitrary: prev)
  case (Cons b bs)
  have "successively (\<lambda>b a. b_parent_hash b = block_hash E a) bs" "bs \<noteq> [] \<longrightarrow> b_parent_hash b = block_hash E (hd bs)"
    using Cons.prems(1) by (cases bs; simp)+
  then have "hash_linked E (Some (b_parent_hash b)) bs"
    using Cons.IH [of "Some (b_parent_hash b)"] Cons.prems(2) by simp
  then show ?case using Cons.prems(2,3) by simp
qed simp

lemma descending_zero_last:
  assumes "map b_number bs = rev (sorted_list_of_set {0 .. n})" and "b \<in> set bs" and "b_number b = 0"
  shows "b = last bs"
proof -
  have d: "distinct (map b_number bs)" "sorted_wrt (>) (map b_number bs)"
    unfolding assms(1) sorted_wrt_rev by simp_all
  obtain i where i: "i < length bs" "bs ! i = b" using assms(2) by (auto simp: in_set_conv_nth)
  have "\<not> i < length bs - 1"
  proof
    assume "i < length bs - 1"
    then have "map b_number bs ! i > map b_number bs ! (length bs - 1)" 
      using sorted_wrt_nth_less [OF d(2), of i "length bs - 1"] i(1) by simp
    then show False using i assms(3) by simp
  qed
  then have "i = length bs - 1" using i(1) by linarith
  moreover have "bs \<noteq> []" using i(1) by auto
  ultimately show ?thesis using i(2) by (simp add: last_conv_nth)
qed

lemma written_prefix:
  assumes "map b_number bs = rev (sorted_list_of_set {0 .. n})" and "bs = bs1 @ bs2" and "\<forall>b \<in> set bs1. k \<le> b_number b"
    and "bs2 = [] \<or> b_number (hd bs2) < k" and "{m. m < k} \<subseteq> stored s c" and "s' = abs_put_all (map (import_put pr c) bs1) s"
  shows "stored s' c = stored s c \<union> {0 .. n}"
    and "b \<in> set bs \<Longrightarrow> k \<le> b_number b \<Longrightarrow> blocks s' c (b_number b) = Some (encode_block pr b)"
    and "m < k \<or> n < m \<Longrightarrow> blocks s' c m = blocks s c m"
proof -
  have set: "b_number ` set bs = {0 .. n}" using arg_cong [OF assms(1), of set] by simp
  have "sorted_wrt (>) (map b_number bs1 @ map b_number bs2)"
    unfolding map_append [symmetric] assms(2) [symmetric] assms(1) sorted_wrt_rev by simp
  moreover have "map b_number bs2 = [] \<or> hd (map b_number bs2) < k" using assms(4) by (cases bs2) simp_all
  ultimately have low: "\<forall>y \<in> set (map b_number bs2). y < k"
    using assms(3) by (intro descending_split [of "map b_number bs1"]) simp_all
  have "distinct (map b_number bs)" unfolding assms(1) by simp
  then have dist: "distinct (map b_number bs1)" by (simp add: assms(2))
  have "b_number ` set bs2 \<subseteq> stored s c" using low assms(5) by auto
  then show "stored s' c = stored s c \<union> {0 .. n}"
    using set unfolding assms(2,6) put_imports(1) set_append image_Un by blast
  show "blocks s' c (b_number b) = Some (encode_block pr b)" if "b \<in> set bs" "k \<le> b_number b"
    using that low assms(2) blocks_put_imports [OF dist] unfolding assms(6) by force
  show "blocks s' c m = blocks s c m" if "m < k \<or> n < m"
  proof -
    have "b_number ` set bs1 \<subseteq> {0 .. n}" unfolding set [symmetric] assms(2) by auto
    with that assms(3) have "m \<notin> b_number ` set bs1" by fastforce
    then show ?thesis unfolding assms(6) by (rule put_imports(2))
  qed
qed

context block_store_live
begin

lemma import_whole_source:
  assumes "live d" and "inv d" and "get_chain_config cfg c \<noteq> None"
    and "map b_number bs = rev (sorted_list_of_set {0 .. n})" and "n \<noteq> u64_max" and "\<forall>i. \<not> cancelled i"
    and "check \<longrightarrow> stored (abs d) c = {} \<and> successively (\<lambda>b a. b_parent_hash b = block_hash E a) bs \<and> b_parent_hash (last bs) = zero_bytes 32"
  shows "\<exists>ls d' k. import toml io D E pr cancelled fs cfg d c check (map Inr bs) = ((Inr (), ls), d', cfg, fs) \<and>
    live d' \<and> inv d' \<and> {m. m < k} \<subseteq> stored (abs d) c \<and> only_blocks_of c (abs d) (abs d') \<and>
    stored (abs d') c = stored (abs d) c \<union> {0 .. n} \<and>
    (\<forall>b \<in> set bs. k \<le> b_number b \<longrightarrow> blocks (abs d') c (b_number b) = Some (encode_block pr b)) \<and>
    (\<forall>m. m < k \<or> n < m \<longrightarrow> blocks (abs d') c m = blocks (abs d) c m)"
proof -
  let ?src = "map Inr bs :: (genesis_error + block) list"
  have "hash_linked E None bs"
    if "successively (\<lambda>b a. b_parent_hash b = block_hash E a) bs" "b_parent_hash (last bs) = zero_bytes 32"
    using that descending_zero_last [OF assms(4)] by (intro hash_linkedI) auto
  then have chk: "check \<longrightarrow> hash_linked E None bs \<and> stored (abs d) c = {}" using assms(7) by blast
  obtain ls d' where run: "import_blocks D E pr cancelled d c check (announced_total ?src) ?src = ((Inr (), ls), d')" "live d'"
    using import_blocks_live [OF assms(1,2) chk] by blast
  have set: "b_number ` set bs = {0 .. n}"
    using arg_cong [OF assms(4), of set] by simp
  then obtain b bs' where b: "bs = b # bs'" by (cases bs) auto
  have imp: "import toml io D E pr cancelled fs cfg d c check ?src = ((Inr (), ContainsBlocks (announced_total ?src) c # ls), d', cfg, fs)"
    using assms(3) run by (auto simp: import_def b announced_total_def Let_def)
  have "u64_max \<notin> b_number ` set bs" using assms(5) unfolding set by simp
  then have fm: "first_below_max ?src" by (auto simp: first_below_max_def b)
  have "check \<longrightarrow> (\<forall>k. own_numbers dec (abs d) c k)" using assms(7) by (auto simp: own_numbers_def stored_def)
  note eff = import_effect [OF assms(2) this fm imp]
  from eff obtain k bs1 rest m where k: "?src = map Inr bs1 @ rest" "{m. m < k} \<subseteq> stored (abs d) c" "\<forall>b \<in> set bs1. k \<le> b_number b"
    "abs d' = abs_put_all (map (import_put pr c) (take m bs1)) (abs d)" "length bs1 \<le> m" "ended cancelled k (length bs1) rest"
    unfolding import_outcome_def by blast
  from k(1) obtain bs2 where bs2: "bs = bs1 @ bs2" "rest = map Inr bs2"
    by (auto simp: map_eq_append_conv inj_map_eq_map)
  have s': "abs d' = abs_put_all (map (import_put pr c) bs1) (abs d)" using k(4,5) by simp
  have "bs2 = [] \<or> b_number (hd bs2) < k" using k(6) assms(6) by (cases bs2) (auto simp: ended_def bs2(2))
  note W = written_prefix [OF assms(4) bs2(1) k(3) this k(2) s']
  have "inv d'" "only_blocks_of c (abs d) (abs d')" using eff put_imports(3) unfolding s' by blast+
  then show ?thesis using W run(2) k(2) imp by blast
qed

end

subsection \<open>Properties\<close>


text \<open>C14: after a verified import that succeeds without being cancelled, the imported blocks are a
  chain: each has the hash that the block before it in the source (its successor) names as parent,
  block zero has the zero hash as parent, and if the source goes on into the blocks that were
  already stored, the last imported block names the hash of the stored block as parent.\<close>

theorem verified_import_linked:
  assumes "rocks_block_db R rview wview healthy ho" and "db_inv (rview (rocks_inner d))"
    and "import toml io (rocks_blockdb R ho pr) E pr cancelled fs cfg d c True source = ((Inr (), ls), d', cfg', fs')"
    and "s = abs_of (rview (rocks_inner d))" and "s' = abs_of (rview (rocks_inner d'))"
    and "\<forall>n data b. blocks s c n = Some data \<longrightarrow> decode_block pr data = Inr b \<longrightarrow> b_number b = n"
    and "first_below_max source" and "\<forall>i. \<not> cancelled i"
  shows "\<exists>bs rest. source = map Inr bs @ rest \<and> s' = abs_put_all (map (\<lambda>b. (c, b_number b, encode_block pr b)) bs) s \<and>
    successively (\<lambda>b a. b_parent_hash b = block_hash E a) bs \<and>
    (\<forall>b \<in> set bs. b_number b = 0 \<longrightarrow> b_parent_hash b = zero_bytes 32) \<and>
    (bs \<noteq> [] \<and> rest \<noteq> [] \<longrightarrow> (\<exists>b0 data a. hd rest = Inr b0 \<and> blocks s c (b_number b0) = Some data \<and>
       decode_block pr data = Inr a \<and> b_parent_hash (last bs) = block_hash E a))"
proof -
  have own: "True \<longrightarrow> (\<forall>k. own_numbers (decode_block pr) (abs_of (rview (rocks_inner d))) c k)"
    using assms(6) by (auto simp: own_numbers_def assms(4))
  have link: "successively (\<lambda>b a. b_parent_hash b = block_hash E a) bs \<and> (\<forall>b \<in> set bs. b_number b = 0 \<longrightarrow> b_parent_hash b = zero_bytes 32)"
    if "hash_linked E prev bs" for prev bs
    using that
  proof (induction bs arbitrary: prev)
    case (Cons b bs)
    then have "hash_linked E (Some (b_parent_hash b)) bs" "b_number b = 0 \<longrightarrow> b_parent_hash b = zero_bytes 32" by simp_all
    with Cons.IH [OF this(1)] show ?case by (cases bs) simp_all
  qed simp
  from block_store.import_effect [OF rocks_block_db.rocks_block_store [OF assms(1)] assms(2) own assms(7,3)]
  have out: "import_outcome pr E (decode_block pr) cancelled c True source s (Inr ()) s'" by (simp only: assms(4,5))
  then obtain k bs rest m where "source = map Inr bs @ rest" "s' = abs_put_all (map (import_put pr c) (take m bs)) s"
    and ok: "length bs \<le> m \<and> ended cancelled k (length bs) rest \<and> hash_linked E None bs \<and>
      (\<not> cancelled (length bs) \<and> bs \<noteq> [] \<and> rest \<noteq> [] \<longrightarrow>
         (\<exists>b0 data b. hd rest = Inr b0 \<and> blocks s c (b_number b0) = Some data \<and> decode_block pr data = Inr b \<and>
            hash_linked E None (bs @ [b])))"
    unfolding import_outcome_def by blast
  moreover have "b_parent_hash (last bs) = block_hash E a" if "hash_linked E None (bs @ [a])" "bs \<noteq> []" for a
    using link [OF that(1)] that(2) by (auto simp: successively_append_iff)
  ultimately show ?thesis
    using link [of None bs] assms(8) unfolding import_put_def [abs_def]
    by (intro exI [where x = bs] exI [where x = rest]) (simp, blast)
qed

definition ex_source :: "block list" where
  "ex_source = [default_block\<lparr>b_number := 1\<rparr>, default_block]"

definition ex_import :: "bool \<Rightarrow> (genesis_error + block) list \<Rightarrow>
    ((import_error + unit) \<times> import_line list) \<times> mem_db rocks_db \<times> config \<times> mem_db rocks_db fs" where
  "ex_import check source =
     import plain_toml plain_io mem_blockdb ex_eth wire_prost (\<lambda>_. False) ex_fs ex_config ex_db2 146 check source"

lemma ex_import_hyps:
  "map b_number ex_source = rev (sorted_list_of_set {0 .. (1 :: u64)})" "first_below_max (map Inr ex_source)"
  "stored (abs_of (mem_view (rocks_inner ex_db2))) 146 = {}"
  "successively (\<lambda>b a. b_parent_hash b = block_hash ex_eth a) ex_source \<and> b_parent_hash (last ex_source) = zero_bytes 32"
  "blocks (abs_of (mem_view (rocks_inner ex_db2))) 146 n = None"
proof -
  have "sorted_list_of_set {0 .. (1 :: u64)} = word_seq 0 (Suc (unat (1 - 0 :: u64)))"
    by (rule word_seq_interval [symmetric]) simp
  also have "\<dots> = [0, 1]" by simp
  finally show "map b_number ex_source = rev (sorted_list_of_set {0 .. (1 :: u64)})"
    by (simp only: ex_source_def default_block_def) simp
  show "first_below_max (map Inr ex_source)" by (simp add: first_below_max_def ex_source_def)
  have "db_get_ranges_of_chain_id mem_blockdb ex_db2 146 = Inr []" by code_simp
  from block_store.ranges_law [OF memdb.rocks_block_store ex_inv this]
  show st: "stored (abs_of (mem_view (rocks_inner ex_db2))) 146 = {}" by simp
  show "blocks (abs_of (mem_view (rocks_inner ex_db2))) 146 n = None"
    using st unfolding stored_def dom_eq_empty_conv by (rule fun_cong)
  show "successively (\<lambda>b a. b_parent_hash b = block_hash ex_eth a) ex_source \<and> b_parent_hash (last ex_source) = zero_bytes 32"
    by (simp add: ex_source_def default_block_def block_hash_def compute_hash_def ex_eth_def)
qed

lemma ex_import_succeeds: "\<exists>ls d'. ex_import True (map Inr ex_source) = ((Inr (), ls), d', ex_config, ex_fs)"
proof -
  obtain ls d' where "import_blocks mem_blockdb ex_eth wire_prost (\<lambda>_. False) ex_db2 146 True 2 (map Inr ex_source) = ((Inr (), ls), d')"
    using block_store_live.import_blocks_live [OF memdb.rocks_block_store_live conjunct2 [OF conjunct2 [OF ex_healthy]] ex_inv]
      ex_import_hyps(3,4) hash_linkedI [of ex_eth ex_source None]
    by (metis (no_types, lifting) descending_zero_last ex_import_hyps(1))
  moreover have "get_chain_config ex_config 146 \<noteq> None" by code_simp
  ultimately show ?thesis by (auto simp: ex_import_def import_def Let_def ex_source_def default_block_def)
qed

theorem verified_import_linked_witness:
  "\<exists>bs (rest :: (genesis_error + block) list) ls d' cfg' fs'. ex_import True (map Inr ex_source) = ((Inr (), ls), d', cfg', fs') \<and> map Inr ex_source = map Inr bs @ rest \<and>
     abs_of (mem_view (rocks_inner d')) = abs_put_all (map (\<lambda>b. (146, b_number b, encode_block wire_prost b)) bs) (abs_of (mem_view (rocks_inner ex_db2))) \<and>
     successively (\<lambda>b a. b_parent_hash b = block_hash ex_eth a) bs"
proof -
  obtain ls d' where run: "ex_import True (map Inr ex_source) = ((Inr (), ls), d', ex_config, ex_fs)" using ex_import_succeeds by blast
  have own: "\<forall>n data b. blocks (abs_of (mem_view (rocks_inner ex_db2))) 146 n = Some data \<longrightarrow> decode_block wire_prost data = Inr b \<longrightarrow> b_number b = n"
    using ex_import_hyps(5) by (simp only: option.distinct simp_thms)
  have "\<forall>i :: nat. \<not> False" by simp
  from verified_import_linked [OF memdb.rocks_block_db_axioms ex_inv run [unfolded ex_import_def] refl refl own ex_import_hyps(2) this]
  obtain bs and rest :: "(genesis_error + block) list" where "map Inr ex_source = map Inr bs @ rest"
    "abs_of (mem_view (rocks_inner d')) = abs_put_all (map (\<lambda>b. (146, b_number b, encode_block wire_prost b)) bs) (abs_of (mem_view (rocks_inner ex_db2)))"
    "successively (\<lambda>b a. b_parent_hash b = block_hash ex_eth a) bs" by (elim exE conjE) rule
  with run show ?thesis by (intro exI conjI)
qed


text \<open>C12: on a store that does not fail, an import of a source that yields the blocks \<open>n\<close>
  down to \<open>0\<close> without errors succeeds, with verification too if the chain is empty and the
  blocks are linked by their hashes. Then every block from \<open>0\<close> to \<open>n\<close> is stored; those
  past the previously stored first range hold the data of the source, and no other block, chain
  or metadata changes.\<close>

theorem import_completes:
  assumes "rocks_block_db R rview wview healthy ho" and "healthy (rocks_inner d)" and "db_inv (rview (rocks_inner d))"
    and "get_chain_config cfg c \<noteq> None" and "map b_number bs = rev (sorted_list_of_set {0 .. n})" and "n \<noteq> u64_max"
    and "\<forall>i. \<not> cancelled i" and "s = abs_of (rview (rocks_inner d))"
    and "check \<longrightarrow> stored s c = {} \<and> successively (\<lambda>b a. b_parent_hash b = block_hash E a) bs \<and> b_parent_hash (last bs) = zero_bytes 32"
  shows "\<exists>ls d' k. import toml io (rocks_blockdb R ho pr) E pr cancelled fs cfg d c check (map Inr bs) = ((Inr (), ls), d', cfg, fs) \<and>
    db_inv (rview (rocks_inner d')) \<and> {m. m < k} \<subseteq> stored s c \<and>
    only_blocks_of c s (abs_of (rview (rocks_inner d'))) \<and>
    stored (abs_of (rview (rocks_inner d'))) c = stored s c \<union> {0 .. n} \<and>
    (\<forall>b \<in> set bs. k \<le> b_number b \<longrightarrow> blocks (abs_of (rview (rocks_inner d'))) c (b_number b) = Some (encode_block pr b)) \<and>
    (\<forall>m. m < k \<or> n < m \<longrightarrow> blocks (abs_of (rview (rocks_inner d'))) c m = blocks s c m)"
proof -
  note L = rocks_block_db.rocks_block_store_live [OF assms(1), of pr]
  from block_store_live.import_whole_source [OF L assms(2-7) assms(9) [unfolded assms(8)]]
  show ?thesis unfolding assms(8) by blast
qed

theorem import_completes_witness:
  "\<exists>ls d'. ex_import True (map Inr ex_source) = ((Inr (), ls), d', ex_config, ex_fs) \<and>
     stored (abs_of (mem_view (rocks_inner d'))) 146 = {0 .. 1}"
proof -
  have cfg: "get_chain_config ex_config 146 \<noteq> None" by code_simp
  have nc: "\<forall>i :: nat. \<not> False" and n: "(1 :: u64) \<noteq> u64_max" by simp_all
  have hyps: "True \<longrightarrow> stored (abs_of (mem_view (rocks_inner ex_db2))) 146 = {} \<and>
      successively (\<lambda>b a. b_parent_hash b = block_hash ex_eth a) ex_source \<and> b_parent_hash (last ex_source) = zero_bytes 32"
    using ex_import_hyps(3,4) by blast
  from import_completes [OF memdb.rocks_block_db_axioms conjunct2 [OF conjunct2 [OF ex_healthy]] ex_inv cfg ex_import_hyps(1) n nc refl hyps,
      of plain_toml plain_io wire_prost ex_fs]
  show ?thesis unfolding ex_import_def ex_import_hyps(3) by auto
qed

end
