(* ===== verification/Era_Dir.thy ===== *)
theory Era_Dir
  imports GFile_Block "HOL-Library.Char_ord"
begin

section \<open>Directories of era files\<close>

text \<open>
  genesis-parser/src/era_dir: opening a directory of .era1, .era or .erae files, the order in
  which their blocks are yielded, and the conversion of the blocks. Reading and decompressing the
  files and decoding RLP, SSZ and receipts belong to the crates reth_era, alloy and lighthouse:
  what they return for a file is a parameter. The records of this theory hold the fields of
  their types that the code reads. \<open>U256::from_le_bytes(x.to_le_bytes())\<close> is the same
  256-bit number. Shown: the blocks of a directory come in descending order if each file is in
  ascending order and the file names are ordered as the eras are; the transactions that the
  conversion returns are valid and carry only the fields of their kind.
\<close>

type_synonym u128 = "128 word"

subsection \<open>Transactions (common.rs)\<close>

record alloy_signature =
  sig_v :: bool
  sig_r :: u256
  sig_s :: u256

record alloy_access_item =
  aai_address :: address
  aai_storage_keys :: "hash list"

record alloy_authorization =
  aa_chain_id :: u256
  aa_address :: address
  aa_nonce :: u64
  aa_y_parity :: u8
  aa_r :: u256
  aa_s :: u256

record tx_legacy =
  lt_chain_id :: "u64 option"
  lt_nonce :: u64
  lt_gas_price :: u128
  lt_gas_limit :: u64
  lt_to :: "address option"
  lt_value :: u256
  lt_input :: bytes

record tx_eip2930 =
  at_chain_id :: u64
  at_nonce :: u64
  at_gas_price :: u128
  at_gas_limit :: u64
  at_to :: "address option"
  at_value :: u256
  at_input :: bytes
  at_access_list :: "alloy_access_item list"

record tx_eip1559 =
  dt_chain_id :: u64
  dt_nonce :: u64
  dt_gas_limit :: u64
  dt_to :: "address option"
  dt_value :: u256
  dt_input :: bytes
  dt_access_list :: "alloy_access_item list"
  dt_max_fee_per_gas :: u128
  dt_max_priority_fee_per_gas :: u128

record tx_eip4844 =
  bt_chain_id :: u64
  bt_nonce :: u64
  bt_gas_limit :: u64
  bt_to :: address
  bt_value :: u256
  bt_input :: bytes
  bt_access_list :: "alloy_access_item list"
  bt_max_fee_per_gas :: u128
  bt_max_priority_fee_per_gas :: u128
  bt_blob_versioned_hashes :: "hash list"
  bt_max_fee_per_blob_gas :: u128

record tx_eip7702 =
  st_chain_id :: u64
  st_nonce :: u64
  st_gas_limit :: u64
  st_to :: address
  st_value :: u256
  st_input :: bytes
  st_access_list :: "alloy_access_item list"
  st_max_fee_per_gas :: u128
  st_max_priority_fee_per_gas :: u128
  st_authorization_list :: "alloy_authorization list"

definition u256_of_u128 :: "u128 \<Rightarrow> u256" where
  "u256_of_u128 n = of_nat (unat n)"

definition u256_of_bool :: "bool \<Rightarrow> u256" where
  "u256_of_bool b = (if b then 1 else 0)"

definition convert_access_list :: "alloy_access_item list \<Rightarrow> access_list_entry list" where
  "convert_access_list l = map (\<lambda>i. \<lparr>ale_address = aai_address i, ale_storage_keys = aai_storage_keys i\<rparr>) l"

definition convert_authorization_list :: "alloy_authorization list \<Rightarrow> set_code_authorization list" where
  "convert_authorization_list l =
     map (\<lambda>a. \<lparr>sca_chain_id = aa_chain_id a, sca_address = aa_address a, sca_nonce = aa_nonce a, sca_y_parity = aa_y_parity a,
                sca_r = aa_r a, sca_s = aa_s a\<rparr>) l"

definition legacy_y_parity :: "bool \<Rightarrow> u64 option \<Rightarrow> u64" where
  "legacy_y_parity v chain_id =
     (case chain_id of
        Some n \<Rightarrow> (if v then 1 else 0) + n * 2 + 35
      | None \<Rightarrow> (if v then 1 else 0) + 27)"

definition convert_tx_legacy :: "alloy_signature \<Rightarrow> tx_legacy \<Rightarrow> transaction" where
  "convert_tx_legacy sig tx =
     \<lparr>tx_transaction_type = Legacy,
      tx_chain_id = u256_of_u64 (case lt_chain_id tx of None \<Rightarrow> 0 | Some n \<Rightarrow> n),
      tx_nonce = lt_nonce tx, tx_gas_price = u256_of_u128 (lt_gas_price tx),
      tx_gas_limit = lt_gas_limit tx, tx_to = lt_to tx, tx_value = lt_value tx, tx_data = lt_input tx,
      tx_access_list = [], tx_max_fee_per_gas = 0, tx_max_priority_fee_per_gas = 0,
      tx_blob_versioned_hashes = [], tx_max_fee_per_blob_gas = 0, tx_authorization_list = [],
      tx_y_parity = u256_of_u64 (legacy_y_parity (sig_v sig) (lt_chain_id tx)), tx_r = sig_r sig,
      tx_s = sig_s sig\<rparr>"

definition convert_tx_eip2930 :: "alloy_signature \<Rightarrow> tx_eip2930 \<Rightarrow> transaction" where
  "convert_tx_eip2930 sig tx =
     \<lparr>tx_transaction_type = AccessList, tx_chain_id = u256_of_u64 (at_chain_id tx),
      tx_nonce = at_nonce tx, tx_gas_price = u256_of_u128 (at_gas_price tx),
      tx_gas_limit = at_gas_limit tx, tx_to = at_to tx, tx_value = at_value tx, tx_data = at_input tx,
      tx_access_list = convert_access_list (at_access_list tx), tx_max_fee_per_gas = 0,
      tx_max_priority_fee_per_gas = 0, tx_blob_versioned_hashes = [], tx_max_fee_per_blob_gas = 0,
      tx_authorization_list = [], tx_y_parity = u256_of_bool (sig_v sig), tx_r = sig_r sig,
      tx_s = sig_s sig\<rparr>"

definition convert_tx_eip1559 :: "alloy_signature \<Rightarrow> tx_eip1559 \<Rightarrow> transaction" where
  "convert_tx_eip1559 sig tx =
     \<lparr>tx_transaction_type = DynamicFee, tx_chain_id = u256_of_u64 (dt_chain_id tx),
      tx_nonce = dt_nonce tx, tx_gas_price = 0, tx_gas_limit = dt_gas_limit tx, tx_to = dt_to tx,
      tx_value = dt_value tx, tx_data = dt_input tx,
      tx_access_list = convert_access_list (dt_access_list tx),
      tx_max_fee_per_gas = u256_of_u128 (dt_max_fee_per_gas tx),
      tx_max_priority_fee_per_gas = u256_of_u128 (dt_max_priority_fee_per_gas tx),
      tx_blob_versioned_hashes = [], tx_max_fee_per_blob_gas = 0, tx_authorization_list = [],
      tx_y_parity = u256_of_bool (sig_v sig), tx_r = sig_r sig, tx_s = sig_s sig\<rparr>"

definition convert_tx_eip4844 :: "alloy_signature \<Rightarrow> tx_eip4844 \<Rightarrow> transaction" where
  "convert_tx_eip4844 sig tx =
     \<lparr>tx_transaction_type = Blob, tx_chain_id = u256_of_u64 (bt_chain_id tx),
      tx_nonce = bt_nonce tx, tx_gas_price = 0, tx_gas_limit = bt_gas_limit tx, tx_to = Some (bt_to tx),
      tx_value = bt_value tx, tx_data = bt_input tx,
      tx_access_list = convert_access_list (bt_access_list tx),
      tx_max_fee_per_gas = u256_of_u128 (bt_max_fee_per_gas tx),
      tx_max_priority_fee_per_gas = u256_of_u128 (bt_max_priority_fee_per_gas tx),
      tx_blob_versioned_hashes = bt_blob_versioned_hashes tx,
      tx_max_fee_per_blob_gas = u256_of_u128 (bt_max_fee_per_blob_gas tx), tx_authorization_list = [],
      tx_y_parity = u256_of_bool (sig_v sig), tx_r = sig_r sig, tx_s = sig_s sig\<rparr>"

definition convert_tx_eip7702 :: "alloy_signature \<Rightarrow> tx_eip7702 \<Rightarrow> transaction" where
  "convert_tx_eip7702 sig tx =
     \<lparr>tx_transaction_type = SetCode, tx_chain_id = u256_of_u64 (st_chain_id tx),
      tx_nonce = st_nonce tx, tx_gas_price = 0, tx_gas_limit = st_gas_limit tx, tx_to = Some (st_to tx),
      tx_value = st_value tx, tx_data = st_input tx,
      tx_access_list = convert_access_list (st_access_list tx),
      tx_max_fee_per_gas = u256_of_u128 (st_max_fee_per_gas tx),
      tx_max_priority_fee_per_gas = u256_of_u128 (st_max_priority_fee_per_gas tx),
      tx_blob_versioned_hashes = [], tx_max_fee_per_blob_gas = 0,
      tx_authorization_list = convert_authorization_list (st_authorization_list tx),
      tx_y_parity = u256_of_bool (sig_v sig), tx_r = sig_r sig, tx_s = sig_s sig\<rparr>"

datatype tx_type = TxTypeLegacy | TxTypeEip2930 | TxTypeEip1559 | TxTypeEip4844 | TxTypeEip7702

fun convert_tx_type :: "tx_type \<Rightarrow> transaction_type" where
  "convert_tx_type TxTypeLegacy = Legacy"
| "convert_tx_type TxTypeEip2930 = AccessList"
| "convert_tx_type TxTypeEip1559 = DynamicFee"
| "convert_tx_type TxTypeEip4844 = Blob"
| "convert_tx_type TxTypeEip7702 = SetCode"

datatype eip4844_variant = TxEip4844 tx_eip4844 | TxEip4844WithSidecar tx_eip4844

datatype tx_envelope =
    EnvLegacy alloy_signature tx_legacy
  | EnvEip2930 alloy_signature tx_eip2930
  | EnvEip1559 alloy_signature tx_eip1559
  | EnvEip4844 alloy_signature eip4844_variant
  | EnvEip7702 alloy_signature tx_eip7702

fun convert_transaction :: "tx_envelope \<Rightarrow> transaction" where
  "convert_transaction (EnvLegacy sig tx) = convert_tx_legacy sig tx"
| "convert_transaction (EnvEip2930 sig tx) = convert_tx_eip2930 sig tx"
| "convert_transaction (EnvEip1559 sig tx) = convert_tx_eip1559 sig tx"
| "convert_transaction (EnvEip4844 sig tx) =
     convert_tx_eip4844 sig (case tx of TxEip4844 t \<Rightarrow> t | TxEip4844WithSidecar t \<Rightarrow> t)"
| "convert_transaction (EnvEip7702 sig tx) = convert_tx_eip7702 sig tx"

subsection \<open>Blocks of .era1 and .erae files (era1.rs, erae.rs)\<close>

datatype eip658 = Eip658 bool | Eip658PostState hash

record alloy_log =
  al_address :: address
  al_topics :: "hash list"
  al_data :: bytes

record alloy_receipt =
  ar_tx_type :: tx_type
  ar_status :: eip658
  ar_cumulative_gas_used :: u64
  ar_logs :: "alloy_log list"

definition convert_receipts :: "alloy_receipt \<Rightarrow> transaction_receipt" where
  "convert_receipts r =
     \<lparr>tr_transaction_type = convert_tx_type (ar_tx_type r),
      tr_post_state_or_status =
        (case ar_status r of Eip658 s \<Rightarrow> Status (if s then 1 else 0) | Eip658PostState state \<Rightarrow> PostState state),
      tr_cumulative_gas_used = ar_cumulative_gas_used r,
      tr_logs = map (\<lambda>l. \<lparr>log_address = al_address l, log_topics = al_topics l, log_data = al_data l\<rparr>) (ar_logs r)\<rparr>"

text \<open>A \<open>SlimReceipt\<close> of an .erae file has the same fields as a decoded receipt envelope.\<close>

definition convert_slim_receipt :: "alloy_receipt \<Rightarrow> transaction_receipt" where
  "convert_slim_receipt r =
     \<lparr>tr_transaction_type = convert_tx_type (ar_tx_type r),
      tr_post_state_or_status =
        (case ar_status r of Eip658 s \<Rightarrow> Status (if s then 1 else 0) | Eip658PostState state \<Rightarrow> PostState state),
      tr_cumulative_gas_used = ar_cumulative_gas_used r,
      tr_logs = map (\<lambda>l. \<lparr>log_address = al_address l, log_topics = al_topics l, log_data = al_data l\<rparr>) (ar_logs r)\<rparr>"

record alloy_header =
  ah_parent_hash :: hash
  ah_ommers_hash :: hash
  ah_beneficiary :: address
  ah_state_root :: hash
  ah_difficulty :: u256
  ah_number :: u64
  ah_gas_limit :: u64
  ah_timestamp :: u64
  ah_extra_data :: bytes
  ah_mix_hash :: hash
  ah_nonce :: bytes
  ah_base_fee_per_gas :: "u64 option"
  ah_withdrawals_root :: "hash option"
  ah_blob_gas_used :: "u64 option"
  ah_excess_blob_gas :: "u64 option"
  ah_parent_beacon_block_root :: "hash option"
  ah_requests_hash :: "hash option"

record alloy_withdrawal =
  aw_index :: u64
  aw_validator_index :: u64
  aw_address :: address
  aw_amount :: u64

record alloy_body =
  ab_transactions :: "tx_envelope list"
  ab_ommers :: "alloy_header list"
  ab_withdrawals :: "alloy_withdrawal list option"

definition convert_withdrawal :: "alloy_withdrawal \<Rightarrow> withdrawal" where
  "convert_withdrawal w =
     \<lparr>wd_index = aw_index w, wd_validator_index = aw_validator_index w, wd_address = aw_address w, wd_amount = aw_amount w\<rparr>"

definition block_of_header ::
  "alloy_header \<Rightarrow> transaction list \<Rightarrow> transaction_receipt list \<Rightarrow> withdrawal list \<Rightarrow> ommer_header list \<Rightarrow> block" where
  "block_of_header h transactions receipts withdrawals ommer_headers =
     \<lparr>b_parent_hash = ah_parent_hash h, b_ommers_hash = ah_ommers_hash h, b_beneficiary = ah_beneficiary h,
      b_state_root = ah_state_root h, b_difficulty = to_least_significant_u64 (ah_difficulty h), b_number = ah_number h,
      b_gas_limit = ah_gas_limit h, b_timestamp = ah_timestamp h, b_extra_data = ah_extra_data h,
      b_prev_randao = ah_mix_hash h, b_nonce = ah_nonce h, b_transactions = transactions, b_receipts = receipts,
      b_base_fee_per_gas = map_option u256_of_u64 (ah_base_fee_per_gas h), b_withdrawals_root = ah_withdrawals_root h,
      b_withdrawals = withdrawals, b_blob_gas_used = ah_blob_gas_used h, b_excess_blob_gas = ah_excess_blob_gas h,
      b_parent_beacon_block_root = ah_parent_beacon_block_root h, b_requests_hash = ah_requests_hash h,
      b_ommer_headers = ommer_headers, b_verkle_state_root = None, b_binary_state_root = None\<rparr>"

definition convert_ommers :: "alloy_header list \<Rightarrow> ommer_header list" where
  "convert_ommers hs = map (\<lambda>h. \<lparr>om_beneficiary = ah_beneficiary h, om_number = ah_number h\<rparr>) hs"

text \<open>What decoding the compressed parts of a block tuple returns.\<close>

record era1_block =
  e1_header :: "string + alloy_header"
  e1_body :: "string + alloy_body"
  e1_receipts :: "string + alloy_receipt list"

definition era1_convert_block :: "era1_block \<Rightarrow> genesis_error + block" where
  "era1_convert_block t =
     res_bind (map_err GE2S (e1_header t)) (\<lambda>header.
     res_bind (map_err GE2S (e1_body t)) (\<lambda>body.
     res_bind (map_err GE2S (e1_receipts t)) (\<lambda>receipts.
       Inr (block_of_header header (map convert_transaction (ab_transactions body)) (map convert_receipts receipts) []
         (convert_ommers (ab_ommers body))))))"

record erae_block =
  ee_header :: "string + alloy_header"
  ee_body :: "string + alloy_body"
  ee_receipts :: "(string + alloy_receipt list) option"

definition erae_convert_block :: "erae_block \<Rightarrow> genesis_error + block" where
  "erae_convert_block t =
     res_bind (map_err GE2S (ee_header t)) (\<lambda>header.
     res_bind (map_err GE2S (ee_body t)) (\<lambda>body.
     res_bind (map_err GE2S (opt_transpose (ee_receipts t))) (\<lambda>receipts.
       Inr (block_of_header header (map convert_transaction (ab_transactions body))
         (case receipts of None \<Rightarrow> [] | Some rs \<Rightarrow> map convert_slim_receipt rs)
         (case ab_withdrawals body of None \<Rightarrow> [] | Some ws \<Rightarrow> map convert_withdrawal ws)
         (convert_ommers (ab_ommers body))))))"

subsection \<open>Blocks of .era files (era.rs)\<close>

record payload_bellatrix =
  ep_parent_hash :: hash
  ep_fee_recipient :: address
  ep_state_root :: hash
  ep_prev_randao :: hash
  ep_block_number :: u64
  ep_gas_limit :: u64
  ep_timestamp :: u64
  ep_extra_data :: bytes
  ep_base_fee_per_gas :: u256
  ep_transactions :: "bytes list"

record payload_capella = payload_bellatrix +
  ep_withdrawals :: "alloy_withdrawal list"

record payload_deneb = payload_capella +
  ep_blob_gas_used :: u64
  ep_excess_blob_gas :: u64

datatype beacon_block =
    BeaconBellatrix payload_bellatrix
  | BeaconCapella payload_capella
  | BeaconDeneb payload_deneb (parent_root: hash)
  | BeaconElectra payload_deneb hash (requests_hash: hash)
  | BeaconFulu payload_deneb hash hash
  | BeaconOther

definition parse_transactions :: "eth \<Rightarrow> bytes list \<Rightarrow> genesis_error + transaction list" where
  "parse_transactions E data = map_err GRlp (collect_results (map (\<lambda>t. map_ok fst (transaction_unmarshal E t)) data))"

definition parse_withdrawals :: "alloy_withdrawal list \<Rightarrow> withdrawal list" where
  "parse_withdrawals ws = map convert_withdrawal ws"

definition payload_block ::
  "eth \<Rightarrow> 'a payload_bellatrix_scheme \<Rightarrow> withdrawal list option \<Rightarrow> (u64 \<times> u64) option \<Rightarrow> hash option \<Rightarrow> hash option \<Rightarrow>
    genesis_error + block" where
  "payload_block E p withdrawals blob_gas parent_beacon_root requests =
     map_ok (\<lambda>transactions.
       \<lparr>b_parent_hash = ep_parent_hash p, b_ommers_hash = EMPTY_OMMERS_HASH, b_beneficiary = ep_fee_recipient p,
        b_state_root = ep_state_root p, b_difficulty = 0, b_number = ep_block_number p, b_gas_limit = ep_gas_limit p,
        b_timestamp = ep_timestamp p, b_extra_data = ep_extra_data p, b_prev_randao = ep_prev_randao p,
        b_nonce = zero_bytes 8, b_transactions = transactions, b_receipts = [],
        b_base_fee_per_gas = Some (ep_base_fee_per_gas p),
        b_withdrawals_root = map_option (compute_root_hash E (withdrawal_marshal E)) withdrawals,
        b_withdrawals = (case withdrawals of None \<Rightarrow> [] | Some ws \<Rightarrow> ws), b_blob_gas_used = map_option fst blob_gas,
        b_excess_blob_gas = map_option snd blob_gas, b_parent_beacon_block_root = parent_beacon_root,
        b_requests_hash = requests, b_ommer_headers = [], b_verkle_state_root = None, b_binary_state_root = None\<rparr>)
     (parse_transactions E (ep_transactions p))"

fun era_convert_block :: "eth \<Rightarrow> beacon_block \<Rightarrow> genesis_error + block" where
  "era_convert_block E (BeaconBellatrix p) = payload_block E p None None None None"
| "era_convert_block E (BeaconCapella p) = payload_block E p (Some (parse_withdrawals (ep_withdrawals p))) None None None"
| "era_convert_block E (BeaconDeneb p root) =
     payload_block E p (Some (parse_withdrawals (ep_withdrawals p))) (Some (ep_blob_gas_used p, ep_excess_blob_gas p)) (Some root) None"
| "era_convert_block E (BeaconElectra p root requests) =
     payload_block E p (Some (parse_withdrawals (ep_withdrawals p))) (Some (ep_blob_gas_used p, ep_excess_blob_gas p)) (Some root)
       (Some requests)"
| "era_convert_block E (BeaconFulu p root requests) =
     payload_block E p (Some (parse_withdrawals (ep_withdrawals p))) (Some (ep_blob_gas_used p, ep_excess_blob_gas p)) (Some root)
       (Some requests)"
| "era_convert_block E BeaconOther = Inl (GEra ''unsupported beacon block fork'')"

subsection \<open>Forks\<close>

datatype fork_name = Bellatrix | Capella | Deneb | Electra | Fulu

definition u64_from_le_bytes :: "bytes \<Rightarrow> u64" where
  "u64_from_le_bytes bs = u64_from_be_bytes (rev bs)"

definition decode_slot_from_signed_block :: "bytes \<Rightarrow> genesis_error + u64" where
  "decode_slot_from_signed_block ssz =
     (if length ssz < 108 then Inl (GEra ''SSZ too short for SignedBeaconBlock'')
      else Inr (u64_from_le_bytes (take 8 (drop 100 ssz))))"

definition try_get_beacon_fork :: "u64 \<Rightarrow> u64 \<Rightarrow> fork_name option" where
  "try_get_beacon_fork slot_index chain_id =
     (if chain_id = 1 then
        (if slot_index < 144896 * 32 then None
         else if slot_index < 194048 * 32 then Some Bellatrix
         else if slot_index < 269568 * 32 then Some Capella
         else if slot_index < 364032 * 32 then Some Deneb
         else if slot_index < 411392 * 32 then Some Electra
         else Some Fulu)
      else if chain_id = 11155111 then
        (if slot_index < 100 * 32 then None
         else if slot_index < 56832 * 32 then Some Bellatrix
         else if slot_index < 132608 * 32 then Some Capella
         else if slot_index < 222464 * 32 then Some Deneb
         else if slot_index < 272640 * 32 then Some Electra
         else Some Fulu)
      else if chain_id = 17000 then
        (if slot_index < 256 * 32 then Some Bellatrix
         else if slot_index < 29696 * 32 then Some Capella
         else if slot_index < 115968 * 32 then Some Deneb
         else if slot_index < 165120 * 32 then Some Electra
         else Some Fulu)
      else if chain_id = 560048 then
        (if slot_index < 2048 * 32 then Some Deneb
         else if slot_index < 50688 * 32 then Some Electra
         else Some Fulu)
      else None)"

subsection \<open>Files and directories\<close>

text \<open>What opening a file and reading its entries returns: for .era files the decompressed SSZ
  bytes of each block.\<close>

record era_files =
  ef_open_era1 :: "string \<Rightarrow> string + (string + era1_block) list"
  ef_open_era :: "string \<Rightarrow> string + (string + bytes) list"
  ef_open_erae :: "string \<Rightarrow> string + (string + erae_block) list"
  ef_from_ssz :: "bytes \<Rightarrow> fork_name \<Rightarrow> string + beacon_block"

record file_format =
  ff_extension :: string
  ff_read_file :: "string \<Rightarrow> u64 \<Rightarrow> genesis_error + (genesis_error + block) list"

definition era1_file_reader :: "era_files \<Rightarrow> file_format" where
  "era1_file_reader F =
     \<lparr>ff_extension = ''era1'',
      ff_read_file = (\<lambda>path chain_id.
        map_ok (map (\<lambda>result. res_bind (map_err GE2S result) era1_convert_block)) (map_err GIo (ef_open_era1 F path)))\<rparr>"

definition era_item :: "eth \<Rightarrow> era_files \<Rightarrow> u64 \<Rightarrow> string + bytes \<Rightarrow> genesis_error + block" where
  "era_item E F chain_id result =
     res_bind (map_err GE2S result) (\<lambda>ssz_bytes.
     res_bind (decode_slot_from_signed_block ssz_bytes) (\<lambda>slot.
     case try_get_beacon_fork slot chain_id of
       None \<Rightarrow> Inl (GEra (''unsupported fork for slot '' @ nat_to_string (unat slot)))
     | Some fork \<Rightarrow>
         res_bind (map_err (\<lambda>e. GEra (''SSZ decode error: '' @ e)) (ef_from_ssz F ssz_bytes fork)) (\<lambda>beacon_block.
           era_convert_block E beacon_block)))"

definition era_file_reader :: "eth \<Rightarrow> era_files \<Rightarrow> file_format" where
  "era_file_reader E F =
     \<lparr>ff_extension = ''era'',
      ff_read_file = (\<lambda>path chain_id. map_ok (map (era_item E F chain_id)) (map_err GIo (ef_open_era F path)))\<rparr>"

definition erae_file_reader :: "era_files \<Rightarrow> file_format" where
  "erae_file_reader F =
     \<lparr>ff_extension = ''erae'',
      ff_read_file = (\<lambda>path chain_id.
        map_ok (map (\<lambda>result. res_bind (map_err GE2S result) erae_convert_block)) (map_err GIo (ef_open_erae F path)))\<rparr>"

record dir_entry =
  de_path :: string
  de_is_file :: "string + bool"

definition file_name :: "string \<Rightarrow> string" where
  "file_name path = rev (takeWhile (\<lambda>c. c \<noteq> CHR ''/'') (rev path))"

definition extension :: "string \<Rightarrow> string option" where
  "extension path =
     (let name = file_name path; after = takeWhile (\<lambda>c. c \<noteq> CHR ''.'') (rev name) in
      if CHR ''.'' \<notin> set name \<or> length name = Suc (length after) then None else Some (rev after))"

fun scan_entries :: "string \<Rightarrow> (string + dir_entry) list \<Rightarrow> genesis_error + string list" where
  "scan_entries ext [] = Inr []"
| "scan_entries ext (entry # rest) =
     res_bind (map_err GIo entry) (\<lambda>e.
     res_bind (map_err GIo (de_is_file e)) (\<lambda>is_file.
       map_ok (\<lambda>files. if is_file \<and> extension (de_path e) = Some ext then de_path e # files else files)
         (scan_entries ext rest)))"

record era_dir =
  ed_files :: "string list"
  ed_chain_id :: u64

definition era_dir_open ::
  "(string \<Rightarrow> string + (string + dir_entry) list) \<Rightarrow> file_format \<Rightarrow> string \<Rightarrow> u64 \<Rightarrow> genesis_error + era_dir" where
  "era_dir_open read_dir R path chain_id =
     res_bind (map_err GIo (read_dir path)) (\<lambda>entries.
     res_bind (scan_entries (ff_extension R) entries) (\<lambda>files.
       if files = [] then Inl (GEra (''directory does not contain any '' @ ff_extension R @ '' files''))
       else Inr \<lparr>ed_files = files, ed_chain_id = chain_id\<rparr>))"

definition era_dir_blocks :: "file_format \<Rightarrow> era_dir \<Rightarrow> (genesis_error + block) list" where
  "era_dir_blocks R dir =
     concat (map (\<lambda>path.
       case ff_read_file R path (ed_chain_id dir) of
         Inl e \<Rightarrow> [Inl e]
       | Inr items \<Rightarrow> rev items) (rev (sort (ed_files dir))))"

subsection \<open>Order of the blocks and converted transactions\<close>

lemma era_dir_blocks_eq:
  assumes "\<forall>p \<in> set files. ff_read_file R p c = Inr (map Inr (bs p))"
  shows "era_dir_blocks R \<lparr>ed_files = files, ed_chain_id = c\<rparr> = map Inr (rev (concat (map bs (sort files))))"
proof -
  have "\<forall>p \<in> set (sort files). ff_read_file R p c = Inr (map Inr (bs p))" using assms by simp
  then have "concat (map (\<lambda>p. case ff_read_file R p c of Inl e \<Rightarrow> [Inl e] | Inr items \<Rightarrow> rev items) (rev (sort files))) =
      map Inr (rev (concat (map bs (sort files))))"
    by (induction "sort files" arbitrary: files rule: rev_induct) (auto simp: rev_map rev_concat map_concat comp_def intro!: arg_cong [of _ _ concat])
  then show ?thesis by (simp add: era_dir_blocks_def)
qed

lemma scan_entries_ok:
  assumes "scan_entries ext entries = Inr files"
  shows "files = map (de_path \<circ> projr) (filter (\<lambda>x. de_is_file (projr x) = Inr True \<and> extension (de_path (projr x)) = Some ext) entries)"
  using assms by (induction ext entries arbitrary: files rule: scan_entries.induct) auto

lemma unat_u128_u64: "unat (u256_of_u64 n) = unat n"
  unfolding u256_of_u64_def using unsigned_less [of n, where ?'a = nat] by (subst unat_of_nat) simp

lemmas convert_defs = convert_tx_legacy_def convert_tx_eip2930_def convert_tx_eip1559_def convert_tx_eip4844_def convert_tx_eip7702_def

lemma convert_transaction_valid:
  "is_valid (convert_transaction env) = Inr ()"
  by (cases env) (simp_all add: convert_defs is_valid_def constructible_defs)

lemma convert_transaction_kind:
  "kind_only (convert_transaction env) =
     (case env of EnvLegacy sig tx \<Rightarrow> (convert_transaction env)\<lparr>tx_chain_id := 0\<rparr> | _ \<Rightarrow> convert_transaction env)"
  by (cases env) (simp_all add: convert_defs kind_only_def)

lemma legacy_y_parity_decode:
  assumes "unat n < 2 ^ 62"
  shows "unat (legacy_y_parity v (Some n)) = 2 * unat n + 35 + (if v then 1 else 0)" "unat (legacy_y_parity v None) = 27 + (if v then 1 else 0)"
proof -
  have "unat (n * 2) = unat n * 2" using assms by (simp add: unat_word_ariths)
  then show "unat (legacy_y_parity v (Some n)) = 2 * unat n + 35 + (if v then 1 else 0)"
    using assms by (auto simp: legacy_y_parity_def unat_word_ariths)
qed (simp add: legacy_y_parity_def)

subsection \<open>Properties\<close>

text \<open>C16: a directory of era files yields its blocks newest first: if every file of the directory
  is read without errors, the iterator yields the reversal of the blocks of the files in the
  order of the file names; so block numbers that ascend along the files descend in the iterator,
  as the import demands.\<close>

theorem era_blocks_descending:
  assumes "era_dir_open read_dir R path c = Inr dir"
    and "\<forall>p \<in> set (ed_files dir). ff_read_file R p c = Inr (map Inr (bs p))"
    and "all_blocks = concat (map bs (sort (ed_files dir)))"
  shows "era_dir_blocks R dir = map Inr (rev all_blocks) \<and> ed_files dir \<noteq> [] \<and>
    (\<forall>p \<in> set (ed_files dir). extension p = Some (ff_extension R)) \<and>
    (sorted_wrt (<) (map b_number all_blocks) \<longrightarrow> sorted_wrt (>) (map b_number (rev all_blocks)))"
proof -
  obtain entries files where o: "scan_entries (ff_extension R) entries = Inr files" "dir = \<lparr>ed_files = files, ed_chain_id = c\<rparr>" "files \<noteq> []"
    using assms(1) by (auto simp: era_dir_open_def split: if_splits)
  then show ?thesis
    using era_dir_blocks_eq [of files R c bs] assms(2,3) scan_entries_ok [OF o(1)]
    by (auto simp: rev_map [symmetric] sorted_wrt_rev)
qed

definition ex_era1 :: "u64 \<Rightarrow> era1_block" where
  "ex_era1 n =
     \<lparr>e1_header = Inr \<lparr>ah_parent_hash = zero_bytes 32, ah_ommers_hash = zero_bytes 32, ah_beneficiary = zero_bytes 20,
        ah_state_root = zero_bytes 32, ah_difficulty = 0, ah_number = n, ah_gas_limit = 0, ah_timestamp = 0, ah_extra_data = [],
        ah_mix_hash = zero_bytes 32, ah_nonce = zero_bytes 8, ah_base_fee_per_gas = None, ah_withdrawals_root = None,
        ah_blob_gas_used = None, ah_excess_blob_gas = None, ah_parent_beacon_block_root = None, ah_requests_hash = None\<rparr>,
      e1_body = Inr \<lparr>ab_transactions = [], ab_ommers = [], ab_withdrawals = None\<rparr>, e1_receipts = Inr []\<rparr>"

definition ex_era_files :: era_files where
  "ex_era_files =
     \<lparr>ef_open_era1 = (\<lambda>p. if p = ''d/m-00000.era1'' then Inr [Inr (ex_era1 0), Inr (ex_era1 1)] else Inr [Inr (ex_era1 2)]),
      ef_open_era = (\<lambda>_. Inl ''''), ef_open_erae = (\<lambda>_. Inl ''''), ef_from_ssz = (\<lambda>_ _. Inl '''')\<rparr>"

definition ex_read_dir :: "string \<Rightarrow> string + (string + dir_entry) list" where
  "ex_read_dir path =
     Inr [Inr \<lparr>de_path = ''d/m-00001.era1'', de_is_file = Inr True\<rparr>, Inr \<lparr>de_path = ''d/notes.txt'', de_is_file = Inr True\<rparr>,
          Inr \<lparr>de_path = ''d/m-00000.era1'', de_is_file = Inr True\<rparr>]"

theorem era_blocks_descending_witness:
  "\<exists>dir b0 b1 b2. era_dir_open ex_read_dir (era1_file_reader ex_era_files) ''d'' 1 = Inr dir \<and>
     era_dir_blocks (era1_file_reader ex_era_files) dir = [Inr b2, Inr b1, Inr b0] \<and> map b_number [b2, b1, b0] = [2, 1, 0]"
proof -
  let ?R = "era1_file_reader ex_era_files" and ?files = "[''d/m-00001.era1'', ''d/m-00000.era1'']"
  let ?dir = "\<lparr>ed_files = ?files, ed_chain_id = 1\<rparr>"
  define blk where "blk n = projr (era1_convert_block (ex_era1 n))" for n
  let ?bs = "\<lambda>p. if p = ''d/m-00000.era1'' then [blk 0, blk 1] else [blk 2]"
  have c: "era1_convert_block (ex_era1 n) = Inr (blk n)" "b_number (blk n) = n" for n
    by (simp_all add: blk_def era1_convert_block_def ex_era1_def block_of_header_def)
  have o: "era_dir_open ex_read_dir ?R ''d'' 1 = Inr ?dir" by code_simp
  have r: "\<forall>p \<in> set (ed_files ?dir). ff_read_file ?R p 1 = Inr (map Inr (?bs p))"
    by (simp add: era1_file_reader_def ex_era_files_def c)
  have s: "sort ?files = [''d/m-00000.era1'', ''d/m-00001.era1'']" by code_simp
  have "[blk 0, blk 1, blk 2] = concat (map ?bs (sort (ed_files ?dir)))" unfolding era_dir.simps s by simp
  from era_blocks_descending [OF o r this] show ?thesis using o c(2) by auto
qed



end
