(* ===== verification/Cmd_Import_Files.thy ===== *)
theory Cmd_Import_Files
  imports Cmd_Import Era_Dir
begin

section \<open>Importing files\<close>

text \<open>
  The commands of blockservice/src/cmd/import.rs: \<open>import_era1\<close>, \<open>import_era\<close>,
  \<open>import_erae\<close> and \<open>import_gfile\<close> open the application directory and the source and
  run the import of theory Cmd\_Import on the blocks that the source yields. The database that
  was opened lives in the application directory, so its state after the import is put back into
  the file system of the model. \<open>fuel\<close> bounds the number of blocks that are read from a
  genesis file; a value above the number of its records reads all of them. Parsing a genesis file
  can run forever or panic, which is the outcome \<open>None\<close> or \<open>Panics\<close>. Shown here are
  the facts about chains of linked blocks that the property of the composed commands rests on.
\<close>

subsection \<open>The commands\<close>

definition put_store :: "io \<Rightarrow> string \<Rightarrow> 'd \<Rightarrow> 'd fs \<Rightarrow> 'd fs" where
  "put_store io app_dir d fs =
     (case io_canonicalize io app_dir of
        Inl e \<Rightarrow> fs
      | Inr path \<Rightarrow> fs\<lparr>fs_stores := (fs_stores fs)(path_join path BLOCK_DB_NAME \<mapsto> d)\<rparr>)"

record ('doc, 'db, 'wb) service =
  sv_toml :: "'doc toml"
  sv_api :: metadata_api
  sv_io :: io
  sv_rocks_open :: "bool \<Rightarrow> 'db rocks_db \<Rightarrow> error + 'db rocks_db"
  sv_rocksdb :: "('db, 'wb) rocksdb"
  sv_hash_order :: hash_order
  sv_prost :: prost
  sv_eth :: eth

definition open_service_dir :: "('doc, 'db, 'wb) service \<Rightarrow> 'db rocks_db fs \<Rightarrow> string \<Rightarrow> bool \<Rightarrow> error + config \<times> 'db rocks_db" where
  "open_service_dir V fs app_dir readonly_db =
     open_app_dir (sv_toml V) (sv_api V) (sv_io V) (sv_rocks_open V) (rocks_kvdb (sv_rocksdb V)) fs app_dir readonly_db"

definition run_import ::
  "('doc, 'db, 'wb) service \<Rightarrow> (nat \<Rightarrow> bool) \<Rightarrow> 'db rocks_db fs \<Rightarrow> string \<Rightarrow> config \<Rightarrow> 'db rocks_db \<Rightarrow> u64 \<Rightarrow> bool \<Rightarrow>
    (genesis_error + block) list \<Rightarrow> ((import_error + unit) \<times> import_line list) \<times> 'db rocks_db fs" where
  "run_import V cancelled fs app_dir cfg d chain_id check source =
     (case import (sv_toml V) (sv_io V) (rocks_blockdb (sv_rocksdb V) (sv_hash_order V) (sv_prost V)) (sv_eth V) (sv_prost V)
        cancelled fs cfg d chain_id check source of
        (r, d', cfg', fs') \<Rightarrow> (r, put_store (sv_io V) app_dir d' fs'))"

definition import_era_dir ::
  "('doc, 'db, 'wb) service \<Rightarrow> (nat \<Rightarrow> bool) \<Rightarrow> (string \<Rightarrow> string + (string + dir_entry) list) \<Rightarrow> file_format \<Rightarrow>
    'db rocks_db fs \<Rightarrow> string \<Rightarrow> string \<Rightarrow> u64 \<Rightarrow> bool \<Rightarrow> ((import_error + unit) \<times> import_line list) \<times> 'db rocks_db fs" where
  "import_era_dir V cancelled read_dir format fs app_dir era_dir_path chain_id check =
     (case open_service_dir V fs app_dir False of
        Inl e \<Rightarrow> ((Inl (ImportErr e), []), fs)
      | Inr (cfg, d) \<Rightarrow>
          (case era_dir_open read_dir format era_dir_path chain_id of
             Inl e \<Rightarrow> ((Inl (GenesisErr e), []), fs)
           | Inr dir \<Rightarrow> run_import V cancelled fs app_dir cfg d chain_id check (era_dir_blocks format dir)))"

definition import_era1 ::
  "('doc, 'db, 'wb) service \<Rightarrow> (nat \<Rightarrow> bool) \<Rightarrow> (string \<Rightarrow> string + (string + dir_entry) list) \<Rightarrow> era_files \<Rightarrow>
    'db rocks_db fs \<Rightarrow> string \<Rightarrow> string \<Rightarrow> u64 \<Rightarrow> bool \<Rightarrow> ((import_error + unit) \<times> import_line list) \<times> 'db rocks_db fs" where
  "import_era1 V cancelled read_dir F = import_era_dir V cancelled read_dir (era1_file_reader F)"

definition import_era ::
  "('doc, 'db, 'wb) service \<Rightarrow> (nat \<Rightarrow> bool) \<Rightarrow> (string \<Rightarrow> string + (string + dir_entry) list) \<Rightarrow> era_files \<Rightarrow>
    'db rocks_db fs \<Rightarrow> string \<Rightarrow> string \<Rightarrow> u64 \<Rightarrow> ((import_error + unit) \<times> import_line list) \<times> 'db rocks_db fs" where
  "import_era V cancelled read_dir F fs app_dir era_dir_path chain_id =
     import_era_dir V cancelled read_dir (era_file_reader (sv_eth V) F) fs app_dir era_dir_path chain_id False"

definition import_erae ::
  "('doc, 'db, 'wb) service \<Rightarrow> (nat \<Rightarrow> bool) \<Rightarrow> (string \<Rightarrow> string + (string + dir_entry) list) \<Rightarrow> era_files \<Rightarrow>
    'db rocks_db fs \<Rightarrow> string \<Rightarrow> string \<Rightarrow> u64 \<Rightarrow> bool \<Rightarrow> ((import_error + unit) \<times> import_line list) \<times> 'db rocks_db fs" where
  "import_erae V cancelled read_dir F = import_era_dir V cancelled read_dir (erae_file_reader F)"

definition import_gfile ::
  "('doc, 'db, 'wb) service \<Rightarrow> (nat \<Rightarrow> bool) \<Rightarrow> rlp_header \<Rightarrow> (source \<Rightarrow> source) \<Rightarrow> (string \<Rightarrow> string + file_reader) \<Rightarrow> nat \<Rightarrow>
    'db rocks_db fs \<Rightarrow> string \<Rightarrow> string \<Rightarrow> bool \<Rightarrow> (((import_error + unit) \<times> import_line list) \<times> 'db rocks_db fs) run option" where
  "import_gfile V cancelled H gunzip open_file fuel fs app_dir gfile_path check =
     (case open_service_dir V fs app_dir False of
        Inl e \<Rightarrow> Some (Returns ((Inl (ImportErr e), []), fs))
      | Inr (cfg, d) \<Rightarrow>
          (case open_file gfile_path of
             Inl e \<Rightarrow> Some (Returns ((Inl (OpenErr e), []), fs))
           | Inr reader \<Rightarrow>
               (case gfile_parse (sv_eth V) gunzip reader of
                  None \<Rightarrow> None
                | Some Panics \<Rightarrow> Some Panics
                | Some (Returns (Inl e)) \<Rightarrow> Some (Returns ((Inl (GenesisErr e), []), fs))
                | Some (Returns (Inr genesis)) \<Rightarrow>
                    Some (Returns (run_import V cancelled fs app_dir cfg d (gf_chain_id genesis) check
                      (next_blocks (sv_eth V) H fuel (gf_blocks genesis)))))))"

subsection \<open>The generated chain\<close>

lemma test_chain_numbers: "map b_number (test_chain E n h k) = word_seq n k"
  by (induction k arbitrary: n h) (simp_all add: Let_def)

lemma test_chain_linked:
  "successively (\<lambda>a b. b_parent_hash b = block_hash E a) (test_chain E n h k)"
  "k \<noteq> 0 \<Longrightarrow> b_parent_hash (hd (test_chain E n h k)) = h"
proof -
  show hd: "k \<noteq> 0 \<Longrightarrow> b_parent_hash (hd (test_chain E n h k)) = h" for k n h
    by (cases k) (simp_all add: Let_def)
  show "successively (\<lambda>a b. b_parent_hash b = block_hash E a) (test_chain E n h k)"
  proof (induction k arbitrary: n h)
    case (Suc k)
    define b where "b = default_sonic\<lparr>b_number := n, b_parent_hash := h\<rparr>"
    have "test_chain E (n + 1) (block_hash E b) k = [] \<or> b_parent_hash (hd (test_chain E (n + 1) (block_hash E b) k)) = block_hash E b"
      using hd by (cases "k = 0") simp_all
    then show ?case using Suc.IH by (simp add: Let_def successively_Cons flip: b_def)
  qed simp
qed

lemma test_chain_source:
  fixes n :: u64
  assumes "k = Suc (unat n)" and "bs = rev (test_chain E 0 (zero_bytes 32) k)"
  shows "map b_number bs = rev (sorted_list_of_set {0 .. n})"
    and "successively (\<lambda>b a. b_parent_hash b = block_hash E a) bs" and "b_parent_hash (last bs) = zero_bytes 32"
proof -
  show "map b_number bs = rev (sorted_list_of_set {0 .. n})"
    using word_seq_interval [of 0 n] unfolding assms rev_map [symmetric] test_chain_numbers by simp
  show "successively (\<lambda>b a. b_parent_hash b = block_hash E a) bs"
    using test_chain_linked(1) [of E 0 "zero_bytes 32" k] by (simp add: assms(2) successively_rev)
  show "b_parent_hash (last bs) = zero_bytes 32"
    using test_chain_linked(2) [of k E 0 "zero_bytes 32"] by (simp add: assms last_rev)
qed


subsection \<open>A stored chain verifies\<close>

context block_store_live
begin

lemma linked_chain_verifies:
  assumes "live d" and "inv d" and "failed_bundles (abs d) c = None" and "\<forall>i. \<not> cancelled i"
    and "map b_number bs = rev (sorted_list_of_set {0 .. n})" and "stored (abs d) c = {0 .. n}" and "unat n < 2 ^ 62"
    and "\<forall>b \<in> set bs. blocks (abs d) c (b_number b) = Some (enc b) \<and> dec (enc b) = Inr b"
    and "successively (\<lambda>b a. b_parent_hash b = block_hash E a) bs"
  shows "\<exists>ls. verify D E pb cancelled d c None None = (Inr (), ls) \<and> ls \<noteq> [] \<and> last ls = BlocksVerified c"
proof -
  have nums: "sorted_list_of_set {0 .. n} = map b_number (rev bs)" unfolding rev_map [symmetric] assms(5) by simp
  have dec: "decoded (abs d) c (b_number b) = (b_number b, b)" if "b \<in> set bs" for b
    using that assms(8) by (simp add: decoded_def)
  have all: "{m \<in> stored (abs d) c. 0 \<le> m} = {0 .. n}" unfolding assms(6) by auto
  have xs: "map (decoded (abs d) c) (sorted_list_of_set {m \<in> stored (abs d) c. 0 \<le> m}) = map (\<lambda>b. (b_number b, b)) (rev bs)"
    unfolding all nums by (simp add: dec)
  have "\<exists>b. dec (the (blocks (abs d) c m)) = Inr b" if "m \<in> stored (abs d) c" for m
  proof -
    have "m \<in> set (sorted_list_of_set {0 .. n})" using that unfolding assms(6) by simp
    then obtain b where "b \<in> set bs" "m = b_number b" unfolding nums by auto
    then show ?thesis using assms(8) by auto
  qed
  moreover have "stored_bundles D pb d c = Inr {}"
    using failed_bundles_live [OF assms(1), of c] failed_bundles_law [of d c] assms(3) by (auto simp: stored_bundles_def)
  moreover have "2 * card (stored (abs d) c) < 2 ^ 64"
  proof -
    have "card (stored (abs d) c) = Suc (unat n)"
      unfolding assms(6) length_sorted_list_of_set [symmetric] using word_seq_interval [of 0 n, symmetric] by simp
    then show ?thesis using assms(7) by simp
  qed
  moreover have "linked E {} (map (\<lambda>b. (b_number b, b)) (rev bs))"
    using assms(9) by (auto simp: linked_def successively_map successively_rev elim: successively_mono)
  ultimately show ?thesis
    using verify_live [OF assms(1,2) _ _ assms(4), of c pb "{}" 0 None E] xs by auto
qed

end


subsection \<open>Opening again\<close>

context kv_store_live
begin

lemma open_db_live: "live d \<Longrightarrow> db_inv (view d) \<Longrightarrow> open_db kv d = Inr d"
  by (simp add: open_db_def get_live db_inv_def deserialize_version_def serialize_version_def)

end

lemma open_service_dir_put_store:
  assumes "open_service_dir V fs app_dir ro = Inr (cfg, d)" and "sv_rocks_open V ro d' = Inr d'"
    and "open_db (rocks_kvdb (sv_rocksdb V)) d' = Inr d'"
  shows "open_service_dir V (put_store (sv_io V) app_dir d' fs) app_dir ro = Inr (cfg, d')"
proof -
  obtain p where p: "io_canonicalize (sv_io V) app_dir = Inr p"
    using assms(1) by (auto simp: open_service_dir_def open_app_dir_def)
  have "config_load (sv_toml V) (sv_api V) (sv_io V) (put_store (sv_io V) app_dir d' fs) q =
      config_load (sv_toml V) (sv_api V) (sv_io V) fs q" for q
    by (cases "io_read (sv_io V) q") (simp_all add: config_load_def read_to_string_def put_store_def p)
  then show ?thesis
    using assms p by (auto simp: open_service_dir_def open_app_dir_def put_store_def Let_def split: option.splits if_splits)
qed

lemma import_gfile_run:
  assumes "open_service_dir V fs app_dir False = Inr (cfg, d)" and "open_file path = Inr reader"
    and "gfile_parse (sv_eth V) gunzip reader = Some (Returns (Inr g))"
    and "import (sv_toml V) (sv_io V) (rocks_blockdb (sv_rocksdb V) (sv_hash_order V) (sv_prost V)) (sv_eth V) (sv_prost V)
      cancelled fs cfg d (gf_chain_id g) check (next_blocks (sv_eth V) H fuel (gf_blocks g)) = ((r, ls), d', cfg', fs')"
  shows "import_gfile V cancelled H gunzip open_file fuel fs app_dir path check =
    Some (Returns ((r, ls), put_store (sv_io V) app_dir d' fs'))"
  using assms by (simp add: import_gfile_def run_import_def)

context rlp_headers
begin

lemma test_chain_wf: "b \<in> set (test_chain E n (zero_bytes 32) k) \<Longrightarrow> wf_block b"
  using test_chain_sonic [of E "zero_bytes 32" n k] keccak_length by (auto simp: list_all_iff sonic_block_def zero_bytes_def)

end

end
