(* ===== verification/Hex.thy ===== *)
theory Hex
  imports Chain_Types
begin

section \<open>Hexadecimal strings\<close>

text \<open>
  bertha-types/src/hex\_convert.rs, parse\_hex\_error.rs and the implementations of
  \<open>HexConvert\<close> in u256.rs, receipts.rs and transaction/mod.rs: the representation of numbers
  and byte strings in JSON-RPC messages. Numbers of 8 and 64 bits use the standard library, which
  is modelled; 256-bit numbers use the crate bnum and byte strings the crate const\_hex, whose
  functions are parameters with the laws of the locale \<open>hex_crates\<close>. Shown: every value is
  read back from its own representation, and numbers are accepted exactly in their bounds.
\<close>

subsection \<open>Errors\<close>

datatype parse_int_error_kind = IntEmpty | IntInvalidDigit | IntPosOverflow | IntNegOverflow | IntZero

datatype parse_hex_error =
    InvalidCharacter
  | IntError parse_int_error_kind
  | OddLength
  | FixedSizeMismatch nat nat
  | HexCustom string

definition error_from_int_error :: "parse_int_error_kind \<Rightarrow> parse_hex_error" where
  "error_from_int_error k = (if k = IntInvalidDigit then InvalidCharacter else IntError k)"

subsection \<open>Numbers of the standard library\<close>

text \<open>\<open>str::trim_start_matches("0x")\<close> removes the pattern as often as it occurs.\<close>

fun trim_0x :: "string \<Rightarrow> string" where
  "trim_0x (a # b # cs) = (if a = CHR ''0'' \<and> b = CHR ''x'' then trim_0x cs else a # b # cs)"
| "trim_0x cs = cs"

definition hex_digit :: "char \<Rightarrow> nat option" where
  "hex_digit c =
     (let k = (of_char c :: nat) in
      if 48 \<le> k \<and> k \<le> 57 then Some (k - 48)
      else if 97 \<le> k \<and> k \<le> 102 then Some (k - 87)
      else if 65 \<le> k \<and> k \<le> 70 then Some (k - 55)
      else None)"

fun radix16_loop :: "nat \<Rightarrow> nat \<Rightarrow> string \<Rightarrow> parse_int_error_kind + nat" where
  "radix16_loop bound acc [] = Inr acc"
| "radix16_loop bound acc (c # cs) =
     (case hex_digit c of
        None \<Rightarrow> Inl IntInvalidDigit
      | Some k \<Rightarrow> if bound \<le> acc * 16 + k then Inl IntPosOverflow else radix16_loop bound (acc * 16 + k) cs)"

definition from_str_radix16 :: "nat \<Rightarrow> string \<Rightarrow> parse_int_error_kind + nat" where
  "from_str_radix16 bound s =
     (if s = [] then Inl IntEmpty
      else if s = ''+'' \<or> s = ''-'' then Inl IntInvalidDigit
      else radix16_loop bound 0 (if hd s = CHR ''+'' then tl s else s))"

definition hex_char :: "nat \<Rightarrow> char" where
  "hex_char k = ''0123456789abcdef'' ! k"

fun lower_hex :: "nat \<Rightarrow> string" where
  "lower_hex n = (if n < 16 then [hex_char n] else lower_hex (n div 16) @ [hex_char (n mod 16)])"

declare lower_hex.simps [simp del]

definition u64_try_from_hex :: "string \<Rightarrow> parse_hex_error + u64" where
  "u64_try_from_hex value = map_ok of_nat (map_err error_from_int_error (from_str_radix16 (2 ^ 64) (trim_0x value)))"

definition u64_to_hex :: "u64 \<Rightarrow> string" where
  "u64_to_hex n = ''0x'' @ lower_hex (unat n)"

definition u8_try_from_hex :: "string \<Rightarrow> parse_hex_error + u8" where
  "u8_try_from_hex value = map_ok of_nat (map_err error_from_int_error (from_str_radix16 (2 ^ 8) (trim_0x value)))"

definition u8_to_hex :: "u8 \<Rightarrow> string" where
  "u8_to_hex n = ''0x'' @ lower_hex (unat n)"

definition transaction_type_try_from_hex :: "string \<Rightarrow> parse_hex_error + transaction_type" where
  "transaction_type_try_from_hex value =
     res_bind (u8_try_from_hex value) (\<lambda>n.
       map_err (\<lambda>_. HexCustom (''invalid transaction type: '' @ nat_to_string (unat n))) (transaction_type_try_from n))"

definition transaction_type_to_hex :: "transaction_type \<Rightarrow> string" where
  "transaction_type_to_hex t = ''0x'' @ lower_hex (unat (transaction_type_as_u8 t))"


subsection \<open>Crates\<close>

datatype from_hex_error = InvalidHexCharacter | HexOddLength | InvalidStringLength

record hex_api =
  ch_encode :: "bytes \<Rightarrow> string"
  ch_decode :: "string \<Rightarrow> from_hex_error + bytes"
  ch_decode_to_array :: "nat \<Rightarrow> string \<Rightarrow> from_hex_error + bytes"
  bn_lower_hex :: "u256 \<Rightarrow> string"
  bn_from_str_radix16 :: "string \<Rightarrow> parse_int_error_kind + u256"

definition array_try_from_hex :: "hex_api \<Rightarrow> nat \<Rightarrow> string \<Rightarrow> parse_hex_error + bytes" where
  "array_try_from_hex X n value =
     (case ch_decode_to_array X n (trim_0x value) of
        Inr a \<Rightarrow> Inr a
      | Inl InvalidHexCharacter \<Rightarrow> Inl InvalidCharacter
      | Inl HexOddLength \<Rightarrow> Inl OddLength
      | Inl InvalidStringLength \<Rightarrow> Inl (FixedSizeMismatch n (length (trim_0x value) div 2)))"

definition bytes_to_hex :: "hex_api \<Rightarrow> bytes \<Rightarrow> string" where
  "bytes_to_hex X bs = ''0x'' @ ch_encode X bs"

text \<open>The branch that the code marks as unreachable is the custom error here.\<close>

definition vec_try_from_hex :: "hex_api \<Rightarrow> string \<Rightarrow> parse_hex_error + bytes" where
  "vec_try_from_hex X value =
     (case ch_decode X (trim_0x value) of
        Inr a \<Rightarrow> Inr a
      | Inl InvalidHexCharacter \<Rightarrow> Inl InvalidCharacter
      | Inl HexOddLength \<Rightarrow> Inl OddLength
      | Inl InvalidStringLength \<Rightarrow> Inl (HexCustom ''unreachable''))"

definition u256_try_from_hex :: "hex_api \<Rightarrow> string \<Rightarrow> parse_hex_error + u256" where
  "u256_try_from_hex X value = map_err error_from_int_error (bn_from_str_radix16 X (trim_0x value))"

definition u256_to_hex :: "hex_api \<Rightarrow> u256 \<Rightarrow> string" where
  "u256_to_hex X n = ''0x'' @ bn_lower_hex X n"

definition post_state_try_from_hex :: "hex_api \<Rightarrow> string \<Rightarrow> parse_hex_error + post_state_or_status" where
  "post_state_try_from_hex X value =
     (if value = ''0x0'' then Inr (Status 0)
      else if value = ''0x1'' then Inr (Status 1)
      else map_ok PostState (array_try_from_hex X 32 value))"

definition post_state_to_hex :: "hex_api \<Rightarrow> post_state_or_status \<Rightarrow> string" where
  "post_state_to_hex X p = (case p of PostState root \<Rightarrow> bytes_to_hex X root | Status status \<Rightarrow> u64_to_hex status)"

locale hex_crates =
  fixes X :: hex_api
  assumes encode_digits: "c \<in> set (ch_encode X bs) \<Longrightarrow> hex_digit c \<noteq> None"
    and encode_length: "length (ch_encode X bs) = 2 * length bs"
    and decode_encode: "ch_decode X (ch_encode X bs) = Inr bs"
    and decode_to_array_encode: "ch_decode_to_array X n (ch_encode X bs) = (if length bs = n then Inr bs else Inl InvalidStringLength)"
    and lower_hex_digits: "c \<in> set (bn_lower_hex X m) \<Longrightarrow> hex_digit c \<noteq> None"
    and radix_lower_hex: "bn_from_str_radix16 X (bn_lower_hex X m) = Inr m"

subsection \<open>Round trips\<close>

lemma trim_0x_id: "\<forall>c \<in> set s. hex_digit c \<noteq> None \<Longrightarrow> trim_0x s = s"
proof (cases s rule: trim_0x.cases)
  case (1 a b cs)
  assume "\<forall>c \<in> set s. hex_digit c \<noteq> None"
  then have "b \<noteq> CHR ''x''" by (auto simp: 1 hex_digit_def Let_def)
  then show ?thesis by (simp add: 1)
qed simp_all

lemma trim_0x_prefix: "\<forall>c \<in> set s. hex_digit c \<noteq> None \<Longrightarrow> trim_0x (''0x'' @ s) = s"
  by (simp add: trim_0x_id)

lemma hex_digit_char: "k < 16 \<Longrightarrow> hex_digit (hex_char k) = Some k"
proof -
  assume "k < 16"
  then have "k \<in> set [0..<16]" by simp
  moreover have "\<forall>k \<in> set [0..<16]. hex_digit (hex_char k) = Some k" by code_simp
  ultimately show ?thesis by blast
qed

lemma lower_hex_set: "c \<in> set (lower_hex n) \<Longrightarrow> hex_digit c \<noteq> None"
proof (induction n rule: lower_hex.induct)
  case (1 n)
  have "c = hex_char n \<and> n < 16 \<or> c = hex_char (n mod 16) \<or> \<not> n < 16 \<and> c \<in> set (lower_hex (n div 16))"
    using 1(2) unfolding lower_hex.simps [of n] by (auto split: if_splits)
  then show ?case using 1(1) by (auto simp: hex_digit_char)
qed

lemma radix16_loop_append:
  "radix16_loop bound acc (xs @ ys) = res_bind (radix16_loop bound acc xs) (\<lambda>a. radix16_loop bound a ys)"
  by (induction bound acc xs rule: radix16_loop.induct) (auto split: option.split)

lemma radix16_lower_hex: "n < bound \<Longrightarrow> radix16_loop bound 0 (lower_hex n) = Inr n"
proof (induction n rule: lower_hex.induct)
  case (1 n)
  show ?case
  proof (cases "n < 16")
    case True
    then show ?thesis using 1(2) by (subst lower_hex.simps) (simp add: hex_digit_char)
  next
    case False
    have "n div 16 * 16 + n mod 16 = n" by simp
    then show ?thesis using 1 False by (subst lower_hex.simps) (simp add: radix16_loop_append hex_digit_char)
  qed
qed

lemma lower_hex_nonempty: "lower_hex n \<noteq> []"
  by (subst lower_hex.simps) simp

lemma from_str_lower_hex: "n < bound \<Longrightarrow> from_str_radix16 bound (lower_hex n) = Inr n"
proof -
  assume n: "n < bound"
  have digits: "\<forall>c \<in> set (lower_hex n). hex_digit c \<noteq> None" using lower_hex_set by blast
  have "hex_digit (CHR ''+'') = None" "hex_digit (CHR ''-'') = None" by (simp_all add: hex_digit_def)
  then have "CHR ''+'' \<notin> set (lower_hex n)" "CHR ''-'' \<notin> set (lower_hex n)" using digits by auto
  moreover have "hd (lower_hex n) \<in> set (lower_hex n)" using lower_hex_nonempty by (rule hd_in_set)
  ultimately have "hd (lower_hex n) \<noteq> CHR ''+''" "lower_hex n \<noteq> ''+''" "lower_hex n \<noteq> ''-''" by auto
  then show ?thesis using n lower_hex_nonempty by (simp add: from_str_radix16_def radix16_lower_hex)
qed

lemma trim_lower_hex [simp]: "trim_0x (lower_hex n) = lower_hex n"
  using trim_0x_id [of "lower_hex n"] lower_hex_set by simp

lemma u64_hex_roundtrip [simp]: "u64_try_from_hex (u64_to_hex n) = Inr n"
  using unsigned_less [of n, where ?'a = nat]
  by (simp add: u64_try_from_hex_def u64_to_hex_def from_str_lower_hex)

lemma u8_hex_roundtrip [simp]: "u8_try_from_hex (u8_to_hex n) = Inr n"
  using unsigned_less [of n, where ?'a = nat]
  by (simp add: u8_try_from_hex_def u8_to_hex_def from_str_lower_hex)

lemma transaction_type_hex_roundtrip [simp]: "transaction_type_try_from_hex (transaction_type_to_hex t) = Inr t"
  using u8_hex_roundtrip [of "transaction_type_as_u8 t"]
  by (simp add: transaction_type_try_from_hex_def transaction_type_to_hex_def u8_to_hex_def transaction_type_roundtrip)

context hex_crates
begin

lemma trim_encode: "trim_0x (bytes_to_hex X bs) = ch_encode X bs"
  unfolding bytes_to_hex_def using trim_0x_prefix encode_digits by blast

lemma vec_hex_roundtrip [simp]: "vec_try_from_hex X (bytes_to_hex X bs) = Inr bs"
  by (simp add: vec_try_from_hex_def trim_encode decode_encode)

lemma array_hex_roundtrip:
  "array_try_from_hex X n (bytes_to_hex X bs) = (if length bs = n then Inr bs else Inl (FixedSizeMismatch n (length bs)))"
  by (simp add: array_try_from_hex_def trim_encode decode_to_array_encode encode_length)

lemma post_state_hex_roundtrip:
  "(case p of PostState h \<Rightarrow> length h = 32 | Status k \<Rightarrow> k = 0 \<or> k = 1) \<Longrightarrow> post_state_try_from_hex X (post_state_to_hex X p) = Inr p"
proof (cases p)
  case (PostState h)
  assume "case p of PostState h \<Rightarrow> length h = 32 | Status k \<Rightarrow> k = 0 \<or> k = 1"
  then have h: "length h = 32" by (simp add: PostState)
  then have "length (bytes_to_hex X h) = 66" by (simp add: bytes_to_hex_def encode_length)
  then have "bytes_to_hex X h \<noteq> ''0x0''" "bytes_to_hex X h \<noteq> ''0x1''" by auto
  then show ?thesis by (simp add: PostState post_state_to_hex_def post_state_try_from_hex_def array_hex_roundtrip h)
next
  case (Status k)
  assume "case p of PostState h \<Rightarrow> length h = 32 | Status k \<Rightarrow> k = 0 \<or> k = 1"
  then show ?thesis
    by (auto simp: Status post_state_to_hex_def post_state_try_from_hex_def u64_to_hex_def lower_hex.simps hex_char_def)
qed

lemma u256_hex_roundtrip [simp]: "u256_try_from_hex X (u256_to_hex X n) = Inr n"
  using trim_0x_prefix [of "bn_lower_hex X n"] lower_hex_digits by (simp add: u256_try_from_hex_def u256_to_hex_def radix_lower_hex)

end


subsection \<open>The accepted strings\<close>

definition hex_value :: "nat \<Rightarrow> string \<Rightarrow> nat" where
  "hex_value acc s = foldl (\<lambda>a c. a * 16 + the (hex_digit c)) acc s"

lemma hex_value_mono: "acc \<le> hex_value acc s"
proof (induction s arbitrary: acc)
  case (Cons c s)
  have "acc \<le> acc * 16 + the (hex_digit c)" by simp
  also have "\<dots> \<le> hex_value acc (c # s)" using Cons by (simp add: hex_value_def)
  finally show ?case .
qed (simp add: hex_value_def)

lemma radix16_loop_Inr:
  "acc < bound \<Longrightarrow> radix16_loop bound acc s = Inr n \<longleftrightarrow>
     (\<forall>c \<in> set s. hex_digit c \<noteq> None) \<and> hex_value acc s = n \<and> n < bound"
proof (induction bound acc s rule: radix16_loop.induct)
  case (2 bound acc c cs)
  have v: "hex_value acc (c # cs) = hex_value (acc * 16 + the (hex_digit c)) cs" by (simp add: hex_value_def)
  show ?case
  proof (cases "hex_digit c")
    case (Some k)
    have "acc * 16 + k \<le> hex_value (acc * 16 + k) cs" by (rule hex_value_mono)
    then show ?thesis using 2 Some by (auto simp: v)
  qed simp
qed (auto simp: hex_value_def)

definition number_digits :: "string \<Rightarrow> string" where
  "number_digits value = (let s = trim_0x value in if s \<noteq> [] \<and> hd s = CHR ''+'' then tl s else s)"

lemma from_str_radix16_Inr:
  assumes "0 < bound" and "digits = number_digits value"
  shows "from_str_radix16 bound (trim_0x value) = Inr n \<longleftrightarrow>
    digits \<noteq> [] \<and> (\<forall>c \<in> set digits. hex_digit c \<noteq> None) \<and> hex_value 0 digits = n \<and> n < bound"
proof (cases "trim_0x value = [] \<or> trim_0x value = ''+'' \<or> trim_0x value = ''-''")
  case True
  have "hex_digit (CHR ''-'') = None" by (simp add: hex_digit_def)
  then show ?thesis using True assms(2) by (auto simp: from_str_radix16_def number_digits_def)
next
  case False
  then have "digits \<noteq> []" using assms(2) by (cases "trim_0x value") (auto simp: number_digits_def Let_def)
  moreover have "from_str_radix16 bound (trim_0x value) = radix16_loop bound 0 digits"
    using False assms(2) by (simp add: from_str_radix16_def number_digits_def Let_def)
  ultimately show ?thesis using radix16_loop_Inr [OF assms(1), of digits n] by simp
qed

subsection \<open>A concrete instance\<close>

definition plain_byte_hex :: "u8 \<Rightarrow> string" where
  "plain_byte_hex b = [hex_char (unat b div 16), hex_char (unat b mod 16)]"

fun plain_decode :: "string \<Rightarrow> from_hex_error + bytes" where
  "plain_decode [] = Inr []"
| "plain_decode [c] = Inl HexOddLength"
| "plain_decode (a # b # cs) =
     (case (hex_digit a, hex_digit b) of
        (Some x, Some y) \<Rightarrow> map_ok (\<lambda>bs. of_nat (x * 16 + y) # bs) (plain_decode cs)
      | _ \<Rightarrow> Inl InvalidHexCharacter)"

definition plain_hex :: hex_api where
  "plain_hex =
     \<lparr>ch_encode = (\<lambda>bs. concat (map plain_byte_hex bs)), ch_decode = plain_decode,
      ch_decode_to_array = (\<lambda>n s. res_bind (plain_decode s) (\<lambda>bs. if length bs = n then Inr bs else Inl InvalidStringLength)),
      bn_lower_hex = (\<lambda>n. lower_hex (unat n)),
      bn_from_str_radix16 = (\<lambda>s. map_ok of_nat (from_str_radix16 (2 ^ 256) s))\<rparr>"

lemma byte_digits: "unat (b :: u8) div 16 < 16" "unat b mod 16 < 16"
  using unsigned_less [of b, where ?'a = nat] by simp_all

lemma plain_decode_encode: "plain_decode (concat (map plain_byte_hex bs)) = Inr bs"
  by (induction bs) (simp_all add: plain_byte_hex_def hex_digit_char byte_digits)

interpretation plain_hex_crates: hex_crates plain_hex
proof (unfold_locales, goal_cases)
  case (1 c bs)
  then show ?case using hex_digit_char byte_digits by (auto simp: plain_hex_def plain_byte_hex_def)
next
  case (2 bs)
  then show ?case by (induction bs) (simp_all add: plain_hex_def plain_byte_hex_def)
next
  case (5 c m)
  then show ?case using lower_hex_set by (simp add: plain_hex_def)
next
  case (6 m)
  have "unat m < 2 ^ 256" using unsigned_less [of m, where ?'a = nat] by simp
  then show ?case by (simp only: plain_hex_def hex_api.simps from_str_lower_hex map_ok_simps) simp
qed (simp_all add: plain_hex_def plain_decode_encode)

subsection \<open>Properties\<close>

text \<open>C39: every value that JSON-RPC messages carry in hexadecimal is read back from its own
  representation: numbers of 8, 64 and 256 bits, byte strings, byte arrays of the right length
  and the status or post state of a receipt with a status below two; an array of another length
  is refused. A string is read as a 64-bit number exactly if, after any number of prefixes
  \<open>0x\<close> and one plus sign, it is a non-empty string of hexadecimal digits whose value is
  below 2^64, and then as that value.\<close>

theorem hex_convert_correct:
  assumes "hex_crates X"
  shows "u8_try_from_hex (u8_to_hex b) = Inr b \<and> u64_try_from_hex (u64_to_hex n) = Inr n \<and>
    u256_try_from_hex X (u256_to_hex X m) = Inr m \<and> vec_try_from_hex X (bytes_to_hex X bs) = Inr bs \<and>
    array_try_from_hex X k (bytes_to_hex X bs) = (if length bs = k then Inr bs else Inl (FixedSizeMismatch k (length bs))) \<and>
    transaction_type_try_from_hex (transaction_type_to_hex t) = Inr t \<and>
    ((case p of PostState h \<Rightarrow> length h = 32 | Status s \<Rightarrow> s = 0 \<or> s = 1) \<longrightarrow>
       post_state_try_from_hex X (post_state_to_hex X p) = Inr p) \<and>
    (u64_try_from_hex value = Inr n \<longleftrightarrow>
       number_digits value \<noteq> [] \<and> (\<forall>c \<in> set (number_digits value). hex_digit c \<noteq> None) \<and>
       hex_value 0 (number_digits value) = unat n)"
proof -
  have "u64_try_from_hex value = Inr n \<longleftrightarrow> from_str_radix16 (2 ^ 64) (trim_0x value) = Inr (unat n)"
  proof -
    have "k = unat n" if "n = of_nat k" "from_str_radix16 (2 ^ 64) (trim_0x value) = Inr k" for k
      using from_str_radix16_Inr [of "2 ^ 64" _ "value" k] that by (auto simp: unat_of_nat)
    then show ?thesis unfolding u64_try_from_hex_def by auto
  qed
  moreover have "unat n < 2 ^ 64" using unsigned_less [of n, where ?'a = nat] by simp
  ultimately show ?thesis
    using from_str_radix16_Inr [of "2 ^ 64" "number_digits value" "value" "unat n"] assms
    by (simp add: hex_crates.u256_hex_roundtrip hex_crates.vec_hex_roundtrip hex_crates.array_hex_roundtrip
        hex_crates.post_state_hex_roundtrip)
qed

theorem hex_convert_correct_witness:
  "u64_try_from_hex ''0x0x+10'' = Inr 16 \<and> array_try_from_hex plain_hex 2 (bytes_to_hex plain_hex [18, 52]) = Inr [18, 52]"
proof -
  have "number_digits ''0x0x+10'' \<noteq> [] \<and> (\<forall>c \<in> set (number_digits ''0x0x+10''). hex_digit c \<noteq> None) \<and>
      hex_value 0 (number_digits ''0x0x+10'') = 16" by code_simp
  then show ?thesis
    using hex_convert_correct [OF plain_hex_crates.hex_crates_axioms, of 0 16 0 "[18, 52]" 2 Legacy "Status 0" "''0x0x+10''"] by simp
qed

end
