(* ===== verification/Json.thy ===== *)
theory Json
  imports Header Hex
begin

section \<open>JSON representations\<close>

text \<open>
  The types \<open>Json...\<close> of bertha-types, through which headers, transactions, receipts, logs,
  withdrawals and blocks are read from and written to JSON-RPC messages. A record of this theory
  holds the fields of the JSON object as \<open>AsHex\<close> (as\_hex.rs) writes them, that is as
  hexadecimal strings; the names of the fields and the text of the message belong to the crates
  serde and serde\_json. A field that may be left out is an option. The fields are read in the
  order of the structures. Shown: what is written can be read again, except for transactions
  whose kind has no gas price, which the reader demands.
\<close>

datatype json_error =
    JsonHex parse_hex_error
  | MissingField string
  | JsonInvalid transaction_error

subsection \<open>Hexadecimal fields (as\_hex.rs)\<close>

definition u64_hex :: "string \<Rightarrow> json_error + u64" where
  "u64_hex s = map_err JsonHex (u64_try_from_hex s)"

definition u8_hex :: "string \<Rightarrow> json_error + u8" where
  "u8_hex s = map_err JsonHex (u8_try_from_hex s)"

definition u256_hex :: "hex_api \<Rightarrow> string \<Rightarrow> json_error + u256" where
  "u256_hex X s = map_err JsonHex (u256_try_from_hex X s)"

definition array_hex :: "hex_api \<Rightarrow> nat \<Rightarrow> string \<Rightarrow> json_error + bytes" where
  "array_hex X n s = map_err JsonHex (array_try_from_hex X n s)"

definition vec_hex :: "hex_api \<Rightarrow> string \<Rightarrow> json_error + bytes" where
  "vec_hex X s = map_err JsonHex (vec_try_from_hex X s)"

definition transaction_type_hex :: "string \<Rightarrow> json_error + transaction_type" where
  "transaction_type_hex s = map_err JsonHex (transaction_type_try_from_hex s)"

definition required :: "string \<Rightarrow> 'a option \<Rightarrow> json_error + 'a" where
  "required name field = (case field of None \<Rightarrow> Inl (MissingField name) | Some v \<Rightarrow> Inr v)"

text \<open>A field with a default: \<open>dflt\<close> if it is left out, for some fields also if it is null
  (\<open>deserialize_null\<close>).\<close>

definition defaulted :: "'b \<Rightarrow> ('a \<Rightarrow> json_error + 'b) \<Rightarrow> 'a option \<Rightarrow> json_error + 'b" where
  "defaulted dflt read field = (case field of None \<Rightarrow> Inr dflt | Some v \<Rightarrow> read v)"

subsection \<open>Structures\<close>

record json_access_list_entry =
  ja_address :: string
  ja_storage_keys :: "string list"

definition access_list_entry_to_json :: "hex_api \<Rightarrow> access_list_entry \<Rightarrow> json_access_list_entry" where
  "access_list_entry_to_json X v =
     \<lparr>ja_address = bytes_to_hex X (ale_address v),
      ja_storage_keys = map (bytes_to_hex X) (ale_storage_keys v)\<rparr>"

definition access_list_entry_of_json :: "hex_api \<Rightarrow> json_access_list_entry \<Rightarrow> json_error + access_list_entry" where
  "access_list_entry_of_json X j =
     res_bind (array_hex X 20 (ja_address j)) (\<lambda>address.
     res_bind (collect_results (map (array_hex X 32) (ja_storage_keys j))) (\<lambda>storage_keys.
       Inr \<lparr>ale_address = address, ale_storage_keys = storage_keys\<rparr>))"

record json_set_code_authorization =
  js_chain_id :: string
  js_address :: string
  js_nonce :: string
  js_y_parity :: string
  js_r :: string
  js_s :: string

definition authorization_to_json :: "hex_api \<Rightarrow> set_code_authorization \<Rightarrow> json_set_code_authorization" where
  "authorization_to_json X v =
     \<lparr>js_chain_id = u256_to_hex X (sca_chain_id v), js_address = bytes_to_hex X (sca_address v),
      js_nonce = u64_to_hex (sca_nonce v), js_y_parity = u8_to_hex (sca_y_parity v), js_r = u256_to_hex X (sca_r v),
      js_s = u256_to_hex X (sca_s v)\<rparr>"

definition authorization_of_json :: "hex_api \<Rightarrow> json_set_code_authorization \<Rightarrow> json_error + set_code_authorization" where
  "authorization_of_json X j =
     res_bind (u256_hex X (js_chain_id j)) (\<lambda>chain_id.
     res_bind (array_hex X 20 (js_address j)) (\<lambda>address.
     res_bind (u64_hex (js_nonce j)) (\<lambda>nonce.
     res_bind (u8_hex (js_y_parity j)) (\<lambda>y_parity.
     res_bind (u256_hex X (js_r j)) (\<lambda>r.
     res_bind (u256_hex X (js_s j)) (\<lambda>s.
       Inr \<lparr>sca_chain_id = chain_id, sca_address = address, sca_nonce = nonce, sca_y_parity = y_parity,
            sca_r = r, sca_s = s\<rparr>))))))"

record json_withdrawal =
  jw_index :: string
  jw_validator_index :: string
  jw_address :: string
  jw_amount :: string

definition withdrawal_to_json :: "hex_api \<Rightarrow> withdrawal \<Rightarrow> json_withdrawal" where
  "withdrawal_to_json X v =
     \<lparr>jw_index = u64_to_hex (wd_index v), jw_validator_index = u64_to_hex (wd_validator_index v),
      jw_address = bytes_to_hex X (wd_address v), jw_amount = u64_to_hex (wd_amount v)\<rparr>"

definition withdrawal_of_json :: "hex_api \<Rightarrow> json_withdrawal \<Rightarrow> json_error + withdrawal" where
  "withdrawal_of_json X j =
     res_bind (u64_hex (jw_index j)) (\<lambda>index.
     res_bind (u64_hex (jw_validator_index j)) (\<lambda>validator_index.
     res_bind (array_hex X 20 (jw_address j)) (\<lambda>address.
     res_bind (u64_hex (jw_amount j)) (\<lambda>amount.
       Inr \<lparr>wd_index = index, wd_validator_index = validator_index, wd_address = address,
            wd_amount = amount\<rparr>))))"

record json_log =
  jl_address :: string
  jl_topics :: "string list"
  jl_data :: string

definition log_to_json :: "hex_api \<Rightarrow> log_entry \<Rightarrow> json_log" where
  "log_to_json X v =
     \<lparr>jl_address = bytes_to_hex X (log_address v), jl_topics = map (bytes_to_hex X) (log_topics v),
      jl_data = bytes_to_hex X (log_data v)\<rparr>"

definition log_of_json :: "hex_api \<Rightarrow> json_log \<Rightarrow> json_error + log_entry" where
  "log_of_json X j =
     res_bind (array_hex X 20 (jl_address j)) (\<lambda>address.
     res_bind (collect_results (map (array_hex X 32) (jl_topics j))) (\<lambda>topics.
     res_bind (vec_hex X (jl_data j)) (\<lambda>data.
       Inr \<lparr>log_address = address, log_topics = topics, log_data = data\<rparr>)))"

record json_header =
  jh_parent_hash :: string
  jh_sha3_uncles :: string
  jh_miner :: string
  jh_state_root :: string
  jh_transactions_root :: string
  jh_receipts_root :: string
  jh_logs_bloom :: string
  jh_difficulty :: string
  jh_number :: string
  jh_gas_limit :: string
  jh_gas_used :: string
  jh_timestamp :: string
  jh_extra_data :: string
  jh_mix_hash :: string
  jh_nonce :: string
  jh_base_fee_per_gas :: "string option"
  jh_withdrawals_root :: "string option"
  jh_blob_gas_used :: "string option"
  jh_excess_blob_gas :: "string option"
  jh_parent_beacon_block_root :: "string option"
  jh_requests_hash :: "string option"

definition header_to_json :: "hex_api \<Rightarrow> block_header \<Rightarrow> json_header" where
  "header_to_json X v =
     \<lparr>jh_parent_hash = bytes_to_hex X (bh_parent_hash v), jh_sha3_uncles = bytes_to_hex X (bh_ommers_hash v),
      jh_miner = bytes_to_hex X (bh_beneficiary v), jh_state_root = bytes_to_hex X (bh_state_root v),
      jh_transactions_root = bytes_to_hex X (bh_transactions_root v),
      jh_receipts_root = bytes_to_hex X (bh_receipts_root v), jh_logs_bloom = bytes_to_hex X (bh_logs_bloom v),
      jh_difficulty = u256_to_hex X (bh_difficulty v), jh_number = u64_to_hex (bh_number v),
      jh_gas_limit = u64_to_hex (bh_gas_limit v), jh_gas_used = u64_to_hex (bh_gas_used v),
      jh_timestamp = u64_to_hex (bh_timestamp v), jh_extra_data = bytes_to_hex X (bh_extra_data v),
      jh_mix_hash = bytes_to_hex X (bh_prev_randao v), jh_nonce = bytes_to_hex X (bh_nonce v),
      jh_base_fee_per_gas = map_option (u256_to_hex X) (bh_base_fee_per_gas v),
      jh_withdrawals_root = map_option (bytes_to_hex X) (bh_withdrawals_root v),
      jh_blob_gas_used = map_option u64_to_hex (bh_blob_gas_used v),
      jh_excess_blob_gas = map_option u64_to_hex (bh_excess_blob_gas v),
      jh_parent_beacon_block_root = map_option (bytes_to_hex X) (bh_parent_beacon_block_root v),
      jh_requests_hash = map_option (bytes_to_hex X) (bh_requests_hash v)\<rparr>"

definition header_of_json :: "hex_api \<Rightarrow> json_header \<Rightarrow> json_error + block_header" where
  "header_of_json X j =
     res_bind (array_hex X 32 (jh_parent_hash j)) (\<lambda>parent_hash.
     res_bind (array_hex X 32 (jh_sha3_uncles j)) (\<lambda>sha3_uncles.
     res_bind (array_hex X 20 (jh_miner j)) (\<lambda>miner.
     res_bind (array_hex X 32 (jh_state_root j)) (\<lambda>state_root.
     res_bind (array_hex X 32 (jh_transactions_root j)) (\<lambda>transactions_root.
     res_bind (array_hex X 32 (jh_receipts_root j)) (\<lambda>receipts_root.
     res_bind (array_hex X 256 (jh_logs_bloom j)) (\<lambda>logs_bloom.
     res_bind (u256_hex X (jh_difficulty j)) (\<lambda>difficulty.
     res_bind (u64_hex (jh_number j)) (\<lambda>number.
     res_bind (u64_hex (jh_gas_limit j)) (\<lambda>gas_limit.
     res_bind (u64_hex (jh_gas_used j)) (\<lambda>gas_used.
     res_bind (u64_hex (jh_timestamp j)) (\<lambda>timestamp.
     res_bind (vec_hex X (jh_extra_data j)) (\<lambda>extra_data.
     res_bind (array_hex X 32 (jh_mix_hash j)) (\<lambda>mix_hash.
     res_bind (array_hex X 8 (jh_nonce j)) (\<lambda>nonce.
     res_bind (opt_transpose (map_option (u256_hex X) (jh_base_fee_per_gas j))) (\<lambda>base_fee_per_gas.
     res_bind (opt_transpose (map_option (array_hex X 32) (jh_withdrawals_root j))) (\<lambda>withdrawals_root.
     res_bind (opt_transpose (map_option u64_hex (jh_blob_gas_used j))) (\<lambda>blob_gas_used.
     res_bind (opt_transpose (map_option u64_hex (jh_excess_blob_gas j))) (\<lambda>excess_blob_gas.
     res_bind (opt_transpose (map_option (array_hex X 32) (jh_parent_beacon_block_root j))) (\<lambda>parent_beacon_block_root.
     res_bind (opt_transpose (map_option (array_hex X 32) (jh_requests_hash j))) (\<lambda>requests_hash.
       Inr \<lparr>bh_parent_hash = parent_hash, bh_ommers_hash = sha3_uncles, bh_beneficiary = miner,
            bh_state_root = state_root, bh_transactions_root = transactions_root, bh_receipts_root = receipts_root,
            bh_logs_bloom = logs_bloom, bh_difficulty = difficulty, bh_number = number, bh_gas_limit = gas_limit,
            bh_gas_used = gas_used, bh_timestamp = timestamp, bh_extra_data = extra_data, bh_prev_randao = mix_hash,
            bh_nonce = nonce, bh_base_fee_per_gas = base_fee_per_gas, bh_withdrawals_root = withdrawals_root,
            bh_blob_gas_used = blob_gas_used, bh_excess_blob_gas = excess_blob_gas,
            bh_parent_beacon_block_root = parent_beacon_block_root,
            bh_requests_hash = requests_hash\<rparr>)))))))))))))))))))))"

subsection \<open>Receipts\<close>

record json_receipt =
  jr_transaction_type :: string
  jr_status :: string
  jr_post_state :: "string option"
  jr_cumulative_gas_used :: string
  jr_logs_bloom :: string
  jr_logs :: "json_log list"

definition receipt_to_json :: "eth \<Rightarrow> hex_api \<Rightarrow> transaction_receipt \<Rightarrow> json_receipt" where
  "receipt_to_json E X v =
     (let (post_state, status) =
        (case tr_post_state_or_status v of
           PostState root \<Rightarrow> (Some (bytes_to_hex X root), u64_to_hex 0)
         | Status status \<Rightarrow> (None, u64_to_hex status))
      in \<lparr>jr_transaction_type = transaction_type_to_hex (tr_transaction_type v), jr_status = status, jr_post_state = post_state,
          jr_cumulative_gas_used = u64_to_hex (tr_cumulative_gas_used v), jr_logs_bloom = bytes_to_hex X (logs_bloom E v),
          jr_logs = map (log_to_json X) (tr_logs v)\<rparr>)"

definition receipt_of_json :: "hex_api \<Rightarrow> json_receipt \<Rightarrow> json_error + transaction_receipt" where
  "receipt_of_json X j =
     res_bind (transaction_type_hex (jr_transaction_type j)) (\<lambda>transaction_type.
     res_bind (u64_hex (jr_status j)) (\<lambda>status.
     res_bind (opt_transpose (map_option (vec_hex X) (jr_post_state j))) (\<lambda>post_state.
     res_bind (u64_hex (jr_cumulative_gas_used j)) (\<lambda>cumulative_gas_used.
     res_bind (array_hex X 256 (jr_logs_bloom j)) (\<lambda>_.
     res_bind (collect_results (map (log_of_json X) (jr_logs j))) (\<lambda>logs.
       Inr \<lparr>tr_transaction_type = transaction_type,
            tr_post_state_or_status =
              (case post_state of
                 Some root \<Rightarrow> if length root = 32 then PostState root else Status status
               | None \<Rightarrow> Status status),
            tr_cumulative_gas_used = cumulative_gas_used, tr_logs = logs\<rparr>))))))"

subsection \<open>Transactions\<close>

record json_transaction =
  jt_type :: "string option"
  jt_chain_id :: "string option"
  jt_nonce :: "string option"
  jt_gas_price :: "string option"
  jt_gas :: "string option"
  jt_to :: "string option"
  jt_value :: "string option"
  jt_input :: "string option"
  jt_access_list :: "json_access_list_entry list option"
  jt_max_priority_fee_per_gas :: "string option"
  jt_max_fee_per_gas :: "string option"
  jt_blob_versioned_hashes :: "string list option"
  jt_max_fee_per_blob_gas :: "string option"
  jt_authorization_list :: "json_set_code_authorization list option"
  jt_v :: "string option"
  jt_r :: "string option"
  jt_s :: "string option"

text \<open>Reading: the fields of \<open>JsonRpcTransaction\<close> and \<open>Transaction::try_from\<close>.\<close>

definition transaction_of_json :: "hex_api \<Rightarrow> json_transaction \<Rightarrow> json_error + transaction" where
  "transaction_of_json X j =
     res_bind (res_bind (required ''type'' (jt_type j)) transaction_type_hex) (\<lambda>transaction_type.
     res_bind (defaulted 0 (u256_hex X) (jt_chain_id j)) (\<lambda>chain_id.
     res_bind (res_bind (required ''nonce'' (jt_nonce j)) u64_hex) (\<lambda>nonce.
     res_bind (res_bind (required ''gasPrice'' (jt_gas_price j)) (u256_hex X)) (\<lambda>gas_price.
     res_bind (res_bind (required ''gas'' (jt_gas j)) u64_hex) (\<lambda>gas.
     res_bind (opt_transpose (map_option (array_hex X 20) (jt_to j))) (\<lambda>dest.
     res_bind (res_bind (required ''value'' (jt_value j)) (u256_hex X)) (\<lambda>value.
     res_bind (res_bind (required ''input'' (jt_input j)) (vec_hex X)) (\<lambda>input.
     res_bind (defaulted [] (\<lambda>l. collect_results (map (access_list_entry_of_json X) l)) (jt_access_list j)) (\<lambda>access_list.
     res_bind (defaulted 0 (u256_hex X) (jt_max_priority_fee_per_gas j)) (\<lambda>max_priority_fee_per_gas.
     res_bind (defaulted 0 (u256_hex X) (jt_max_fee_per_gas j)) (\<lambda>max_fee_per_gas.
     res_bind (defaulted [] (\<lambda>l. collect_results (map (array_hex X 32) l)) (jt_blob_versioned_hashes j)) (\<lambda>blob_versioned_hashes.
     res_bind (defaulted 0 (u256_hex X) (jt_max_fee_per_blob_gas j)) (\<lambda>max_fee_per_blob_gas.
     res_bind (defaulted [] (\<lambda>l. collect_results (map (authorization_of_json X) l)) (jt_authorization_list j)) (\<lambda>authorization_list.
     res_bind (res_bind (required ''v'' (jt_v j)) (u256_hex X)) (\<lambda>v.
     res_bind (res_bind (required ''r'' (jt_r j)) (u256_hex X)) (\<lambda>r.
     res_bind (res_bind (required ''s'' (jt_s j)) (u256_hex X)) (\<lambda>s.
       let tx = \<lparr>tx_transaction_type = transaction_type, tx_chain_id = chain_id, tx_nonce = nonce, tx_gas_price = gas_price,
                 tx_gas_limit = gas, tx_to = dest, tx_value = value, tx_data = input, tx_access_list = access_list,
                 tx_max_fee_per_gas = max_fee_per_gas, tx_max_priority_fee_per_gas = max_priority_fee_per_gas,
                 tx_blob_versioned_hashes = blob_versioned_hashes, tx_max_fee_per_blob_gas = max_fee_per_blob_gas,
                 tx_authorization_list = authorization_list, tx_y_parity = v, tx_r = r, tx_s = s\<rparr>
       in res_bind (map_err JsonInvalid (is_valid tx)) (\<lambda>_. Inr tx))))))))))))))))))"

text \<open>Writing: the transaction is converted to the structure of its kind, which writes only its
  own fields. \<open>base_fields\<close> are those that all kinds have.\<close>

definition base_fields :: "hex_api \<Rightarrow> transaction \<Rightarrow> json_transaction" where
  "base_fields X tx =
     \<lparr>jt_type = Some (transaction_type_to_hex (tx_transaction_type tx)), jt_chain_id = None, jt_nonce = Some (u64_to_hex (tx_nonce tx)),
      jt_gas_price = None, jt_gas = Some (u64_to_hex (tx_gas_limit tx)), jt_to = map_option (bytes_to_hex X) (tx_to tx),
      jt_value = Some (u256_to_hex X (tx_value tx)), jt_input = Some (bytes_to_hex X (tx_data tx)), jt_access_list = None,
      jt_max_priority_fee_per_gas = None, jt_max_fee_per_gas = None, jt_blob_versioned_hashes = None,
      jt_max_fee_per_blob_gas = None, jt_authorization_list = None, jt_v = Some (u256_to_hex X (tx_y_parity tx)),
      jt_r = Some (u256_to_hex X (tx_r tx)), jt_s = Some (u256_to_hex X (tx_s tx))\<rparr>"

definition fee_fields :: "hex_api \<Rightarrow> transaction \<Rightarrow> json_transaction \<Rightarrow> json_transaction" where
  "fee_fields X tx j =
     j\<lparr>jt_chain_id := Some (u256_to_hex X (tx_chain_id tx)),
       jt_max_priority_fee_per_gas := Some (u256_to_hex X (tx_max_priority_fee_per_gas tx)),
       jt_max_fee_per_gas := Some (u256_to_hex X (tx_max_fee_per_gas tx)),
       jt_access_list := Some (map (access_list_entry_to_json X) (tx_access_list tx))\<rparr>"

definition transaction_to_json :: "hex_api \<Rightarrow> transaction \<Rightarrow> transaction_error + json_transaction" where
  "transaction_to_json X tx =
     res_bind (is_valid tx) (\<lambda>_. Inr
       (case tx_transaction_type tx of
          Legacy \<Rightarrow> (base_fields X tx)\<lparr>jt_gas_price := Some (u256_to_hex X (tx_gas_price tx))\<rparr>
        | AccessList \<Rightarrow>
            (base_fields X tx)\<lparr>jt_chain_id := Some (u256_to_hex X (tx_chain_id tx)), jt_gas_price := Some (u256_to_hex X (tx_gas_price tx)),
              jt_access_list := Some (map (access_list_entry_to_json X) (tx_access_list tx))\<rparr>
        | DynamicFee \<Rightarrow> fee_fields X tx (base_fields X tx)
        | Blob \<Rightarrow>
            (fee_fields X tx (base_fields X tx))\<lparr>jt_max_fee_per_blob_gas := Some (u256_to_hex X (tx_max_fee_per_blob_gas tx)),
              jt_blob_versioned_hashes := Some (map (bytes_to_hex X) (tx_blob_versioned_hashes tx))\<rparr>
        | SetCode \<Rightarrow>
            (fee_fields X tx (base_fields X tx))\<lparr>jt_authorization_list := Some (map (authorization_to_json X) (tx_authorization_list tx))\<rparr>))"

subsection \<open>Blocks\<close>

record json_block =
  jb_parent_hash :: string
  jb_sha3_uncles :: string
  jb_miner :: string
  jb_state_root :: string
  jb_difficulty :: string
  jb_number :: string
  jb_gas_limit :: string
  jb_timestamp :: string
  jb_extra_data :: string
  jb_mix_hash :: string
  jb_nonce :: string
  jb_transactions :: "json_transaction list"
  jb_receipts :: "json_receipt list"
  jb_base_fee_per_gas :: "string option"
  jb_withdrawals_root :: "string option"
  jb_blob_gas_used :: "string option"
  jb_excess_blob_gas :: "string option"
  jb_parent_beacon_block_root :: "string option"
  jb_requests_hash :: "string option"
  jb_withdrawals :: "json_withdrawal list option"

definition block_to_json :: "eth \<Rightarrow> hex_api \<Rightarrow> block \<Rightarrow> transaction_error + json_block" where
  "block_to_json E X b =
     res_bind (collect_results (map (transaction_to_json X) (b_transactions b))) (\<lambda>transactions. Inr
       \<lparr>jb_parent_hash = bytes_to_hex X (b_parent_hash b), jb_sha3_uncles = bytes_to_hex X (b_ommers_hash b),
        jb_miner = bytes_to_hex X (b_beneficiary b), jb_state_root = bytes_to_hex X (b_state_root b),
        jb_difficulty = u64_to_hex (b_difficulty b), jb_number = u64_to_hex (b_number b),
        jb_gas_limit = u64_to_hex (b_gas_limit b), jb_timestamp = u64_to_hex (b_timestamp b),
        jb_extra_data = bytes_to_hex X (b_extra_data b), jb_mix_hash = bytes_to_hex X (b_prev_randao b),
        jb_nonce = bytes_to_hex X (b_nonce b), jb_transactions = transactions,
        jb_receipts = map (receipt_to_json E X) (b_receipts b),
        jb_base_fee_per_gas = map_option (u256_to_hex X) (b_base_fee_per_gas b),
        jb_withdrawals_root = map_option (bytes_to_hex X) (b_withdrawals_root b),
        jb_blob_gas_used = map_option u64_to_hex (b_blob_gas_used b),
        jb_excess_blob_gas = map_option u64_to_hex (b_excess_blob_gas b),
        jb_parent_beacon_block_root = map_option (bytes_to_hex X) (b_parent_beacon_block_root b),
        jb_requests_hash = map_option (bytes_to_hex X) (b_requests_hash b),
        jb_withdrawals = Some (map (withdrawal_to_json X) (b_withdrawals b))\<rparr>)"

definition block_of_json :: "hex_api \<Rightarrow> json_block \<Rightarrow> json_error + block" where
  "block_of_json X j =
     res_bind (array_hex X 32 (jb_parent_hash j)) (\<lambda>parent_hash.
     res_bind (array_hex X 32 (jb_sha3_uncles j)) (\<lambda>sha3_uncles.
     res_bind (array_hex X 20 (jb_miner j)) (\<lambda>miner.
     res_bind (array_hex X 32 (jb_state_root j)) (\<lambda>state_root.
     res_bind (u64_hex (jb_difficulty j)) (\<lambda>difficulty.
     res_bind (u64_hex (jb_number j)) (\<lambda>number.
     res_bind (u64_hex (jb_gas_limit j)) (\<lambda>gas_limit.
     res_bind (u64_hex (jb_timestamp j)) (\<lambda>timestamp.
     res_bind (vec_hex X (jb_extra_data j)) (\<lambda>extra_data.
     res_bind (array_hex X 32 (jb_mix_hash j)) (\<lambda>mix_hash.
     res_bind (array_hex X 8 (jb_nonce j)) (\<lambda>nonce.
     res_bind (collect_results (map (transaction_of_json X) (jb_transactions j))) (\<lambda>transactions.
     res_bind (collect_results (map (receipt_of_json X) (jb_receipts j))) (\<lambda>receipts.
     res_bind (opt_transpose (map_option (u256_hex X) (jb_base_fee_per_gas j))) (\<lambda>base_fee_per_gas.
     res_bind (opt_transpose (map_option (array_hex X 32) (jb_withdrawals_root j))) (\<lambda>withdrawals_root.
     res_bind (opt_transpose (map_option u64_hex (jb_blob_gas_used j))) (\<lambda>blob_gas_used.
     res_bind (opt_transpose (map_option u64_hex (jb_excess_blob_gas j))) (\<lambda>excess_blob_gas.
     res_bind (opt_transpose (map_option (array_hex X 32) (jb_parent_beacon_block_root j))) (\<lambda>parent_beacon_block_root.
     res_bind (opt_transpose (map_option (array_hex X 32) (jb_requests_hash j))) (\<lambda>requests_hash.
     res_bind (defaulted [] (\<lambda>l. collect_results (map (withdrawal_of_json X) l)) (jb_withdrawals j)) (\<lambda>withdrawals.
       Inr \<lparr>b_parent_hash = parent_hash, b_ommers_hash = sha3_uncles, b_beneficiary = miner,
            b_state_root = state_root, b_difficulty = difficulty, b_number = number, b_gas_limit = gas_limit,
            b_timestamp = timestamp, b_extra_data = extra_data, b_prev_randao = mix_hash, b_nonce = nonce,
            b_transactions = transactions, b_receipts = receipts, b_base_fee_per_gas = base_fee_per_gas,
            b_withdrawals_root = withdrawals_root, b_withdrawals = withdrawals, b_blob_gas_used = blob_gas_used,
            b_excess_blob_gas = excess_blob_gas, b_parent_beacon_block_root = parent_beacon_block_root,
            b_requests_hash = requests_hash, b_ommer_headers = [], b_verkle_state_root = None,
            b_binary_state_root = None\<rparr>))))))))))))))))))))"

subsection \<open>Round trips\<close>

lemma collect_results_inverse: "\<forall>x \<in> set xs. f (g x) = Inr (h x) \<Longrightarrow> collect_results (map f (map g xs)) = Inr (map h xs)"
  by (induction xs) auto

lemma opt_transpose_inverse: "pred_option (\<lambda>x. f (g x) = Inr x) v \<Longrightarrow> opt_transpose (map_option f (map_option g v)) = Inr v"
  by (cases v) simp_all

context hex_crates
begin

lemma hex_fields [simp]:
  "u64_hex (u64_to_hex n) = Inr n" "u8_hex (u8_to_hex b) = Inr b" "u256_hex X (u256_to_hex X m) = Inr m"
  "vec_hex X (bytes_to_hex X bs) = Inr bs" "transaction_type_hex (transaction_type_to_hex t) = Inr t"
  by (simp_all add: u64_hex_def u8_hex_def u256_hex_def vec_hex_def transaction_type_hex_def)

lemma array_hex_field [simp]: "len_ok n bs \<Longrightarrow> array_hex X n (bytes_to_hex X bs) = Inr bs"
  by (simp add: array_hex_def array_hex_roundtrip len_ok_def)

lemma array_hex_list [simp]: "list_all (len_ok n) hs \<Longrightarrow> collect_results (map (array_hex X n) (map (bytes_to_hex X) hs)) = Inr hs"
  using collect_results_inverse [of hs "array_hex X n" "bytes_to_hex X" "\<lambda>x. x"] by (auto simp: list_all_iff)

lemma hex_options [simp]:
  "opt_transpose (map_option u64_hex (map_option u64_to_hex v)) = Inr v"
  "opt_transpose (map_option (u256_hex X) (map_option (u256_to_hex X) w)) = Inr w"
  "pred_option (len_ok n) a \<Longrightarrow> opt_transpose (map_option (array_hex X n) (map_option (bytes_to_hex X) a)) = Inr a"
  by (rule opt_transpose_inverse, simp add: option.pred_True)+
    (rule opt_transpose_inverse, auto elim: option.pred_mono_strong)

lemma access_list_entry_json [simp]: "wf_access_list_entry v \<Longrightarrow> access_list_entry_of_json X (access_list_entry_to_json X v) = Inr v"
  by (simp add: wf_access_list_entry_def access_list_entry_of_json_def access_list_entry_to_json_def del: map_map list.map_comp)

lemma authorization_json [simp]: "wf_authorization v \<Longrightarrow> authorization_of_json X (authorization_to_json X v) = Inr v"
  by (simp add: wf_authorization_def authorization_of_json_def authorization_to_json_def)

lemma withdrawal_json [simp]: "len_ok 20 (wd_address v) \<Longrightarrow> withdrawal_of_json X (withdrawal_to_json X v) = Inr v"
  by (simp add: withdrawal_of_json_def withdrawal_to_json_def)

lemma log_json [simp]: "wf_log v \<Longrightarrow> log_of_json X (log_to_json X v) = Inr v"
  by (simp add: wf_log_def log_of_json_def log_to_json_def del: map_map list.map_comp)

lemma header_json: "wf_header v \<Longrightarrow> header_of_json X (header_to_json X v) = Inr v"
  by (simp add: wf_header_def header_of_json_def header_to_json_def del: option.map_comp)

end


text \<open>The Bloom filter of the crate ethbloom is an array of 256 bytes.\<close>

locale json_crates = hex_crates X for X :: hex_api +
  fixes E :: eth
  assumes bloom_length: "length bl = 256 \<Longrightarrow> length (bloom_accrue E bl x) = 256"
begin

lemma bloom_fold_length: "length bl = 256 \<Longrightarrow> length (foldl (bloom_accrue E) bl xs) = 256"
  by (induction xs arbitrary: bl) (simp_all add: bloom_length)

lemma logs_fold_length: "length bl = 256 \<Longrightarrow> length (foldl (accrue_log E) bl ls) = 256"
  by (induction ls arbitrary: bl) (simp_all add: accrue_log_def bloom_length bloom_fold_length)

lemma logs_bloom_length: "len_ok 256 (logs_bloom E r)"
  by (simp add: logs_bloom_def len_ok_def zero_bytes_def logs_fold_length)

lemma receipt_json: "wf_receipt v \<Longrightarrow> receipt_of_json X (receipt_to_json E X v) = Inr v"
proof -
  assume wf: "wf_receipt v"
  have "collect_results (map (log_of_json X) (map (log_to_json X) (tr_logs v))) = Inr (map (\<lambda>x. x) (tr_logs v))"
    using wf by (intro collect_results_inverse) (auto simp: wf_receipt_def list_all_iff)
  then show ?thesis
    using wf logs_bloom_length [of v]
    by (cases "tr_post_state_or_status v")
      (auto simp: receipt_of_json_def receipt_to_json_def wf_receipt_def len_ok_def simp del: map_map list.map_comp)
qed

lemma access_list_json:
  "list_all wf_access_list_entry l \<Longrightarrow> collect_results (map (access_list_entry_of_json X) (map (access_list_entry_to_json X) l)) = Inr l"
  using collect_results_inverse [of l "access_list_entry_of_json X" "access_list_entry_to_json X" "\<lambda>x. x"] by (auto simp: list_all_iff)

lemma transaction_json:
  assumes "wf_transaction tx" and "transaction_to_json X tx = Inr j"
  shows "transaction_of_json X j =
    (if tx_transaction_type tx = Legacy \<or> tx_transaction_type tx = AccessList then Inr (kind_only tx) else Inl (MissingField ''gasPrice''))"
proof -
  have "pred_option (len_ok 20) (tx_to tx)" "list_all wf_access_list_entry (tx_access_list tx)"
    using assms(1) by (simp_all add: wf_transaction_def)
  moreover have "is_valid tx = Inr ()" using assms(2) by (simp add: transaction_to_json_def)
  ultimately show ?thesis
    using assms(2)
    by (cases "tx_transaction_type tx")
      (auto simp: transaction_to_json_def transaction_of_json_def base_fields_def fee_fields_def required_def defaulted_def
        access_list_json kind_only_def is_valid_def constructible_defs Let_def simp del: map_map list.map_comp option.map_comp)
qed

end


definition json_readable :: "transaction \<Rightarrow> bool" where
  "json_readable tx \<longleftrightarrow> tx_transaction_type tx = Legacy \<or> tx_transaction_type tx = AccessList"

context json_crates
begin

lemma transactions_json:
  assumes "list_all wf_transaction txs" and "collect_results (map (transaction_to_json X) txs) = Inr js"
  shows "collect_results (map (transaction_of_json X) js) =
    (if list_all json_readable txs then Inr (map kind_only txs) else Inl (MissingField ''gasPrice''))"
  using assms
proof (induction txs arbitrary: js)
  case (Cons tx txs)
  then obtain j js' where j: "js = j # js'" "transaction_to_json X tx = Inr j" "collect_results (map (transaction_to_json X) txs) = Inr js'"
    by (auto split: sum.splits)
  have "wf_transaction tx" "list_all wf_transaction txs" using Cons.prems(1) by simp_all
  then show ?case using transaction_json [of tx j] Cons.IH [of js'] j by (auto simp: json_readable_def)
qed simp

lemma block_json:
  assumes "wf_block b" and "block_to_json E X b = Inr j"
  shows "block_of_json X j =
    (if list_all json_readable (b_transactions b)
     then Inr (b\<lparr>b_transactions := map kind_only (b_transactions b), b_ommer_headers := [], b_verkle_state_root := None,
                 b_binary_state_root := None\<rparr>)
     else Inl (MissingField ''gasPrice''))"
proof -
  obtain txs where txs: "collect_results (map (transaction_to_json X) (b_transactions b)) = Inr txs"
    using assms(2) by (auto simp: block_to_json_def)
  have wf: "list_all wf_transaction (b_transactions b)" "list_all wf_receipt (b_receipts b)"
      "list_all (\<lambda>w. len_ok 20 (wd_address w)) (b_withdrawals b)"
    using assms(1) by (simp_all add: wf_block_def)
  have r: "collect_results (map (receipt_of_json X) (map (receipt_to_json E X) (b_receipts b))) = Inr (map (\<lambda>x. x) (b_receipts b))"
    using wf(2) by (intro collect_results_inverse) (auto simp: list_all_iff receipt_json)
  have w: "collect_results (map (withdrawal_of_json X) (map (withdrawal_to_json X) (b_withdrawals b))) = Inr (map (\<lambda>x. x) (b_withdrawals b))"
    using wf(3) by (intro collect_results_inverse) (auto simp: list_all_iff)
  show ?thesis
    using assms txs transactions_json [OF wf(1) txs] r w
    by (auto simp: block_to_json_def block_of_json_def wf_block_def defaulted_def simp del: map_map list.map_comp option.map_comp)
qed

end

interpretation plain_json: json_crates plain_hex plain_eth
proof
  show "length (bloom_accrue plain_eth bl x) = 256" if "length bl = 256" for bl x
    using that by (simp add: plain_eth_def)
qed

subsection \<open>Properties\<close>

text \<open>What the service writes to JSON for a header, a receipt, a log or a withdrawal is read
  back as the same value, whether the receipt has a status or a post state.\<close>

theorem json_roundtrip:
  assumes "json_crates X E"
  shows "(wf_header h \<longrightarrow> header_of_json X (header_to_json X h) = Inr h) \<and>
    (wf_receipt r \<longrightarrow> receipt_of_json X (receipt_to_json E X r) = Inr r) \<and>
    (wf_log l \<longrightarrow> log_of_json X (log_to_json X l) = Inr l) \<and>
    (len_ok 20 (wd_address w) \<longrightarrow> withdrawal_of_json X (withdrawal_to_json X w) = Inr w)"
proof -
  have "hex_crates X" using assms by (rule json_crates.axioms(1))
  then show ?thesis
    by (simp add: hex_crates.header_json hex_crates.log_json hex_crates.withdrawal_json json_crates.receipt_json [OF assms])
qed

theorem json_roundtrip_witness:
  "header_of_json plain_hex (header_to_json plain_hex default_header) = Inr default_header"
  using json_roundtrip [OF plain_json.json_crates_axioms, of default_header] by simp

text \<open>C40: a block that the service writes to JSON is read back without the ommers and the other
  state roots if all its transactions are legacy or access list transactions; but if one of them
  is of a later kind, reading what was written fails, because these kinds are written without a
  gas price and the reader demands one.\<close>

theorem json_block_gas_price:
  assumes "json_crates X E" and "wf_block b" and "block_to_json E X b = Inr j"
  shows "block_of_json X j =
    (if list_all (\<lambda>tx. tx_transaction_type tx = Legacy \<or> tx_transaction_type tx = AccessList) (b_transactions b)
     then Inr (b\<lparr>b_transactions := map kind_only (b_transactions b), b_ommer_headers := [], b_verkle_state_root := None,
                 b_binary_state_root := None\<rparr>)
     else Inl (MissingField ''gasPrice''))"
  using json_crates.block_json [OF assms] by (simp add: json_readable_def [abs_def])

theorem json_block_gas_price_witness:
  "\<exists>j. block_to_json plain_eth plain_hex (default_block\<lparr>b_transactions := [default_transaction\<lparr>tx_transaction_type := DynamicFee\<rparr>]\<rparr>) = Inr j \<and>
     block_of_json plain_hex j = Inl (MissingField ''gasPrice'')"
proof -
  let ?b = "default_block\<lparr>b_transactions := [default_transaction\<lparr>tx_transaction_type := DynamicFee\<rparr>]\<rparr>"
  have wf: "wf_block ?b"
    by (simp add: wf_block_def default_block_def wf_transaction_def default_transaction_def len_ok_def zero_bytes_def)
  obtain j where j: "block_to_json plain_eth plain_hex ?b = Inr j"
    by (simp add: block_to_json_def transaction_to_json_def is_valid_def constructible_defs default_transaction_def)
  from json_block_gas_price [OF plain_json.json_crates_axioms wf j] j show ?thesis by simp
qed

end
