(* ===== verification/Cmd_Start.thy ===== *)
theory Cmd_Start
  imports Cmd_Import Json
begin

section \<open>Synchronising with a network\<close>

text \<open>
  blockservice/src/json_rpc and blockservice/src/cmd/start.rs: for every configured chain with a
  JSON-RPC server a task asks the server for one block after the other and sends them over a
  channel of 100 items; \<open>sync\<close> takes the items of all channels in some order and stores the
  blocks; \<open>start\<close> runs \<open>sync\<close>, the catch-up of the secondary database and the RPC server
  until one of them fails. Tasks interleave, so the synchronisation is a step relation: each task
  and the receiver take one step at a time, and what the servers answer is a parameter. Time is
  not modelled: a task that sleeps is one that takes no step, and the timeout is only the number
  that the code doubles. Shown: in every reachable state the channels respect their bound and
  hold consecutive blocks, and the database consists of what it held before and, per chain, of
  consecutive blocks of the server from the first missing one on.
\<close>

subsection \<open>Sources (source.rs)\<close>

datatype json_rpc_error =
    JrRpc string
  | JrSerde string
  | JrNotFound

record block_parts =
  pt_header :: block_header
  pt_transactions :: "transaction list"
  pt_withdrawals :: "withdrawal list"

text \<open>The answers that a source can give to the two requests.\<close>

record block_source =
  so_header :: "u64 \<Rightarrow> json_rpc_error + block_parts \<Rightarrow> bool"
  so_receipts :: "u64 \<Rightarrow> json_rpc_error + transaction_receipt list \<Rightarrow> bool"

text \<open>The JSON object of a block: the fields of the header and two lists; the list of withdrawals
  may be left out.\<close>

record json_parts =
  jp_header :: json_header
  jp_transactions :: "json_transaction list"
  jp_withdrawals :: "json_withdrawal list option"

definition parts_of_json :: "hex_api \<Rightarrow> json_parts \<Rightarrow> json_error + block_parts" where
  "parts_of_json X j =
     res_bind (header_of_json X (jp_header j)) (\<lambda>h.
     res_bind (collect_results (map (transaction_of_json X) (jp_transactions j))) (\<lambda>txs.
     res_bind (defaulted [] (\<lambda>l. collect_results (map (withdrawal_of_json X) l)) (jp_withdrawals j)) (\<lambda>ws.
       Inr \<lparr>pt_header = h, pt_transactions = txs, pt_withdrawals = ws\<rparr>)))"

text \<open>The HTTP client of the crate jsonrpsee: which answers a request with a method and parameters
  can have; an answer is null or a JSON value, which the client reads. An object that cannot be
  read is an error of the client.\<close>

record http_client =
  hc_block :: "string \<Rightarrow> string list \<Rightarrow> string + json_parts option \<Rightarrow> bool"
  hc_receipts :: "string \<Rightarrow> string list \<Rightarrow> string + json_receipt list option \<Rightarrow> bool"

definition network_reply :: "('j \<Rightarrow> json_error + 'a) \<Rightarrow> string + 'j option \<Rightarrow> json_rpc_error + 'a" where
  "network_reply read reply =
     (case reply of
        Inl e \<Rightarrow> Inl (JrRpc e)
      | Inr None \<Rightarrow> Inl JrNotFound
      | Inr (Some j) \<Rightarrow> map_err (\<lambda>_. JrRpc ''parse error'') (read j))"

definition network_source :: "hex_api \<Rightarrow> http_client \<Rightarrow> block_source" where
  "network_source X http =
     \<lparr>so_header = (\<lambda>n r. \<exists>reply. hc_block http ''eth_getBlockByNumber'' [u64_to_hex n, ''true''] reply \<and>
        r = network_reply (parts_of_json X) reply),
      so_receipts = (\<lambda>n r. \<exists>reply. hc_receipts http ''eth_getBlockReceipts'' [u64_to_hex n] reply \<and>
        r = network_reply (\<lambda>js. collect_results (map (receipt_of_json X) js)) reply)\<rparr>"

subsection \<open>Subscriptions (block\_subscription.rs)\<close>

definition CHANNEL_SIZE :: nat where
  "CHANNEL_SIZE = 100"

datatype task_phase =
    WantHeader
  | WantReceipts block_parts
  | SendBlock block
  | SendError json_rpc_error
  | TaskDone

record subscription =
  su_block_number :: u64
  su_timeout :: nat
  su_phase :: task_phase
  su_channel :: "(json_rpc_error + block) list"

definition subscribe_to_blocks :: "u64 \<Rightarrow> subscription" where
  "subscribe_to_blocks start_block =
     \<lparr>su_block_number = start_block, su_timeout = 10, su_phase = WantHeader, su_channel = []\<rparr>"

definition on_header :: "json_rpc_error + block_parts \<Rightarrow> subscription \<Rightarrow> subscription" where
  "on_header r su =
     (case r of
        Inr parts \<Rightarrow> su\<lparr>su_phase := WantReceipts parts\<rparr>
      | Inl JrNotFound \<Rightarrow> su\<lparr>su_timeout := su_timeout su * 2\<rparr>
      | Inl e \<Rightarrow> su\<lparr>su_phase := SendError e\<rparr>)"

definition on_receipts :: "block_parts \<Rightarrow> json_rpc_error + transaction_receipt list \<Rightarrow> subscription \<Rightarrow> subscription" where
  "on_receipts parts r su =
     (case r of
        Inr receipts \<Rightarrow>
          su\<lparr>su_phase := SendBlock (from_parts (pt_header parts) (pt_transactions parts) receipts (pt_withdrawals parts))\<rparr>
      | Inl JrNotFound \<Rightarrow> su\<lparr>su_timeout := su_timeout su * 2\<rparr>
      | Inl e \<Rightarrow> su\<lparr>su_phase := SendError e\<rparr>)"

definition send_block :: "block \<Rightarrow> subscription \<Rightarrow> subscription" where
  "send_block b su =
     su\<lparr>su_channel := su_channel su @ [Inr b], su_block_number := su_block_number su + 1, su_timeout := 10, su_phase := WantHeader\<rparr>"

definition send_error :: "json_rpc_error \<Rightarrow> subscription \<Rightarrow> subscription" where
  "send_error e su = su\<lparr>su_channel := su_channel su @ [Inl e], su_phase := TaskDone\<rparr>"

text \<open>A step of the task while the receiver exists; a send waits for a free slot.\<close>

inductive task_step :: "block_source \<Rightarrow> subscription \<Rightarrow> subscription \<Rightarrow> bool" for src where
  header: "su_phase su = WantHeader \<Longrightarrow> so_header src (su_block_number su) r \<Longrightarrow> task_step src su (on_header r su)"
| receipts: "su_phase su = WantReceipts parts \<Longrightarrow> so_receipts src (su_block_number su) r \<Longrightarrow>
    task_step src su (on_receipts parts r su)"
| block: "su_phase su = SendBlock b \<Longrightarrow> length (su_channel su) < CHANNEL_SIZE \<Longrightarrow> task_step src su (send_block b su)"
| error: "su_phase su = SendError e \<Longrightarrow> length (su_channel su) < CHANNEL_SIZE \<Longrightarrow> task_step src su (send_error e su)"

subsection \<open>The synchronisation (start.rs)\<close>

datatype sync_error = SyncDb error | SyncRpc json_rpc_error

definition sync_start_block :: "('d, 'b) blockdb \<Rightarrow> 'd \<Rightarrow> u64 \<Rightarrow> sync_error + u64" where
  "sync_start_block D d chain_id =
     (case db_iterate D d chain_id u64_max Reverse of
        [] \<Rightarrow> Inr 0
      | Inl e # _ \<Rightarrow> Inl (SyncDb e)
      | Inr (_, b) # _ \<Rightarrow> Inr (b_number b + 1))"

fun sync_streams ::
  "('d, 'b) blockdb \<Rightarrow> (string \<Rightarrow> json_rpc_error + unit) \<Rightarrow> 'd \<Rightarrow> chain_config list \<Rightarrow> (u64 \<rightharpoonup> subscription) \<Rightarrow>
    sync_error + (u64 \<rightharpoonup> subscription)" where
  "sync_streams D try_new d [] streams = Inr streams"
| "sync_streams D try_new d (cc # ccs) streams =
     (case cc_json_rpc cc of
        None \<Rightarrow> sync_streams D try_new d ccs streams
      | Some server \<Rightarrow>
          res_bind (sync_start_block D d (cc_id cc)) (\<lambda>start_block.
          res_bind (map_err SyncRpc (try_new server)) (\<lambda>_.
            sync_streams D try_new d ccs (streams(cc_id cc \<mapsto> subscribe_to_blocks start_block)))))"

record 'd sync_state =
  sy_db :: 'd
  sy_streams :: "u64 \<rightharpoonup> subscription"
  sy_result :: "(sync_error + unit) option"

definition sync_init ::
  "('d, 'b) blockdb \<Rightarrow> (string \<Rightarrow> json_rpc_error + unit) \<Rightarrow> chain_config list \<Rightarrow> 'd \<Rightarrow> 'd sync_state" where
  "sync_init D try_new chain_configs d =
     (case sync_streams D try_new d chain_configs Map.empty of
        Inl e \<Rightarrow> \<lparr>sy_db = d, sy_streams = Map.empty, sy_result = Some (Inl e)\<rparr>
      | Inr streams \<Rightarrow> \<lparr>sy_db = d, sy_streams = streams, sy_result = None\<rparr>)"

definition sync_receive ::
  "('d, 'b) blockdb \<Rightarrow> u64 \<Rightarrow> json_rpc_error + block \<Rightarrow> 'd sync_state \<Rightarrow> 'd sync_state" where
  "sync_receive D chain_id item st =
     (case item of
        Inl e \<Rightarrow> st\<lparr>sy_result := Some (Inl (SyncRpc e))\<rparr>
      | Inr b \<Rightarrow>
          (case db_put D (sy_db st) chain_id b of
             (Inl e, d') \<Rightarrow> st\<lparr>sy_db := d', sy_result := Some (Inl (SyncDb e))\<rparr>
           | (Inr _, d') \<Rightarrow> st\<lparr>sy_db := d'\<rparr>))"

inductive sync_step :: "('d, 'b) blockdb \<Rightarrow> (u64 \<Rightarrow> block_source) \<Rightarrow> 'd sync_state \<Rightarrow> 'd sync_state \<Rightarrow> bool" for D srcs where
  task: "sy_result st = None \<Longrightarrow> sy_streams st c = Some su \<Longrightarrow> task_step (srcs c) su su' \<Longrightarrow>
    sync_step D srcs st (st\<lparr>sy_streams := (sy_streams st)(c \<mapsto> su')\<rparr>)"
| receive: "sy_result st = None \<Longrightarrow> sy_streams st c = Some su \<Longrightarrow> su_channel su = item # items \<Longrightarrow>
    sync_step D srcs st (sync_receive D c item (st\<lparr>sy_streams := (sy_streams st)(c \<mapsto> su\<lparr>su_channel := items\<rparr>)\<rparr>))"
| stream_end: "sy_result st = None \<Longrightarrow> sy_streams st c = Some su \<Longrightarrow> su_phase su = TaskDone \<Longrightarrow> su_channel su = [] \<Longrightarrow>
    sync_step D srcs st (st\<lparr>sy_streams := (sy_streams st)(c := None)\<rparr>)"
| finished: "sy_result st = None \<Longrightarrow> sy_streams st = Map.empty \<Longrightarrow> sync_step D srcs st (st\<lparr>sy_result := Some (Inr ())\<rparr>)"


inductive sync_reachable ::
  "('d, 'b) blockdb \<Rightarrow> (u64 \<Rightarrow> block_source) \<Rightarrow> 'd sync_state \<Rightarrow> 'd sync_state \<Rightarrow> bool" for D srcs st0 where
  start: "sync_reachable D srcs st0 st0"
| step: "sync_reachable D srcs st0 st \<Longrightarrow> sync_step D srcs st st' \<Longrightarrow> sync_reachable D srcs st0 st'"

text \<open>\<open>start\<close> waits for its three tasks in the order in which they end; a task that panicked
  or was aborted gives a join error. The first error cancels the others and is returned.\<close>

fun start_join :: "('join + ('e + unit)) list \<Rightarrow> (('join + 'e) + unit) \<times> bool" where
  "start_join [] = (Inr (), False)"
| "start_join (Inr (Inr _) # results) = start_join results"
| "start_join (Inr (Inl e) # results) = (Inl (Inr e), True)"
| "start_join (Inl e # results) = (Inl (Inl e), True)"

subsection \<open>Invariant\<close>

text \<open>A source serves a chain if a header and receipts that it returns for a number belong to the
  block of that number; it may fail or know nothing at any time.\<close>

definition serves :: "block_source \<Rightarrow> (u64 \<Rightarrow> block) \<Rightarrow> bool" where
  "serves src chain \<longleftrightarrow>
     (\<forall>n. b_number (chain n) = n) \<and>
     (\<forall>n parts rs. so_header src n (Inr parts) \<longrightarrow> so_receipts src n (Inr rs) \<longrightarrow>
        from_parts (pt_header parts) (pt_transactions parts) rs (pt_withdrawals parts) = chain n)"

definition phase_ok :: "block_source \<Rightarrow> (u64 \<Rightarrow> block) \<Rightarrow> u64 \<Rightarrow> task_phase \<Rightarrow> bool" where
  "phase_ok src chain n phase \<longleftrightarrow>
     (case phase of
        WantReceipts parts \<Rightarrow> so_header src n (Inr parts)
      | SendBlock b \<Rightarrow> b = chain n
      | _ \<Rightarrow> True)"

lemma phase_ok_simps [simp]:
  "phase_ok src chain n WantHeader" "phase_ok src chain n (SendError e)" "phase_ok src chain n TaskDone"
  "phase_ok src chain n (WantReceipts parts) \<longleftrightarrow> so_header src n (Inr parts)" "phase_ok src chain n (SendBlock b) \<longleftrightarrow> b = chain n"
  by (simp_all add: phase_ok_def)

text \<open>\<open>k\<close> is the number of blocks that were received from the channel.\<close>

definition task_inv :: "block_source \<Rightarrow> (u64 \<Rightarrow> block) \<Rightarrow> u64 \<Rightarrow> nat \<Rightarrow> subscription \<Rightarrow> bool" where
  "task_inv src chain start k su \<longleftrightarrow>
     (\<exists>m es. su_channel su = map (Inr \<circ> chain) (word_seq (start + of_nat k) m) @ map Inl es \<and>
        su_block_number su = start + of_nat (k + m) \<and> (es \<noteq> [] \<longrightarrow> su_phase su = TaskDone)) \<and>
     length (su_channel su) \<le> CHANNEL_SIZE \<and>
     phase_ok src chain (su_block_number su) (su_phase su)"

lemma word_seq_snoc: "word_seq a (Suc k) = word_seq a k @ [a + of_nat k]"
  by (simp add: word_seq_def)

lemma task_inv_step:
  assumes "serves src chain" and "task_inv src chain start k su" and "task_step src su su'"
  shows "task_inv src chain start k su'"
proof -
  from assms(2) obtain m es where inv: "su_channel su = map (Inr \<circ> chain) (word_seq (start + of_nat k) m) @ map Inl es"
    "su_block_number su = start + of_nat (k + m)" "es \<noteq> [] \<longrightarrow> su_phase su = TaskDone" "length (su_channel su) \<le> CHANNEL_SIZE" "phase_ok src chain (su_block_number su) (su_phase su)"
    unfolding task_inv_def by blast
  show ?thesis
    using assms(3)
  proof (cases rule: task_step.cases)
    case (header r)
    then show ?thesis
      using inv unfolding task_inv_def
      by (intro conjI exI [where x = m] exI [where x = es]) (auto simp: on_header_def split: sum.split json_rpc_error.split)
  next
    case (receipts parts r)
    then have "so_header src (su_block_number su) (Inr parts)" using assms(2) by (simp add: task_inv_def)
    then show ?thesis
      using inv receipts assms(1) unfolding task_inv_def
      by (intro conjI exI [where x = m] exI [where x = es])
        (auto simp: on_receipts_def serves_def split: sum.split json_rpc_error.split)
  next
    case (block b)
    then have "b = chain (start + of_nat (k + m))" "es = []" using assms(2) inv by (auto simp: task_inv_def)
    then show ?thesis
      using inv block unfolding task_inv_def
      by (intro conjI exI [where x = "Suc m"] exI [where x = "[]"]) (auto simp: send_block_def word_seq_snoc ac_simps simp del: word_seq_simps(2))
  next
    case (error e)
    then have "es = []" using inv by auto
    then show ?thesis
      using inv error unfolding task_inv_def
      by (intro conjI exI [where x = m] exI [where x = "[e]"]) (auto simp: send_error_def)
  qed
qed

lemma task_inv_receive:
  assumes "task_inv src chain start k su" and "su_channel su = Inr b # items"
  shows "b = chain (start + of_nat k)" "task_inv src chain start (Suc k) (su\<lparr>su_channel := items\<rparr>)"
proof -
  from assms(1) obtain m es where inv: "su_channel su = map (Inr \<circ> chain) (word_seq (start + of_nat k) m) @ map Inl es"
    "su_block_number su = start + of_nat (k + m)" "es \<noteq> [] \<longrightarrow> su_phase su = TaskDone"
    unfolding task_inv_def by blast
  with assms(2) obtain m' where m: "m = Suc m'" by (cases m) (auto simp: Cons_eq_map_conv)
  then show "b = chain (start + of_nat k)" using inv(1) assms(2) by simp
  have "su_channel (su\<lparr>su_channel := items\<rparr>) = map (Inr \<circ> chain) (word_seq (start + of_nat (Suc k)) m') @ map Inl es"
    using inv(1) assms(2) by (simp add: m ac_simps)
  then show "task_inv src chain start (Suc k) (su\<lparr>su_channel := items\<rparr>)"
    using inv(2,3) assms m unfolding task_inv_def
    by (intro conjI exI [where x = m'] exI [where x = es]) auto
qed


lemma task_inv_receive_error:
  assumes "task_inv src chain start k su" and "su_channel su = Inl e # items"
  shows "task_inv src chain start k (su\<lparr>su_channel := items\<rparr>)"
proof -
  from assms(1) obtain m es where inv: "su_channel su = map (Inr \<circ> chain) (word_seq (start + of_nat k) m) @ map Inl es"
    "su_block_number su = start + of_nat (k + m)" "es \<noteq> [] \<longrightarrow> su_phase su = TaskDone" "length (su_channel su) \<le> CHANNEL_SIZE"
    "phase_ok src chain (su_block_number su) (su_phase su)"
    unfolding task_inv_def by blast
  with assms(2) have m: "m = 0" by (cases m) (auto simp: Cons_eq_map_conv)
  then show ?thesis
    using inv assms(2) unfolding task_inv_def
    by (intro conjI exI [where x = 0] exI [where x = "tl es"]) (cases es; auto)+
qed

text \<open>The database \<open>s'\<close> is \<open>s\<close> with \<open>k c\<close> blocks of every chain \<open>c\<close> from the block
  \<open>start c\<close> on.\<close>

definition synced :: "(block \<Rightarrow> bytes) \<Rightarrow> (u64 \<Rightarrow> u64 \<Rightarrow> block) \<Rightarrow> (u64 \<Rightarrow> u64) \<Rightarrow> (u64 \<Rightarrow> nat) \<Rightarrow> abs_db \<Rightarrow> abs_db \<Rightarrow> bool" where
  "synced enc chain start k s s' \<longleftrightarrow>
     (\<forall>c n. blocks s' c n = (if n \<in> set (word_seq (start c) (k c)) then Some (enc (chain c n)) else blocks s c n)) \<and>
     rules s' = rules s \<and> corrections s' = corrections s \<and> failed_bundles s' = failed_bundles s"

lemma synced_0: "synced enc chain start (\<lambda>_. 0) s s"
  by (simp add: synced_def)

lemma synced_put:
  assumes "synced enc chain start k s s'" and "n = start c + of_nat (k c)"
  shows "synced enc chain start (k(c := Suc (k c))) s (abs_put c n (enc (chain c n)) s')"
  using assms by (auto simp: synced_def abs_put_def word_seq_snoc simp del: word_seq_simps(2))

definition streams_inv ::
  "(u64 \<Rightarrow> block_source) \<Rightarrow> (u64 \<Rightarrow> u64 \<Rightarrow> block) \<Rightarrow> (u64 \<Rightarrow> u64) \<Rightarrow> (u64 \<Rightarrow> nat) \<Rightarrow> (u64 \<rightharpoonup> subscription) \<Rightarrow> bool" where
  "streams_inv srcs chain start k streams \<longleftrightarrow> (\<forall>c su. streams c = Some su \<longrightarrow> task_inv (srcs c) (chain c) (start c) (k c) su)"

lemma streams_inv_upd:
  assumes "streams_inv srcs chain start k streams" and "task_inv (srcs c) (chain c) (start c) n su"
  shows "streams_inv srcs chain start (k(c := n)) (streams(c \<mapsto> su))"
  using assms by (auto simp: streams_inv_def)

text \<open>The blocks received so far, counted by \<open>k\<close>, are those in the database; while the
  synchronisation runs the next ones are in the channels.\<close>

definition sync_inv ::
  "(u64 \<Rightarrow> block_source) \<Rightarrow> (block \<Rightarrow> bytes) \<Rightarrow> (u64 \<Rightarrow> u64 \<Rightarrow> block) \<Rightarrow> u64 set \<Rightarrow> (u64 \<Rightarrow> u64) \<Rightarrow> (u64 \<Rightarrow> nat) \<Rightarrow>
    abs_db \<Rightarrow> abs_db \<Rightarrow> 'd sync_state \<Rightarrow> bool" where
  "sync_inv srcs enc chain active start k s s' st \<longleftrightarrow>
     synced enc chain start k s s' \<and> (\<forall>c. c \<notin> active \<longrightarrow> k c = 0) \<and> dom (sy_streams st) \<subseteq> active \<and>
     (sy_result st = None \<longrightarrow> streams_inv srcs chain start k (sy_streams st))"

context block_store
begin

lemma sync_receive_inv:
  assumes "\<forall>c. serves (srcs c) (chain c)" and "inv (sy_db st)" and "sync_inv srcs enc chain active start k s (abs (sy_db st)) st"
    and "sy_result st = None" and "sy_streams st c = Some su" and "su_channel su = item # items"
    and "st' = sync_receive D c item (st\<lparr>sy_streams := (sy_streams st)(c \<mapsto> su\<lparr>su_channel := items\<rparr>)\<rparr>)"
  shows "inv (sy_db st') \<and>
    sync_inv srcs enc chain active start (if sy_result st' = None then k(c := Suc (k c)) else k) s (abs (sy_db st')) st'"
proof -
  have S: "streams_inv srcs chain start k (sy_streams st)" and c: "c \<in> active" and dom: "dom (sy_streams st') \<subseteq> active"
    and sy: "synced enc chain start k s (abs (sy_db st))" and k0: "\<forall>c. c \<notin> active \<longrightarrow> k c = 0"
    using assms(3-5) by (auto simp: sync_inv_def assms(7) sync_receive_def split: sum.split prod.split)
  have t: "task_inv (srcs c) (chain c) (start c) (k c) su" using S assms(5) by (simp add: streams_inv_def)
  show ?thesis
  proof (cases item)
    case (Inl e)
    then have "sy_result st' = Some (Inl (SyncRpc e))" "sy_db st' = sy_db st" by (simp_all add: assms(7) sync_receive_def)
    then show ?thesis using assms(2) sy k0 dom by (simp add: sync_inv_def)
  next
    case (Inr b)
    obtain r d' where put: "db_put D (sy_db st) c b = (r, d')" by (cases "db_put D (sy_db st) c b")
    note rcv = task_inv_receive [OF t assms(6) [unfolded Inr]]
    have num: "b_number b = start c + of_nat (k c)" using rcv(1) assms(1) by (simp add: serves_def)
    have eff: "inv d'" "abs d' = effect (abs_put c (b_number b) (enc b)) r (abs (sy_db st))"
      using put_bytes_law [OF assms(2)] put unfolding put_law by blast+
    show ?thesis
    proof (cases r)
      case (Inl e)
      then have "sy_result st' = Some (Inl (SyncDb e))" "sy_db st' = d'" using put by (simp_all add: assms(7) Inr sync_receive_def)
      then show ?thesis using eff Inl sy k0 dom by (simp add: sync_inv_def)
    next
      case (Inr u)
      then have st': "sy_db st' = d'" "sy_result st' = None" "sy_streams st' = (sy_streams st)(c \<mapsto> su\<lparr>su_channel := items\<rparr>)"
        using put assms(4) by (simp_all add: assms(7) \<open>item = Inr b\<close> sync_receive_def)
      have "synced enc chain start (k(c := Suc (k c))) s (abs d')"
        using synced_put [OF sy num] eff(2) Inr rcv(1) num by simp
      moreover have "streams_inv srcs chain start (k(c := Suc (k c))) (sy_streams st')"
        unfolding st' by (rule streams_inv_upd [OF S rcv(2)])
      ultimately have "sync_inv srcs enc chain active start (k(c := Suc (k c))) s (abs (sy_db st')) st'"
        using k0 c dom by (simp add: sync_inv_def st'(1))
      then show ?thesis using eff(1) st'(1,2) by simp
    qed
  qed
qed

lemma sync_step_inv:
  assumes "\<forall>c. serves (srcs c) (chain c)" and "inv (sy_db st)" and "sync_inv srcs enc chain active start k s (abs (sy_db st)) st"
    and "sync_step D srcs st st'"
  shows "inv (sy_db st') \<and> (\<exists>k'. sync_inv srcs enc chain active start k' s (abs (sy_db st')) st')"
  using assms(4)
proof (cases rule: sync_step.cases)
  case (task c su su')
  have S: "streams_inv srcs chain start k (sy_streams st)" using assms(3) task by (simp add: sync_inv_def)
  then have "task_inv (srcs c) (chain c) (start c) (k c) su'"
    using task_inv_step [of "srcs c" "chain c" "start c" "k c" su su'] assms(1) task by (auto simp: streams_inv_def)
  from streams_inv_upd [OF S this] have "streams_inv srcs chain start k ((sy_streams st)(c \<mapsto> su'))" by simp
  then show ?thesis using assms(2,3) task by (auto simp: sync_inv_def intro!: exI [where x = k])
next
  case (receive c su item items)
  then show ?thesis using sync_receive_inv [OF assms(1-3)] by blast
next
  case (stream_end c su)
  then show ?thesis using assms(2,3) by (auto simp: sync_inv_def streams_inv_def intro!: exI [where x = k])
next
  case finished
  then show ?thesis using assms(2,3) by (auto simp: sync_inv_def intro!: exI [where x = k])
qed

lemma sync_reachable_inv:
  assumes "\<forall>c. serves (srcs c) (chain c)" and "inv (sy_db st0)" and "\<forall>c su. sy_streams st0 c = Some su \<longrightarrow> su = subscribe_to_blocks (start c)"
    and "sync_reachable D srcs st0 st"
  shows "inv (sy_db st) \<and> (\<exists>k. sync_inv srcs enc chain (dom (sy_streams st0)) start k (abs (sy_db st0)) (abs (sy_db st)) st)"
  using assms(4)
proof (induction rule: sync_reachable.induct)
  case start
  have "task_inv (srcs c) (chain c) (start c) 0 (subscribe_to_blocks (start c))" for c
    by (auto simp: task_inv_def subscribe_to_blocks_def CHANNEL_SIZE_def intro!: exI [where x = 0] exI [where x = "[]"])
  then have "streams_inv srcs chain start (\<lambda>_. 0) (sy_streams st0)" using assms(3) by (auto simp: streams_inv_def)
  then have "sync_inv srcs enc chain (dom (sy_streams st0)) start (\<lambda>_. 0) (abs (sy_db st0)) (abs (sy_db st0)) st0"
    by (simp add: sync_inv_def synced_0)
  then show ?case using assms(2) by blast
next
  case (step st st')
  then show ?case using sync_step_inv [OF assms(1)] by blast
qed

end

subsection \<open>Start block\<close>

lemma sync_streams_start:
  "sync_streams D try_new d ccs streams0 = Inr streams \<Longrightarrow> streams c = Some su \<Longrightarrow>
     streams0 c = Some su \<or>
     (\<exists>n. sync_start_block D d c = Inr n \<and> su = subscribe_to_blocks n) \<and> (\<exists>cc \<in> set ccs. cc_id cc = c \<and> cc_json_rpc cc \<noteq> None)"
proof (induction D try_new d ccs streams0 rule: sync_streams.induct)
  case (2 D try_new d cc ccs streams0)
  show ?case
  proof (cases "cc_json_rpc cc")
    case None
    then show ?thesis using 2 by auto
  next
    case (Some server)
    then obtain n where n: "sync_start_block D d (cc_id cc) = Inr n"
      "sync_streams D try_new d ccs (streams0(cc_id cc \<mapsto> subscribe_to_blocks n)) = Inr streams" using 2(3) by auto
    from 2(2) [OF Some n(2) 2(4)] show ?thesis using n(1) Some by (auto split: if_splits)
  qed
qed simp

lemma sync_init_streams:
  assumes "sy_streams (sync_init D try_new ccs d) c = Some su"
  shows "\<exists>n. sync_start_block D d c = Inr n \<and> su = subscribe_to_blocks n" and "\<exists>cc \<in> set ccs. cc_id cc = c \<and> cc_json_rpc cc \<noteq> None"
  using assms sync_streams_start [of D try_new d ccs Map.empty _ c su] by (auto simp: sync_init_def split: sum.splits)

text \<open>The number after a set of stored blocks: 0 when there is none, else one more than the
  greatest.\<close>

definition next_number :: "u64 set \<Rightarrow> u64" where
  "next_number S = (if S = {} then 0 else Max S + 1)"

lemma hd_rev_sorted: "(S :: u64 set) \<noteq> {} \<Longrightarrow> rev (sorted_list_of_set S) = Max S # rev (sorted_list_of_set (S - {Max S}))"
  using sorted_list_of_set_insert_remove [of "S - {Max S}" "Max S"]
  by (simp add: insert_absorb sorted_insort_is_snoc)

lemma stream_of_Cons:
  assumes "stream_of (x # xs) rs"
  shows "(\<exists>e. rs = [Inl e]) \<or> (\<exists>rs'. rs = Inr x # rs')"
proof -
  have "map Inr (take n (x # xs)) @ [Inl e] = [Inl e] \<or> (\<exists>rs'. map Inr (take n (x # xs)) @ [Inl e] = Inr x # rs')" for n e
    by (cases n) auto
  then show ?thesis using assms by (fastforce simp: stream_of_def)
qed

context block_store
begin

lemma sync_start_block_correct:
  assumes "inv d" and "\<forall>n data b. blocks (abs d) c n = Some data \<longrightarrow> dec data = Inr b \<longrightarrow> b_number b = n"
    and "sync_start_block D d c = Inr n"
  shows "n = next_number (stored (abs d) c)"
proof -
  let ?S = "stored (abs d) c"
  have all: "{k \<in> ?S. k \<le> u64_max} = ?S" by auto
  have str: "stream_of (map (\<lambda>k. (k, the (blocks (abs d) c k))) (rev (sorted_list_of_set ?S))) (db_iterate_bytes D d c u64_max Reverse)"
    using iterate_bytes_law [OF assms(1), of c u64_max Reverse] by (simp only: block_entries_def all iteration_direction.case)
  show ?thesis
  proof (cases "?S = {}")
    case True
    then have "db_iterate_bytes D d c u64_max Reverse = [] \<or> (\<exists>e. db_iterate_bytes D d c u64_max Reverse = [Inl e])"
      using str by (auto simp: stream_of_def)
    then show ?thesis using True assms(3) by (auto simp: sync_start_block_def iterate_law decode_item_def next_number_def)
  next
    case False
    have "Max ?S \<in> ?S" using False by (intro Max_in) auto
    then obtain data where data: "blocks (abs d) c (Max ?S) = Some data" by (auto simp: stored_def)
    have "(\<exists>e. db_iterate_bytes D d c u64_max Reverse = [Inl e]) \<or> (\<exists>rs. db_iterate_bytes D d c u64_max Reverse = Inr (Max ?S, data) # rs)"
      using stream_of_Cons [OF str [unfolded hd_rev_sorted [OF False] list.map data option.sel]] .
    then show ?thesis
      using False assms(2,3) data
      by (auto simp: sync_start_block_def iterate_law decode_item_def next_number_def split: sum.splits)
  qed
qed

end

subsection \<open>Progress\<close>

lemma sync_reachable_trans: "sync_reachable D srcs b c \<Longrightarrow> sync_reachable D srcs a b \<Longrightarrow> sync_reachable D srcs a c"
  by (induction rule: sync_reachable.induct) (auto intro: sync_reachable.intros)

lemma sync_reachable_task:
  assumes "(task_step (srcs c))\<^sup>*\<^sup>* su su'" and "sy_result st = None" and "sy_streams st c = Some su"
  shows "sync_reachable D srcs st (st\<lparr>sy_streams := (sy_streams st)(c \<mapsto> su')\<rparr>)"
  using assms(1)
proof (induction rule: rtranclp_induct)
  case base
  have "st\<lparr>sy_streams := (sy_streams st)(c \<mapsto> su)\<rparr> = st" using assms(3) by (simp add: fun_upd_idem)
  then show ?case using sync_reachable.start [of D srcs st] by (simp only:)
next
  case (step su1 su2)
  have "sync_step D srcs (st\<lparr>sy_streams := (sy_streams st)(c \<mapsto> su1)\<rparr>) (st\<lparr>sy_streams := (sy_streams st)(c \<mapsto> su2)\<rparr>)"
    using sync_step.task [of "st\<lparr>sy_streams := (sy_streams st)(c \<mapsto> su1)\<rparr>" c su1 srcs su2 D] step(2) assms(2) by simp
  then show ?case using step(3) by (rule sync_reachable.step [rotated])
qed

text \<open>A task runs as long as it has met no error. A source that can answer for every block lets
  it send the next one.\<close>

definition running :: "subscription \<Rightarrow> bool" where
  "running su \<longleftrightarrow> (case su_phase su of SendError _ \<Rightarrow> False | TaskDone \<Rightarrow> False | _ \<Rightarrow> True)"

definition answers :: "block_source \<Rightarrow> bool" where
  "answers src \<longleftrightarrow> (\<forall>n. (\<exists>parts. so_header src n (Inr parts)) \<and> (\<exists>rs. so_receipts src n (Inr rs)))"

lemma task_sends_from_block:
  assumes "su_phase su = SendBlock b" and "su_channel su = []"
  shows "\<exists>su' b. (task_step src)\<^sup>*\<^sup>* su su' \<and> su_channel su' = [Inr b] \<and> running su'"
proof -
  have "task_step src su (send_block b su)" using assms by (intro task_step.block) (simp_all add: CHANNEL_SIZE_def)
  moreover have "su_channel (send_block b su) = [Inr b]" "running (send_block b su)"
    using assms by (simp_all add: send_block_def running_def)
  ultimately show ?thesis by blast
qed

lemma task_sends_from_receipts:
  assumes "answers src" and "su_phase su = WantReceipts parts" and "su_channel su = []"
  shows "\<exists>su' b. (task_step src)\<^sup>*\<^sup>* su su' \<and> su_channel su' = [Inr b] \<and> running su'"
proof -
  from assms(1) obtain rs where "so_receipts src (su_block_number su) (Inr rs)" by (auto simp: answers_def)
  with assms(2) have "task_step src su (on_receipts parts (Inr rs) su)" by (rule task_step.receipts)
  moreover obtain b where "su_phase (on_receipts parts (Inr rs) su) = SendBlock b" "su_channel (on_receipts parts (Inr rs) su) = []"
    using assms(3) by (simp add: on_receipts_def)
  ultimately show ?thesis using task_sends_from_block by (metis converse_rtranclp_into_rtranclp)
qed

lemma task_sends:
  assumes "answers src" and "running su" and "su_channel su = []"
  shows "\<exists>su' b. (task_step src)\<^sup>*\<^sup>* su su' \<and> su_channel su' = [Inr b] \<and> running su'"
proof (cases "su_phase su")
  case WantHeader
  from assms(1) obtain parts where "so_header src (su_block_number su) (Inr parts)" by (auto simp: answers_def)
  with WantHeader have "task_step src su (on_header (Inr parts) su)" by (rule task_step.header)
  moreover have "su_phase (on_header (Inr parts) su) = WantReceipts parts" "su_channel (on_header (Inr parts) su) = []"
    using assms(3) by (simp_all add: on_header_def)
  ultimately show ?thesis using task_sends_from_receipts [OF assms(1)] by (metis converse_rtranclp_into_rtranclp)
qed (use assms task_sends_from_receipts task_sends_from_block in \<open>auto simp: running_def\<close>)

lemma task_inv_steps:
  assumes "(task_step src)\<^sup>*\<^sup>* su su'" and "serves src chain" and "task_inv src chain start k su"
  shows "task_inv src chain start k su'"
  using assms(1,3) by (induction rule: rtranclp_induct) (auto intro: task_inv_step [OF assms(2)])

lemma running_channel:
  assumes "task_inv src chain start k su" and "running su"
  shows "su_channel su = [] \<or> (\<exists>b items. su_channel su = Inr b # items)"
proof -
  from assms(1) obtain m es where "su_channel su = map (Inr \<circ> chain) (word_seq (start + of_nat k) m) @ map Inl es" "es \<noteq> [] \<longrightarrow> su_phase su = TaskDone"
    unfolding task_inv_def by blast
  moreover from this(2) assms(2) have "es = []" by (auto simp: running_def)
  ultimately show ?thesis by (cases m) simp_all
qed

context block_store
begin

lemma sync_init_start:
  assumes "inv d" and "\<forall>cc \<in> set ccs. \<forall>n data b. blocks (abs d) (cc_id cc) n = Some data \<longrightarrow> dec data = Inr b \<longrightarrow> b_number b = n"
  shows "sy_db (sync_init D try_new ccs d) = d"
    and "\<forall>c su. sy_streams (sync_init D try_new ccs d) c = Some su \<longrightarrow> su = subscribe_to_blocks (next_number (stored (abs d) c))"
proof -
  show "sy_db (sync_init D try_new ccs d) = d" by (simp add: sync_init_def split: sum.split)
  have "su = subscribe_to_blocks (next_number (stored (abs d) c))" if su: "sy_streams (sync_init D try_new ccs d) c = Some su" for c su
  proof -
    obtain n where n: "sync_start_block D d c = Inr n" "su = subscribe_to_blocks n" using sync_init_streams(1) [OF su] by blast
    have "\<forall>n data b. blocks (abs d) c n = Some data \<longrightarrow> dec data = Inr b \<longrightarrow> b_number b = n"
      using sync_init_streams(2) [OF su] assms(2) by blast
    from sync_start_block_correct [OF assms(1) this n(1)] n(2) show ?thesis by simp
  qed
  then show "\<forall>c su. sy_streams (sync_init D try_new ccs d) c = Some su \<longrightarrow> su = subscribe_to_blocks (next_number (stored (abs d) c))"
    by blast
qed

lemma sync_result:
  assumes "inv d" and "\<forall>cc \<in> set ccs. \<forall>n data b. blocks (abs d) (cc_id cc) n = Some data \<longrightarrow> dec data = Inr b \<longrightarrow> b_number b = n"
    and "\<forall>c. serves (srcs c) (chain c)" and "sync_reachable D srcs (sync_init D try_new ccs d) st"
  shows "inv (sy_db st) \<and>
    (\<exists>k. sync_inv srcs enc chain (dom (sy_streams (sync_init D try_new ccs d))) (\<lambda>c. next_number (stored (abs d) c)) k
       (abs d) (abs (sy_db st)) st)"
  using sync_reachable_inv [OF assms(3) _ sync_init_start(2) [OF assms(1,2)] assms(4)] assms(1)
  unfolding sync_init_start(1) [OF assms(1,2)] .

end

context block_store_live
begin

lemma sync_receives:
  assumes "\<forall>c. serves (srcs c) (chain c)" and "inv (sy_db st)" and "live (sy_db st)"
    and "sync_inv srcs enc chain active start k s (abs (sy_db st)) st"
    and "sy_result st = None" and "sy_streams st c = Some su" and "su_channel su = Inr b # items" and "running su"
  shows "\<exists>st' su'. sync_reachable D srcs st st' \<and> inv (sy_db st') \<and> live (sy_db st') \<and>
    sync_inv srcs enc chain active start (k(c := Suc (k c))) s (abs (sy_db st')) st' \<and>
    sy_result st' = None \<and> sy_streams st' c = Some su' \<and> running su'"
proof -
  define st' where "st' = sync_receive D c (Inr b) (st\<lparr>sy_streams := (sy_streams st)(c \<mapsto> su\<lparr>su_channel := items\<rparr>)\<rparr>)"
  obtain d' where d': "db_put D (sy_db st) c b = (Inr (), d')" "live d'" using put_bytes_live [OF assms(3,2)] unfolding put_law by blast
  then have st': "sy_result st' = None" "sy_streams st' c = Some (su\<lparr>su_channel := items\<rparr>)" "sy_db st' = d'"
    using assms(5) by (simp_all add: st'_def sync_receive_def)
  have "running (su\<lparr>su_channel := items\<rparr>)" using assms(8) by (simp add: running_def)
  moreover have "sync_reachable D srcs st st'"
    unfolding st'_def by (rule sync_reachable.step [OF sync_reachable.start sync_step.receive [OF assms(5-7)]])
  ultimately show ?thesis
    using sync_receive_inv [OF assms(1,2,4,5,6,7) st'_def] st' d'(2) by auto
qed

lemma sync_advances:
  assumes "\<forall>c. serves (srcs c) (chain c)" and "answers (srcs c)" and "inv (sy_db st)" and "live (sy_db st)"
    and "sync_inv srcs enc chain active start k s (abs (sy_db st)) st"
    and "sy_result st = None" and "sy_streams st c = Some su" and "running su"
  shows "\<exists>st' su'. sync_reachable D srcs st st' \<and> inv (sy_db st') \<and> live (sy_db st') \<and>
    sync_inv srcs enc chain active start (k(c := Suc (k c))) s (abs (sy_db st')) st' \<and>
    sy_result st' = None \<and> sy_streams st' c = Some su' \<and> running su'"
proof -
  have S: "streams_inv srcs chain start k (sy_streams st)" using assms(5,6) by (simp add: sync_inv_def)
  then have t: "task_inv (srcs c) (chain c) (start c) (k c) su" using assms(7) by (simp add: streams_inv_def)
  show ?thesis
  proof (cases "su_channel su")
    case Nil
    from task_sends [OF assms(2,8) this] obtain su' b where su': "(task_step (srcs c))\<^sup>*\<^sup>* su su'" "su_channel su' = [Inr b]" "running su'" by blast
    let ?st = "st\<lparr>sy_streams := (sy_streams st)(c \<mapsto> su')\<rparr>"
    have "task_inv (srcs c) (chain c) (start c) (k c) su'" using task_inv_steps [OF su'(1) _ t] assms(1) by blast
    from streams_inv_upd [OF S this] have "sync_inv srcs enc chain active start k s (abs (sy_db ?st)) ?st"
      using assms(5,7) by (auto simp: sync_inv_def)
    from sync_receives [OF assms(1) _ _ this _ _ su'(2,3), of c] assms(3,4,6) obtain st' su'' where
      "sync_reachable D srcs ?st st'" "inv (sy_db st')" "live (sy_db st')" "sy_result st' = None" "sy_streams st' c = Some su''" "running su''"
      "sync_inv srcs enc chain active start (k(c := Suc (k c))) s (abs (sy_db st')) st'" by auto
    moreover from sync_reachable_trans [OF this(1) sync_reachable_task [where c = c and srcs = srcs, OF su'(1) assms(6,7)]]
    have "sync_reachable D srcs st st'" .
    ultimately show ?thesis by blast
  next
    case (Cons item items)
    then obtain b where "item = Inr b" using running_channel [OF t assms(8)] by auto
    then show ?thesis using sync_receives [OF assms(1,3,4,5,6,7) _ assms(8)] Cons by blast
  qed
qed

lemma sync_advances_by:
  assumes "\<forall>c. serves (srcs c) (chain c)" and "answers (srcs c)" and "inv (sy_db st)" and "live (sy_db st)"
    and "sync_inv srcs enc chain active start k s (abs (sy_db st)) st"
    and "sy_result st = None" and "sy_streams st c = Some su" and "running su"
  shows "\<exists>st' su'. sync_reachable D srcs st st' \<and> inv (sy_db st') \<and> live (sy_db st') \<and>
    sync_inv srcs enc chain active start (k(c := k c + j)) s (abs (sy_db st')) st' \<and>
    sy_result st' = None \<and> sy_streams st' c = Some su' \<and> running su'"
proof (induction j)
  case 0
  show ?case using assms(3-8) sync_reachable.start by auto
next
  case (Suc j)
  then obtain st1 su1 where "sync_reachable D srcs st st1" "inv (sy_db st1)" "live (sy_db st1)"
    "sync_inv srcs enc chain active start (k(c := k c + j)) s (abs (sy_db st1)) st1"
    "sy_result st1 = None" "sy_streams st1 c = Some su1" "running su1" by blast
  from sync_advances [OF assms(1,2) this(2-), unfolded fun_upd_upd fun_upd_same] this(1) show ?case
    unfolding add_Suc_right by (blast intro: sync_reachable_trans)
qed

end

context block_store_live
begin

lemma sync_reachable_live:
  assumes "\<forall>c. serves (srcs c) (chain c)" and "inv (sy_db st0)" and "live (sy_db st0)"
    and "\<forall>c su. sy_streams st0 c = Some su \<longrightarrow> su = subscribe_to_blocks (start c)"
    and "sync_reachable D srcs st0 st"
  shows "live (sy_db st)"
  using assms(5)
proof (induction rule: sync_reachable.induct)
  case start
  show ?case by (rule assms(3))
next
  case (step st st')
  have "inv (sy_db st)" using sync_reachable_inv [OF assms(1,2,4) step(1)] by blast
  with step(3) have "\<exists>d'. db_put D (sy_db st) c b = (Inr (), d') \<and> live d'" for c b unfolding put_law by (rule put_bytes_live)
  then have "live (sy_db (sync_receive D c (Inr b) (st\<lparr>sy_streams := x\<rparr>)))" for c b x
    using step(3) by (auto simp: sync_receive_def split: prod.split sum.split) (metis Pair_inject)+
  then have "live (sy_db (sync_receive D c item (st\<lparr>sy_streams := x\<rparr>)))" for c item x
    using step(3) by (cases item) (simp_all add: sync_receive_def)
  then show ?case using step(3) by (auto intro: sync_step.cases [OF step(2)])
qed

lemma sync_can_continue:
  assumes "inv d" and "live d" and "\<forall>cc \<in> set ccs. \<forall>n data b. blocks (abs d) (cc_id cc) n = Some data \<longrightarrow> dec data = Inr b \<longrightarrow> b_number b = n"
    and "\<forall>c. serves (srcs c) (chain c)" and "sync_reachable D srcs (sync_init D try_new ccs d) st"
    and "sy_result st = None" and "sy_streams st c = Some su" and "running su" and "answers (srcs c)"
  shows "\<exists>st'. sync_reachable D srcs st st' \<and> sy_result st' = None \<and>
    (\<forall>n \<in> set (word_seq (next_number (stored (abs d) c)) j). blocks (abs (sy_db st')) c n = Some (enc (chain c n)))"
proof -
  let ?st0 = "sync_init D try_new ccs d" and ?start = "\<lambda>c. next_number (stored (abs d) c)"
  have live: "live (sy_db st)"
    using sync_reachable_live [OF assms(4) _ _ sync_init_start(2) [OF assms(1,3)] assms(5)] assms(1,2)
    unfolding sync_init_start(1) [OF assms(1,3)] .
  obtain k where inv: "inv (sy_db st)" "sync_inv srcs enc chain (dom (sy_streams ?st0)) ?start k (abs d) (abs (sy_db st)) st"
    using sync_result [OF assms(1,3,4,5)] by (elim conjE exE) (rule that)
  from sync_advances_by [OF assms(4,9) inv(1) live inv(2) assms(6,7,8), where j = j] obtain st' where
    "sync_reachable D srcs st st'" "sy_result st' = None" "synced enc chain ?start (k(c := k c + j)) (abs d) (abs (sy_db st'))"
    unfolding sync_inv_def by (elim conjE exE) (rule that)
  moreover have "set (word_seq a j) \<subseteq> set (word_seq a (i + j))" for a :: u64 and i by (auto simp: word_seq_def)
  ultimately show ?thesis by (force simp: synced_def)
qed

end

subsection \<open>Servers\<close>

text \<open>A node of a chain answers a request for a block with an error, with null or with the JSON
  object of the block of that number, and likewise for its receipts.\<close>

definition node_of :: "eth \<Rightarrow> hex_api \<Rightarrow> http_client \<Rightarrow> (u64 \<Rightarrow> block) \<Rightarrow> bool" where
  "node_of E X http chain \<longleftrightarrow>
     (\<forall>n j. hc_block http ''eth_getBlockByNumber'' [u64_to_hex n, ''true''] (Inr (Some j)) \<longrightarrow>
        jp_header j = header_to_json X (to_header E (chain n)) \<and>
        collect_results (map (transaction_to_json X) (b_transactions (chain n))) = Inr (jp_transactions j) \<and>
        jp_withdrawals j = Some (map (withdrawal_to_json X) (b_withdrawals (chain n)))) \<and>
     (\<forall>n js. hc_receipts http ''eth_getBlockReceipts'' [u64_to_hex n] (Inr (Some js)) \<longrightarrow>
        js = map (receipt_to_json E X) (b_receipts (chain n)))"

text \<open>The blocks that survive the way over JSON: well-formed, without ommers and the other state
  roots, and with transactions of the two kinds whose JSON can be read.\<close>

definition json_block_ok :: "block \<Rightarrow> bool" where
  "json_block_ok b \<longleftrightarrow> wf_block b \<and> list_all json_readable (b_transactions b) \<and> map kind_only (b_transactions b) = b_transactions b \<and>
     b_ommer_headers b = [] \<and> b_verkle_state_root b = None \<and> b_binary_state_root b = None"

lemma network_reply_Inr: "network_reply f reply = Inr v \<longleftrightarrow> (\<exists>j. reply = Inr (Some j) \<and> f j = Inr v)"
  by (cases "case reply of Inr (Some j) \<Rightarrow> f j | _ \<Rightarrow> undefined") (auto simp: network_reply_def split: sum.splits option.splits)

text \<open>The root of a trie of the crate alloy is a hash of 32 bytes.\<close>

locale node_crates = json_crates X E for X :: hex_api and E :: eth +
  assumes trie_root_length: "length (trie_root E leaves) = 32"
begin

lemma wf_to_header: "wf_block b \<Longrightarrow> wf_header (to_header E b)"
proof -
  have "length (foldl (\<lambda>bl r. foldl (accrue_log E) bl (tr_logs r)) bl rs) = 256" if "length bl = 256" for bl and rs :: "transaction_receipt list"
    using that by (induction rs arbitrary: bl) (simp_all add: logs_fold_length)
  then show "wf_block b \<Longrightarrow> wf_header (to_header E b)"
    by (simp add: wf_block_def wf_header_def to_header_def Let_def compute_root_hash_def trie_root_length len_ok_def zero_bytes_def)
qed

lemma parts_json:
  assumes "json_block_ok b" and "jp_header j = header_to_json X (to_header E b)"
    and "collect_results (map (transaction_to_json X) (b_transactions b)) = Inr (jp_transactions j)"
    and "jp_withdrawals j = Some (map (withdrawal_to_json X) (b_withdrawals b))"
  shows "parts_of_json X j = Inr \<lparr>pt_header = to_header E b, pt_transactions = b_transactions b, pt_withdrawals = b_withdrawals b\<rparr>"
proof -
  have wf: "list_all wf_transaction (b_transactions b)" "list_all (\<lambda>w. len_ok 20 (wd_address w)) (b_withdrawals b)"
    using assms(1) by (simp_all add: json_block_ok_def wf_block_def)
  have "collect_results (map (withdrawal_of_json X) (map (withdrawal_to_json X) (b_withdrawals b))) = Inr (map (\<lambda>x. x) (b_withdrawals b))"
    using wf(2) by (intro collect_results_inverse) (auto simp: list_all_iff)
  then show ?thesis
    using assms transactions_json [OF wf(1) assms(3)] header_json [OF wf_to_header]
    by (simp add: parts_of_json_def defaulted_def json_block_ok_def del: map_map list.map_comp)
qed

lemma receipts_json:
  assumes "json_block_ok b"
  shows "collect_results (map (receipt_of_json X) (map (receipt_to_json E X) (b_receipts b))) = Inr (b_receipts b)"
  using assms collect_results_inverse [of "b_receipts b" "receipt_of_json X" "receipt_to_json E X" "\<lambda>x. x"]
  by (auto simp: json_block_ok_def wf_block_def list_all_iff receipt_json)

lemma network_source_serves:
  assumes "node_of E X http chain" and "\<forall>n. b_number (chain n) = n \<and> json_block_ok (chain n)"
  shows "serves (network_source X http) chain"
  unfolding serves_def
proof (intro conjI allI impI)
  fix n parts rs
  show "b_number (chain n) = n" using assms(2) by simp
  assume h: "so_header (network_source X http) n (Inr parts)" and r: "so_receipts (network_source X http) n (Inr rs)"
  have ok: "json_block_ok (chain n)" using assms(2) by simp
  obtain j where j: "hc_block http ''eth_getBlockByNumber'' [u64_to_hex n, ''true''] (Inr (Some j))" "parts_of_json X j = Inr parts"
    using h by (auto simp: network_source_def network_reply_Inr eq_commute [of "Inr _" "network_reply _ _"])
  obtain js where js: "hc_receipts http ''eth_getBlockReceipts'' [u64_to_hex n] (Inr (Some js))"
    "collect_results (map (receipt_of_json X) js) = Inr rs"
    using r by (auto simp: network_source_def network_reply_Inr eq_commute [of "Inr _" "network_reply _ _"])
  have "parts = \<lparr>pt_header = to_header E (chain n), pt_transactions = b_transactions (chain n), pt_withdrawals = b_withdrawals (chain n)\<rparr>"
    using parts_json [OF ok, of j] assms(1) j by (simp add: node_of_def)
  moreover have "js = map (receipt_to_json E X) (b_receipts (chain n))" using assms(1) js(1) by (simp add: node_of_def)
  then have "rs = b_receipts (chain n)" using receipts_json [OF ok] js(2) by (simp del: map_map list.map_comp)
  ultimately show "from_parts (pt_header parts) (pt_transactions parts) rs (pt_withdrawals parts) = chain n"
    using ok by (simp add: from_parts_to_header json_block_ok_def)
qed

end

interpretation plain_node: node_crates plain_hex plain_eth
  by unfold_locales (simp add: plain_eth_def)

subsection \<open>Properties\<close>

text \<open>C3: while \<open>sync\<close> runs, in every order in which its tasks and the receiver take their
  steps and whatever the servers answer, the database stays consistent and holds, for every
  chain, what it held before and a run of consecutive blocks of the server that starts at the
  number after the greatest stored one, or at 0 on an empty chain. Chains without a server and the
  metadata do not change, and no channel holds more than 100 items. The servers are trusted to
  answer with the block of the requested number.\<close>

theorem sync_stores_consecutive_blocks:
  assumes "rocks_block_db R rview wview healthy ho" and "db_inv (rview (rocks_inner d))"
    and "s = abs_of (rview (rocks_inner d))" and "\<forall>cc \<in> set ccs. \<forall>n data b. blocks s (cc_id cc) n = Some data \<longrightarrow> decode_block pr data = Inr b \<longrightarrow> b_number b = n"
    and "\<forall>c. serves (srcs c) (chain c)"
    and "sync_reachable (rocks_blockdb R ho pr) srcs (sync_init (rocks_blockdb R ho pr) try_new ccs d) st"
    and "s' = abs_of (rview (rocks_inner (sy_db st)))"
  shows "db_inv (rview (rocks_inner (sy_db st))) \<and>
    (\<exists>k. (\<forall>c n. blocks s' c n =
        (if n \<in> set (word_seq (next_number (stored s c)) (k c)) then Some (encode_block pr (chain c n)) else blocks s c n)) \<and>
      (\<forall>c. k c \<noteq> 0 \<longrightarrow> (\<exists>cc \<in> set ccs. cc_id cc = c \<and> cc_json_rpc cc \<noteq> None))) \<and>
    rules s' = rules s \<and> corrections s' = corrections s \<and> failed_bundles s' = failed_bundles s \<and>
    (sy_result st = None \<longrightarrow> (\<forall>c su. sy_streams st c = Some su \<longrightarrow> length (su_channel su) \<le> CHANNEL_SIZE))"
proof -
  let ?D = "rocks_blockdb R ho pr"
  from block_store.sync_result [OF rocks_block_db.rocks_block_store [OF assms(1), of pr] assms(2) assms(4) [unfolded assms(3)] assms(5,6)]
  obtain k where inv: "db_inv (rview (rocks_inner (sy_db st)))"
    and syn: "synced (encode_block pr) chain (\<lambda>c. next_number (stored s c)) k s s'"
    and k: "\<forall>c. c \<notin> dom (sy_streams (sync_init ?D try_new ccs d)) \<longrightarrow> k c = 0"
    and str: "sy_result st = None \<longrightarrow> streams_inv srcs chain (\<lambda>c. next_number (stored s c)) k (sy_streams st)"
    unfolding sync_inv_def assms(3,7) [symmetric] by (elim conjE exE) (rule that)
  have "\<forall>c. k c \<noteq> 0 \<longrightarrow> (\<exists>cc \<in> set ccs. cc_id cc = c \<and> cc_json_rpc cc \<noteq> None)"
    using k by (metis domD sync_init_streams(2))
  moreover have "sy_result st = None \<longrightarrow> (\<forall>c su. sy_streams st c = Some su \<longrightarrow> length (su_channel su) \<le> CHANNEL_SIZE)"
    using str by (simp add: streams_inv_def task_inv_def)
  ultimately show ?thesis
    using inv syn unfolding synced_def by blast
qed

text \<open>C18: the synchronisation can always go on. In every reachable state of a \<open>sync\<close> on a
  store that does not fail, a task that has met no error and whose server can answer brings any
  number of further blocks into the database, without a step of another task.\<close>

theorem sync_can_always_advance:
  assumes "rocks_block_db R rview wview healthy ho" and "db_inv (rview (rocks_inner d))" and "healthy (rocks_inner d)"
    and "s = abs_of (rview (rocks_inner d))" and "\<forall>cc \<in> set ccs. \<forall>n data b. blocks s (cc_id cc) n = Some data \<longrightarrow> decode_block pr data = Inr b \<longrightarrow> b_number b = n"
    and "\<forall>c. serves (srcs c) (chain c)"
    and "sync_reachable (rocks_blockdb R ho pr) srcs (sync_init (rocks_blockdb R ho pr) try_new ccs d) st"
    and "sy_result st = None" and "sy_streams st c = Some su" and "running su" and "answers (srcs c)"
  shows "\<exists>st'. sync_reachable (rocks_blockdb R ho pr) srcs st st' \<and> sy_result st' = None \<and>
    (\<forall>n \<in> set (word_seq (next_number (stored s c)) j).
       blocks (abs_of (rview (rocks_inner (sy_db st')))) c n = Some (encode_block pr (chain c n)))"
  using block_store_live.sync_can_continue [OF rocks_block_db.rocks_block_store_live [OF assms(1), of pr] assms(2,3) assms(5) [unfolded assms(4)] assms(6-)]
  unfolding assms(4) .


definition ex_parts :: "u64 \<Rightarrow> block_parts" where
  "ex_parts n = \<lparr>pt_header = default_header\<lparr>bh_number := n\<rparr>, pt_transactions = [], pt_withdrawals = []\<rparr>"

definition ex_node :: block_source where
  "ex_node = \<lparr>so_header = (\<lambda>n r. r = Inl JrNotFound \<or> r = Inr (ex_parts n)), so_receipts = (\<lambda>n r. r = Inr [])\<rparr>"

definition ex_chain :: "u64 \<Rightarrow> block" where
  "ex_chain n = from_parts (default_header\<lparr>bh_number := n\<rparr>) [] [] []"

definition ex_networks :: "chain_config list" where
  "ex_networks = [\<lparr>cc_id = 146, cc_name = ''sonic'', cc_description = '''', cc_json_rpc = Some ''http://localhost''\<rparr>]"

definition ex_sync :: "mem_db rocks_db sync_state" where
  "ex_sync = sync_init mem_blockdb (\<lambda>_. Inr ()) ex_networks ex_db2"

lemma ex_sync_hyps:
  "\<forall>c :: u64. serves ex_node ex_chain" "answers ex_node"
  "\<forall>cc \<in> set ex_networks. \<forall>n data b. blocks (abs_of (mem_view (rocks_inner ex_db2))) (cc_id cc) n = Some data \<longrightarrow>
     decode_block wire_prost data = Inr b \<longrightarrow> b_number b = n"
  "sy_result ex_sync = None" "sy_streams ex_sync 146 = Some (subscribe_to_blocks 0)" "running (subscribe_to_blocks 0)"
proof -
  show "\<forall>c :: u64. serves ex_node ex_chain" "answers ex_node"
    by (simp_all add: serves_def answers_def ex_node_def ex_chain_def ex_parts_def from_parts_def)
  have "blocks (abs_of (mem_view (rocks_inner ex_db2))) 146 n \<noteq> Some data" for n data
    using ex_import_hyps(5) by (simp only: option.distinct simp_thms)
  then show "\<forall>cc \<in> set ex_networks. \<forall>n data b. blocks (abs_of (mem_view (rocks_inner ex_db2))) (cc_id cc) n = Some data \<longrightarrow>
     decode_block wire_prost data = Inr b \<longrightarrow> b_number b = n" by (simp add: ex_networks_def)
  have "db_iterate_bytes mem_blockdb ex_db2 146 u64_max Reverse = []"
    using block_store_live.iterate_bytes_live [OF memdb.rocks_block_store_live conjunct2 [OF conjunct2 [OF ex_healthy]] ex_inv, of 146 u64_max Reverse]
    unfolding block_entries_def ex_import_hyps(3) by simp
  then have "sync_start_block mem_blockdb ex_db2 146 = Inr 0"
    unfolding sync_start_block_def block_store.iterate_law [OF memdb.rocks_block_store] by (simp only: list.map list.case)
  then show "sy_result ex_sync = None" "sy_streams ex_sync 146 = Some (subscribe_to_blocks 0)"
    by (simp_all add: ex_sync_def sync_init_def ex_networks_def)
  show "running (subscribe_to_blocks 0)" by (simp add: running_def subscribe_to_blocks_def)
qed

theorem sync_stores_consecutive_blocks_witness:
  "\<exists>st. sync_reachable mem_blockdb (\<lambda>_. ex_node) ex_sync st \<and> db_inv (mem_view (rocks_inner (sy_db st))) \<and>
     blocks (abs_of (mem_view (rocks_inner (sy_db st)))) 146 1 = Some (encode_block wire_prost (ex_chain 1)) \<and>
     rules (abs_of (mem_view (rocks_inner (sy_db st)))) = rules (abs_of (mem_view (rocks_inner ex_db2)))"
proof -
  have start: "sync_reachable mem_blockdb (\<lambda>_. ex_node) (sync_init mem_blockdb (\<lambda>_. Inr ()) ex_networks ex_db2) ex_sync"
    unfolding ex_sync_def by (rule sync_reachable.start)
  from block_store_live.sync_can_continue [OF memdb.rocks_block_store_live ex_inv conjunct2 [OF conjunct2 [OF ex_healthy]]
      ex_sync_hyps(3,1) start ex_sync_hyps(4-6,2), where j = 2]
  obtain st where st: "sync_reachable mem_blockdb (\<lambda>_. ex_node) ex_sync st"
    "blocks (abs_of (mem_view (rocks_inner (sy_db st)))) 146 1 = Some (encode_block wire_prost (ex_chain 1))"
    unfolding ex_import_hyps(3) by (auto simp: next_number_def numeral_2_eq_2)
  from sync_stores_consecutive_blocks [OF memdb.rocks_block_db_axioms ex_inv refl ex_sync_hyps(3,1) st(1) [unfolded ex_sync_def] refl] st
  show ?thesis by blast
qed

theorem sync_can_always_advance_witness:
  "\<exists>st'. sync_reachable mem_blockdb (\<lambda>_. ex_node) ex_sync st' \<and> sy_result st' = None \<and>
     (\<forall>n \<in> set (word_seq 0 1000). blocks (abs_of (mem_view (rocks_inner (sy_db st')))) 146 n = Some (encode_block wire_prost (ex_chain n)))"
proof -
  have start: "sync_reachable mem_blockdb (\<lambda>_. ex_node) (sync_init mem_blockdb (\<lambda>_. Inr ()) ex_networks ex_db2) ex_sync"
    unfolding ex_sync_def by (rule sync_reachable.start)
  from sync_can_always_advance [OF memdb.rocks_block_db_axioms ex_inv conjunct2 [OF conjunct2 [OF ex_healthy]] refl
      ex_sync_hyps(3,1) start ex_sync_hyps(4-6,2), where j = 1000]
  show ?thesis unfolding ex_import_hyps(3) next_number_def by (simp only: simp_thms if_True)
qed

definition ex_http :: http_client where
  "ex_http =
     \<lparr>hc_block = (\<lambda>method params r. method = ''eth_getBlockByNumber'' \<and> (r = Inr None \<or>
        (\<exists>n. params = [u64_to_hex n, ''true''] \<and>
           r = Inr (Some \<lparr>jp_header = header_to_json plain_hex (to_header plain_eth (ex_chain n)), jp_transactions = [], jp_withdrawals = Some []\<rparr>)))),
      hc_receipts = (\<lambda>method params r. method = ''eth_getBlockReceipts'' \<and> r = Inr (Some []))\<rparr>"


end
