(* ===== verification/Execute.thy ===== *)
theory Execute
  imports Cmd_Import_Files Cmd_Start
begin

section \<open>Running commands\<close>

text \<open>
  The program as the user sees it: blockservice/src/cli.rs has the commands,
  blockservice/src/cmd/mod.rs the function \<open>execute\<close> that runs one of them on an application
  directory. The theories of the commands model what a command does once the directory is open;
  here it is opened, and what the command did to the database is put back into the file system.
  A command that only reads opens a secondary instance, which cannot write, so the file system
  stays as it is. The record \<open>world\<close> collects what a command meets outside of the program:
  remote services, other files, the answer of the user, cancellation. Parsing the arguments is
  clap's and not modelled. The server that \<open>start\<close> runs can be stopped at any time, so its
  outcomes are those of all reachable states of the synchronisation, and running a command is a
  relation. Shown: whatever commands are run, in whatever order and however they fail, every
  database on disk stays consistent.
\<close>

subsection \<open>Commands (cli.rs)\<close>

datatype command =
    Init
  | ImportGfile string bool
  | ImportEra1 string chain bool
  | ImportEra string chain
  | ImportErae string chain bool
  | ImportRulesUpdateHeights chain string
  | ImportCorrections chain string
  | ImportFailedBundles chain string
  | Fetch string chain "u64 option" "u64 option"
  | FetchMetadata string chain
  | List "chain option" "string option"
  | Verify chain "u64 option" "hash option"
  | Purge chain "u64 option" "u64 option"
  | View chain u64
  | ViewRulesUpdateHeights chain
  | ViewCorrections chain
  | Start

record 'd world =
  wo_cancelled :: "nat \<Rightarrow> bool"
  wo_connect :: "string \<Rightarrow> string option \<Rightarrow> string + rpc_client"
  wo_read_dir :: "string \<Rightarrow> string + (string + dir_entry) list"
  wo_era_files :: era_files
  wo_rlp_header :: rlp_header
  wo_gunzip :: "source \<Rightarrow> source"
  wo_open_file :: "string \<Rightarrow> string + file_reader"
  wo_max_blocks :: nat
  wo_read_file :: "string \<Rightarrow> string + bytes"
  wo_to_json :: "block \<Rightarrow> string + string"
  wo_parse_bundles :: "bytes \<Rightarrow> string + u64 list"
  wo_input :: "string + string"
  wo_rocks_create :: "string \<Rightarrow> error + 'd"
  wo_bind :: "u16 \<Rightarrow> string option"
  wo_try_new :: "string \<Rightarrow> json_rpc_error + unit"
  wo_sources :: "u64 \<Rightarrow> block_source"

datatype execute_error =
    OpenFailed error
  | CommandFailed cmd_error
  | ImportFailed import_error
  | BindFailed string
  | SyncFailed sync_error

datatype output_line =
    InitLine init_line
  | ImportLine import_line
  | FetchLine fetch_line
  | MetadataLine bool bool
  | ListLine list_line
  | VerifyLine verify_line
  | PurgeLine purge_line
  | ViewLine view_line
  | MetadataImported u64

type_synonym outcome = "(execute_error + unit) \<times> output_line list"

subsection \<open>Execution (cmd/mod.rs)\<close>

abbreviation service_db :: "('doc, 'db, 'wb) service \<Rightarrow> ('db rocks_db, 'wb kv_batch_wrapper) blockdb" where
  "service_db V \<equiv> rocks_blockdb (sv_rocksdb V) (sv_hash_order V) (sv_prost V)"

definition writing_app_dir ::
  "('doc, 'db, 'wb) service \<Rightarrow> 'db rocks_db fs \<Rightarrow> string \<Rightarrow> (config \<Rightarrow> 'db rocks_db \<Rightarrow> outcome \<times> 'db rocks_db) \<Rightarrow>
    outcome \<times> 'db rocks_db fs" where
  "writing_app_dir V fs app_dir f =
     (case open_service_dir V fs app_dir False of
        Inl e \<Rightarrow> ((Inl (OpenFailed e), []), fs)
      | Inr (cfg, d) \<Rightarrow> (case f cfg d of (r, d') \<Rightarrow> (r, put_store (sv_io V) app_dir d' fs)))"

definition reading_app_dir ::
  "('doc, 'db, 'wb) service \<Rightarrow> 'db rocks_db fs \<Rightarrow> string \<Rightarrow> (config \<Rightarrow> 'db rocks_db \<Rightarrow> outcome) \<Rightarrow> outcome \<times> 'db rocks_db fs" where
  "reading_app_dir V fs app_dir f =
     (case open_service_dir V fs app_dir True of
        Inl e \<Rightarrow> ((Inl (OpenFailed e), []), fs)
      | Inr (cfg, d) \<Rightarrow> (f cfg d, fs))"

definition printed :: "('e \<Rightarrow> execute_error) \<Rightarrow> ('l \<Rightarrow> output_line) \<Rightarrow> ('e + unit) \<times> 'l list \<Rightarrow> outcome" where
  "printed err line r = (map_err err (fst r), map line (snd r))"

definition reported :: "('a \<Rightarrow> output_line list) \<Rightarrow> cmd_error + 'a \<Rightarrow> outcome" where
  "reported lines r = (case r of Inl e \<Rightarrow> (Inl (CommandFailed e), []) | Inr x \<Rightarrow> (Inr (), lines x))"

text \<open>\<open>start\<close> binds the port of the configuration and opens the database twice. Once it is set
  up it does not return by itself, which is the value \<open>None\<close> of \<open>execute\<close>; what it does
  until it fails or is stopped is a rule of \<open>executes\<close>.\<close>

definition bind_address ::
  "('doc, 'db, 'wb) service \<Rightarrow> 'db rocks_db world \<Rightarrow> 'db rocks_db fs \<Rightarrow> string \<Rightarrow> execute_error + unit" where
  "bind_address V W fs dir =
     res_bind (map_err OpenFailed (open_service_dir V fs dir True)) (\<lambda>(cfg, _).
       case wo_bind W (get_port cfg) of Some e \<Rightarrow> Inl (BindFailed e) | None \<Rightarrow> Inr ())"

definition start_setup ::
  "('doc, 'db, 'wb) service \<Rightarrow> 'db rocks_db world \<Rightarrow> 'db rocks_db fs \<Rightarrow> string \<Rightarrow> execute_error + config \<times> 'db rocks_db" where
  "start_setup V W fs dir =
     res_bind (bind_address V W fs dir) (\<lambda>_.
     res_bind (map_err OpenFailed (open_service_dir V fs dir False)) (\<lambda>(cfg, write_db).
     res_bind (map_err OpenFailed (open_service_dir V fs dir True)) (\<lambda>_. Inr (cfg, write_db))))"

fun execute ::
  "('doc, 'db, 'wb) service \<Rightarrow> 'db rocks_db world \<Rightarrow> 'db rocks_db fs \<Rightarrow> string \<Rightarrow> command \<Rightarrow>
    (outcome \<times> 'db rocks_db fs) run option" where
  "execute V W fs dir Init =
     (case init_app_dir (sv_toml V) (sv_api V) (sv_io V) (wo_rocks_create W) (rocks_kvdb (sv_rocksdb V)) fs dir of
        (Inl e, fs') \<Rightarrow> Some (Returns ((Inl (OpenFailed e), []), fs'))
      | (Inr ls, fs') \<Rightarrow> Some (Returns ((Inr (), map InitLine ls), fs')))"
| "execute V W fs dir (ImportGfile gfile check) =
     map_option (map_run (\<lambda>(r, fs'). (printed ImportFailed ImportLine r, fs')))
       (import_gfile V (wo_cancelled W) (wo_rlp_header W) (wo_gunzip W) (wo_open_file W) (wo_max_blocks W) fs dir gfile check)"
| "execute V W fs dir (ImportEra1 era1_dir chain check) =
     (case import_era1 V (wo_cancelled W) (wo_read_dir W) (wo_era_files W) fs dir era1_dir (to_chain_id chain) check of
        (r, fs') \<Rightarrow> Some (Returns (printed ImportFailed ImportLine r, fs')))"
| "execute V W fs dir (ImportEra era_dir chain) =
     (case import_era V (wo_cancelled W) (wo_read_dir W) (wo_era_files W) fs dir era_dir (to_chain_id chain) of
        (r, fs') \<Rightarrow> Some (Returns (printed ImportFailed ImportLine r, fs')))"
| "execute V W fs dir (ImportErae erae_dir chain check) =
     (case import_erae V (wo_cancelled W) (wo_read_dir W) (wo_era_files W) fs dir erae_dir (to_chain_id chain) check of
        (r, fs') \<Rightarrow> Some (Returns (printed ImportFailed ImportLine r, fs')))"
| "execute V W fs dir (ImportRulesUpdateHeights chain file) =
     Some (Returns (writing_app_dir V fs dir (\<lambda>_ d.
       map_prod (reported (\<lambda>_. [MetadataImported (to_chain_id chain)])) id
         (import_rules_update_heights (service_db V) (wo_read_file W) d (to_chain_id chain) file))))"
| "execute V W fs dir (ImportCorrections chain file) =
     Some (Returns (writing_app_dir V fs dir (\<lambda>_ d.
       map_prod (reported (\<lambda>_. [MetadataImported (to_chain_id chain)])) id
         (import_corrections (service_db V) (wo_read_file W) d (to_chain_id chain) file))))"
| "execute V W fs dir (ImportFailedBundles chain file) =
     Some (Returns (writing_app_dir V fs dir (\<lambda>_ d.
       map_prod (reported (\<lambda>_. [MetadataImported (to_chain_id chain)])) id
         (import_failed_bundles (service_db V) (wo_read_file W) d (to_chain_id chain) file))))"
| "execute V W fs dir (Fetch url chain from to) =
     Some (Returns (writing_app_dir V fs dir (\<lambda>cfg d.
       map_prod (reported (\<lambda>l. [FetchLine l])) id (fetch (service_db V) (wo_connect W) cfg d url (to_chain_id chain) from to))))"
| "execute V W fs dir (FetchMetadata url chain) =
     Some (Returns (writing_app_dir V fs dir (\<lambda>cfg d.
       map_prod (reported (\<lambda>(a, b). [MetadataLine a b])) id (fetch_metadata (service_db V) (wo_connect W) cfg d url (to_chain_id chain)))))"
| "execute V W fs dir (List chain url) =
     (if map_option to_chain_id chain = Some 0 then Some (Returns ((Inl (CommandFailed ChainIdZero), []), fs))
      else Some (Returns (reading_app_dir V fs dir (\<lambda>cfg d.
        printed CommandFailed ListLine (list_chains (service_db V) (wo_connect W) cfg d (map_option to_chain_id chain) url)))))"
| "execute V W fs dir (Verify chain block_number expected) =
     Some (Returns (reading_app_dir V fs dir (\<lambda>_ d.
       printed CommandFailed VerifyLine
         (verify (service_db V) (sv_eth V) (wo_parse_bundles W) (wo_cancelled W) d (to_chain_id chain) block_number expected))))"
| "execute V W fs dir (Purge chain from to) =
     (if to_chain_id chain = 0 then Some (Returns ((Inl (CommandFailed ChainIdZero), []), fs))
      else Some (Returns (writing_app_dir V fs dir (\<lambda>_ d.
        map_prod (printed CommandFailed PurgeLine) id (purge (service_db V) d (to_chain_id chain) from to (wo_input W))))))"
| "execute V W fs dir (View chain block_number) =
     Some (Returns (reading_app_dir V fs dir (\<lambda>_ d.
       reported (\<lambda>l. [ViewLine l]) (view (service_db V) (wo_to_json W) d (to_chain_id chain) block_number))))"
| "execute V W fs dir (ViewRulesUpdateHeights chain) =
     Some (Returns (reading_app_dir V fs dir (\<lambda>_ d.
       reported (\<lambda>l. [ViewLine l]) (view_rules_update_heights (service_db V) d (to_chain_id chain)))))"
| "execute V W fs dir (ViewCorrections chain) =
     Some (Returns (reading_app_dir V fs dir (\<lambda>_ d.
       reported (\<lambda>l. [ViewLine l]) (view_corrections (service_db V) d (to_chain_id chain)))))"
| "execute V W fs dir Start = (case start_setup V W fs dir of Inl e \<Rightarrow> Some (Returns ((Inl e, []), fs)) | Inr _ \<Rightarrow> None)"

inductive executes ::
  "('doc, 'db, 'wb) service \<Rightarrow> 'db rocks_db world \<Rightarrow> 'db rocks_db fs \<Rightarrow> string \<Rightarrow> command \<Rightarrow> 'db rocks_db fs \<Rightarrow> bool" for V W fs dir where
  returns: "execute V W fs dir c = Some (Returns (r, fs')) \<Longrightarrow> executes V W fs dir c fs'"
| serving: "start_setup V W fs dir = Inr (cfg, d) \<Longrightarrow>
    sync_reachable (service_db V) (wo_sources W) (sync_init (service_db V) (wo_try_new W) (cfg_chains cfg) d) st \<Longrightarrow>
    executes V W fs dir Start (put_store (sv_io V) dir (sy_db st) fs)"

text \<open>A sequence of commands, each in a world of its own.\<close>

inductive session :: "('doc, 'db, 'wb) service \<Rightarrow> ('db rocks_db world \<Rightarrow> bool) \<Rightarrow> 'db rocks_db fs \<Rightarrow> 'db rocks_db fs \<Rightarrow> bool" for V ok fs0 where
  none: "session V ok fs0 fs0"
| command: "session V ok fs0 fs \<Longrightarrow> ok W \<Longrightarrow> executes V W fs dir c fs' \<Longrightarrow> session V ok fs0 fs'"

subsection \<open>Every command keeps the invariant of the database\<close>

context block_store
begin

lemma import_loop_inv:
  assumes "inv d" and "holds (is_batch st) puts" and "import_loop D E pr c check k cancelled i source d st = (r, d')"
  shows "inv d' \<and> (\<forall>st' ls. r = Inr (st', ls) \<longrightarrow> (\<exists>ps. holds (is_batch st') ps))"
  using assms
proof (induction source arbitrary: i d st puts)
  case (Cons x source)
  obtain r1 d1 where fl: "import_flush D d (is_batch st) = (r1, d1)" by fastforce
  note F = import_flush_effect [OF Cons.prems(1,2) fl]
  have "d' = d \<and> (\<forall>st' ls. r = Inr (st', ls) \<longrightarrow> st' = st) \<or> d' = d1 \<and> (\<exists>e. r = Inl e) \<or>
      (\<exists>batch b prev w m. r1 = Inr batch \<and> import_loop D E pr c check k cancelled (Suc i) source d1
         \<lparr>is_batch = bb_put_bytes D batch c (b_number b) (encode_block pr b), is_prev_parent_hash = prev, is_written = w, is_count = m\<rparr> = (r, d'))"
    using Cons.prems(3) fl by (cases r1) (auto simp: Let_def split: if_splits sum.splits prod.splits)
  then consider "d' = d" "\<And>st' ls. r = Inr (st', ls) \<Longrightarrow> st' = st" | "d' = d1" "\<exists>e. r = Inl e"
    | batch b prev w m where "r1 = Inr batch" "import_loop D E pr c check k cancelled (Suc i) source d1
         \<lparr>is_batch = bb_put_bytes D batch c (b_number b) (encode_block pr b), is_prev_parent_hash = prev, is_written = w, is_count = m\<rparr> = (r, d')"
    by blast
  then show ?case
  proof cases
    case 1
    then show ?thesis using Cons.prems(1,2) by blast
  next
    case 2
    then show ?thesis using F by auto
  next
    case 3
    then obtain ps where "holds batch ps" using F by blast
    then have "holds (bb_put_bytes D batch c (b_number b) (encode_block pr b)) (ps @ [(c, b_number b, encode_block pr b)])" by (rule batch_put_law)
    then show ?thesis using Cons.IH [OF conjunct1 [OF F] _ 3(2)] by simp
  qed
qed auto

lemma import_blocks_inv:
  assumes "inv d" and "import_blocks D E pr cancelled d c check n source = (r, d')"
  shows "inv d'"
proof (cases "d' = d")
  case False
  let ?st0 = "\<lparr>is_batch = db_batch D d, is_prev_parent_hash = None, is_written = 0, is_count = 0\<rparr>"
  have h0: "holds (is_batch ?st0) []" using batch_law by simp
  obtain k r1 d1 where loop: "import_loop D E pr c check k cancelled 0 source d ?st0 = (r1, d1)"
    and rest: "d' = d1 \<or> (\<exists>st ls r2. r1 = Inr (st, ls) \<and> db_write_batch D d1 (is_batch st) = (r2, d'))"
    using assms(2) False by (auto simp: import_blocks_def Let_def split: sum.splits if_splits prod.splits)
  from import_loop_inv [OF assms(1) h0 loop] rest show ?thesis using write_batch_law by metis
qed (simp add: assms(1))

lemma import_inv:
  assumes "inv d" and "import toml io D E pr cancelled fs cfg d c check source = (r, d', cfg', fs')"
  shows "inv d' \<and> fs_stores fs' = fs_stores fs"
proof -
  have "fs_stores fs1 = fs_stores fs" if "add_chain toml io fs cfg cc = (r1, cfg1, fs1)" for r1 cfg1 fs1 cc
    using that by (auto simp: add_chain_def write_file_def Let_def split: if_splits sum.splits option.splits prod.splits)
  moreover have "inv d1" if "import_blocks D E pr cancelled d c check n source = (r1, d1)" for n r1 d1
    using import_blocks_inv [OF assms(1) that] .
  ultimately show ?thesis
    using assms by (auto simp: import_def Let_def split: list.splits sum.splits if_splits prod.splits)
qed

lemma put_optional_inv:
  assumes "inv d" and "put_optional put d c data = (r, d')" and "\<And>data r d'. put d c data = (r, d') \<Longrightarrow> inv d'"
  shows "inv d'"
  using assms by (auto simp: put_optional_def split: option.splits sum.splits prod.splits)

lemma fetch_metadata_inv:
  assumes "inv d" and "fetch_metadata D connect cfg d url c = (r, d')"
  shows "inv d'"
proof -
  have rules: "inv d1" if "put_optional (db_put_rules_update_heights D) d c x = (r1, d1)" for x r1 d1
    using put_optional_inv [OF assms(1) that] put_rules_law [OF assms(1)] by blast
  have "inv d2" if "put_optional (db_put_rules_update_heights D) d c x = (r1, d1)" "put_optional (db_put_corrections D) d1 c y = (r2, d2)" for x y r1 d1 r2 d2
    using put_optional_inv [OF rules [OF that(1)] that(2)] put_corrections_law [OF rules [OF that(1)]] by blast
  then show ?thesis
    using assms rules by (auto simp: fetch_metadata_def split: sum.splits prod.splits)
qed

lemma sync_inv_always:
  assumes "sync_reachable D srcs st0 st" and "inv (sy_db st0)"
  shows "inv (sy_db st)"
  using assms
proof (induction rule: sync_reachable.induct)
  case (step st st')
  have rcv: "inv (sy_db (sync_receive D c item (st\<lparr>sy_streams := x\<rparr>)))" for c item x
    using put_bytes_law [of "sy_db st" c] step.IH [OF step.prems]
    by (auto simp: sync_receive_def put_law split: sum.split prod.split)
  from step(2) step.IH [OF step.prems] rcv show ?case by (cases rule: sync_step.cases) auto
qed

end

subsection \<open>Databases on disk\<close>

text \<open>A database that was being created when the program failed is empty, and cannot be opened.\<close>

definition consistent :: "store \<Rightarrow> bool" where
  "consistent m \<longleftrightarrow> db_inv m \<or> m = Map.empty"

definition databases_ok :: "('db \<Rightarrow> store) \<Rightarrow> 'db rocks_db fs \<Rightarrow> bool" where
  "databases_ok rview fs \<longleftrightarrow> (\<forall>path d. fs_stores fs path = Some d \<longrightarrow> consistent (rview (rocks_inner d)))"

text \<open>A newly created RocksDB directory is empty.\<close>

definition creates_empty :: "('db \<Rightarrow> store) \<Rightarrow> 'db rocks_db world \<Rightarrow> bool" where
  "creates_empty rview W \<longleftrightarrow> (\<forall>path d. wo_rocks_create W path = Inr d \<longrightarrow> rview (rocks_inner d) = Map.empty)"

lemma databases_ok_put_store:
  "databases_ok rview fs \<Longrightarrow> db_inv (rview (rocks_inner d)) \<Longrightarrow> databases_ok rview (put_store io dir d fs)"
  by (auto simp: databases_ok_def put_store_def consistent_def split: sum.split)

lemma databases_ok_stores: "fs_stores fs' = fs_stores fs \<Longrightarrow> databases_ok rview fs \<Longrightarrow> databases_ok rview fs'"
  by (simp add: databases_ok_def)

lemma ensure_directory_stores: "ensure_directory io fs dir = (r, fs') \<Longrightarrow> fs_stores fs' = fs_stores fs"
  by (auto simp: ensure_directory_def split: if_splits option.splits)

lemma init_config_stores: "init_config toml api io fs path = (r, fs') \<Longrightarrow> fs_stores fs' = fs_stores fs"
  by (auto simp: init_config_def config_create_default_def write_file_def Let_def split: if_splits sum.splits option.splits prod.splits)

lemma map_run_Returns: "map_run f x = Returns y \<longleftrightarrow> (\<exists>z. x = Returns z \<and> y = f z)"
  by (cases x) auto

context kv_store
begin

lemma open_db_consistent: "open_db kv d = Inr d' \<Longrightarrow> consistent (view d) \<Longrightarrow> d' = d \<and> db_inv (view d')"
  using get_ok [of d VERSION_KEY] by (cases "view d VERSION_KEY") (auto simp: open_db_def consistent_def split: if_splits)

lemma create_consistent: "create kv d = (r, d') \<Longrightarrow> view d = Map.empty \<Longrightarrow> consistent (view d')"
  using put_err create_ok(2) [of d _ d'] by (cases r) (auto simp: create_def consistent_def split: list.splits sum.splits)

end

locale running_service =
  fixes V :: "('doc, 'db, 'wb) service" and rview :: "'db \<Rightarrow> store" and wview :: "'wb \<Rightarrow> store \<Rightarrow> store" and healthy :: "'db \<Rightarrow> bool"
  assumes rocks: "rocks_block_db (sv_rocksdb V) rview wview healthy (sv_hash_order V)"
    and opens: "sv_rocks_open V ro d = Inr d' \<Longrightarrow> rview (rocks_inner d') = rview (rocks_inner d)"
begin

lemmas store = rocks_block_db.rocks_block_store [OF rocks, of "sv_prost V"]
lemmas kv = rocksdb_crate.rocks_store [OF rocks_block_db.axioms(1) [OF rocks]]

lemma open_service_dir_inv:
  assumes "databases_ok rview fs" and "open_service_dir V fs dir ro = Inr (cfg, d)"
  shows "db_inv (rview (rocks_inner d))"
proof -
  obtain path store d1 where "fs_stores fs path = Some store" "sv_rocks_open V ro store = Inr d1" "open_db (rocks_kvdb (sv_rocksdb V)) d1 = Inr d"
    using assms(2) by (auto simp: open_service_dir_def open_app_dir_def Let_def split: if_splits option.splits)
  moreover from this have "consistent (rview (rocks_inner d1))" using assms(1) opens by (auto simp: databases_ok_def)
  ultimately show ?thesis using kv_store.open_db_consistent [OF kv] by blast
qed

lemma writing_ok:
  assumes "databases_ok rview fs" and "writing_app_dir V fs dir f = (r, fs')"
    and "\<And>cfg d r d'. db_inv (rview (rocks_inner d)) \<Longrightarrow> f cfg d = (r, d') \<Longrightarrow> db_inv (rview (rocks_inner d'))"
  shows "databases_ok rview fs'"
proof (cases "open_service_dir V fs dir False")
  case (Inl e)
  then show ?thesis using assms(1,2) by (simp add: writing_app_dir_def)
next
  case (Inr cd)
  then obtain cfg d where cd: "open_service_dir V fs dir False = Inr (cfg, d)" by (cases cd) simp
  obtain r1 d1 where f: "f cfg d = (r1, d1)" by fastforce
  from assms(3) [OF open_service_dir_inv [OF assms(1) cd] this] have "db_inv (rview (rocks_inner d1))" .
  then show ?thesis using assms(1,2) cd f databases_ok_put_store by (auto simp: writing_app_dir_def)
qed

lemma reading_ok: "databases_ok rview fs \<Longrightarrow> reading_app_dir V fs dir f = (r, fs') \<Longrightarrow> databases_ok rview fs'"
  by (auto simp: reading_app_dir_def split: sum.splits)

lemma run_import_ok:
  assumes "databases_ok rview fs" and "db_inv (rview (rocks_inner d))" and "run_import V cancelled fs dir cfg d c check source = (r, fs')"
  shows "databases_ok rview fs'"
proof -
  obtain r1 d1 cfg1 fs1 where i: "import (sv_toml V) (sv_io V) (service_db V) (sv_eth V) (sv_prost V) cancelled fs cfg d c check source = (r1, d1, cfg1, fs1)"
    by (metis prod_cases3)
  from block_store.import_inv [OF store assms(2) i] have "db_inv (rview (rocks_inner d1))" "databases_ok rview fs1"
    using databases_ok_stores assms(1) by blast+
  then show ?thesis using assms(3) i databases_ok_put_store by (auto simp: run_import_def)
qed

lemma import_era_dir_ok:
  assumes "databases_ok rview fs" and "import_era_dir V cancelled read_dir format fs dir era c check = (r, fs')"
  shows "databases_ok rview fs'"
  using assms by (auto simp: import_era_dir_def split: sum.splits intro: run_import_ok [OF assms(1) open_service_dir_inv [OF assms(1)]])

lemma import_gfile_ok:
  assumes "databases_ok rview fs" and "import_gfile V cancelled H gunzip open_file fuel fs dir path check = Some (Returns (r, fs'))"
  shows "databases_ok rview fs'"
  using assms
  by (auto simp: import_gfile_def split: sum.splits option.splits run.splits intro: run_import_ok [OF assms(1) open_service_dir_inv [OF assms(1)]])

lemma init_ok:
  assumes "databases_ok rview fs" and "creates_empty rview W"
    and "init_app_dir (sv_toml V) (sv_api V) (sv_io V) (wo_rocks_create W) (rocks_kvdb (sv_rocksdb V)) fs dir = (r, fs')"
  shows "databases_ok rview fs'"
proof -
  have db: "databases_ok rview fs2" if "databases_ok rview fs1" "init_db (wo_rocks_create W) (rocks_kvdb (sv_rocksdb V)) fs1 path = (r1, fs2)"
    for r1 path fs1 fs2
    using that assms(2) kv_store.create_consistent [OF kv]
    by (auto simp: init_db_def databases_ok_def creates_empty_def Let_def split: if_splits sum.splits prod.splits)
  obtain r1 fs1 where e: "ensure_directory (sv_io V) fs dir = (r1, fs1)" by fastforce
  then have ok1: "databases_ok rview fs1" using ensure_directory_stores databases_ok_stores assms(1) by blast
  show ?thesis
  proof (cases "\<exists>path. r1 = Inr () \<and> io_canonicalize (sv_io V) dir = Inr path")
    case False
    then have "fs' = fs1" using assms(3) e by (auto simp: init_app_dir_def split: sum.splits)
    then show ?thesis using ok1 by simp
  next
    case True
    then obtain path where path: "r1 = Inr ()" "io_canonicalize (sv_io V) dir = Inr path" by blast
    obtain r2 fs2 where c: "init_config (sv_toml V) (sv_api V) (sv_io V) fs1 path = (r2, fs2)" by fastforce
    obtain r3 fs3 where d: "init_db (wo_rocks_create W) (rocks_kvdb (sv_rocksdb V)) fs2 path = (r3, fs3)" by fastforce
    have ok2: "databases_ok rview fs2" using init_config_stores [OF c] databases_ok_stores ok1 by blast
    have "fs' = fs2 \<or> fs' = fs3" using assms(3) e c d path by (auto simp: init_app_dir_def split: sum.splits)
    then show ?thesis using ok2 db [OF ok2 d] by blast
  qed
qed

lemma import_file_ok:
  assumes "db_inv (rview (rocks_inner d))" and "import_file put read_file d c file = (r, d')"
    and "\<And>data r d'. put d c data = (r, d') \<Longrightarrow> db_inv (rview (rocks_inner d'))"
  shows "db_inv (rview (rocks_inner d'))"
  using assms by (auto simp: import_file_def split: sum.splits prod.splits)

lemma writing_map_ok:
  assumes "databases_ok rview fs" and "writing_app_dir V fs dir (\<lambda>cfg d. map_prod g id (f cfg d)) = (r, fs')"
    and "\<And>cfg d r d'. db_inv (rview (rocks_inner d)) \<Longrightarrow> f cfg d = (r, d') \<Longrightarrow> db_inv (rview (rocks_inner d'))"
  shows "databases_ok rview fs'"
proof (rule writing_ok [OF assms(1,2)])
  fix cfg d r d'
  assume "db_inv (rview (rocks_inner d))" and "map_prod g id (f cfg d) = (r, d')"
  then show "db_inv (rview (rocks_inner d'))" using assms(3) [of d cfg] by (cases "f cfg d") auto
qed

lemma metadata_imports_ok:
  assumes "db_inv (rview (rocks_inner d))"
  shows "import_rules_update_heights (service_db V) read_file d c file = (r, d') \<Longrightarrow> db_inv (rview (rocks_inner d'))"
    and "import_corrections (service_db V) read_file d c file = (r, d') \<Longrightarrow> db_inv (rview (rocks_inner d'))"
    and "import_failed_bundles (service_db V) read_file d c file = (r, d') \<Longrightarrow> db_inv (rview (rocks_inner d'))"
  using import_file_ok [OF assms] block_store.put_rules_law [OF store assms] block_store.put_corrections_law [OF store assms]
    block_store.put_failed_bundles_law [OF store assms]
  unfolding import_rules_update_heights_def import_corrections_def import_failed_bundles_def by blast+

lemma execute_ok:
  assumes "databases_ok rview fs" and "creates_empty rview W" and "execute V W fs dir c = Some (Returns (r, fs'))"
  shows "databases_ok rview fs'"
proof (cases c)
  case Init
  then show ?thesis using assms(3) init_ok [OF assms(1,2)] by (auto split: sum.splits prod.splits)
next
  case (ImportGfile gfile check)
  then show ?thesis using assms(3) import_gfile_ok [OF assms(1)] by (auto simp: map_run_Returns)
next
  case (ImportEra1 era chain check)
  then show ?thesis using assms(3) import_era_dir_ok [OF assms(1)] by (auto simp: import_era1_def split: prod.splits)
next
  case (ImportEra era chain)
  then show ?thesis using assms(3) import_era_dir_ok [OF assms(1)] by (auto simp: import_era_def split: prod.splits)
next
  case (ImportErae era chain check)
  then show ?thesis using assms(3) import_era_dir_ok [OF assms(1)] by (auto simp: import_erae_def split: prod.splits)
next
  case (ImportRulesUpdateHeights chain path)
  then show ?thesis using assms(3) by (auto intro: writing_map_ok [OF assms(1)] metadata_imports_ok(1))
next
  case (ImportCorrections chain path)
  then show ?thesis using assms(3) by (auto intro: writing_map_ok [OF assms(1)] metadata_imports_ok(2))
next
  case (ImportFailedBundles chain path)
  then show ?thesis using assms(3) by (auto intro: writing_map_ok [OF assms(1)] metadata_imports_ok(3))
next
  case (Fetch url chain a b)
  then show ?thesis
    using assms(3) block_store.fetch_effect [OF store] by (auto intro: writing_map_ok [OF assms(1)])
next
  case (FetchMetadata url chain)
  then show ?thesis
    using assms(3) block_store.fetch_metadata_inv [OF store] by (auto intro: writing_map_ok [OF assms(1)])
next
  case (Purge chain a b)
  then show ?thesis
    using assms(1,3) block_store.purge_ok(1) [OF store] by (auto split: if_splits intro: writing_map_ok [OF assms(1)])
next
  case (List chain url)
  then show ?thesis using assms(1,3) reading_ok by (auto split: if_splits)
next
  case Start
  then show ?thesis using assms(1,3) by (auto split: sum.splits)
qed (use assms reading_ok in auto)

end

inductive_cases executesE: "executes V W fs dir c fs'"

context running_service
begin

lemma start_ok:
  assumes "databases_ok rview fs" and "start_setup V W fs dir = Inr (cfg, d)"
    and "sync_reachable (service_db V) srcs (sync_init (service_db V) try_new ccs d) st"
  shows "databases_ok rview (put_store (sv_io V) dir (sy_db st) fs)"
proof -
  have "open_service_dir V fs dir False = Inr (cfg, d)" using assms(2) by (auto simp: start_setup_def)
  then have "db_inv (rview (rocks_inner d))" by (rule open_service_dir_inv [OF assms(1)])
  moreover have "sy_db (sync_init (service_db V) try_new ccs d) = d" by (simp add: sync_init_def split: sum.split)
  ultimately have "db_inv (rview (rocks_inner (sy_db st)))" using block_store.sync_inv_always [OF store assms(3)] by simp
  then show ?thesis by (rule databases_ok_put_store [OF assms(1)])
qed

lemma executes_ok:
  assumes "executes V W fs dir c fs'" and "databases_ok rview fs" and "creates_empty rview W"
  shows "databases_ok rview fs'"
  using assms by (auto elim!: executesE intro: execute_ok start_ok)

lemma session_ok: "session V (creates_empty rview) fs0 fs \<Longrightarrow> databases_ok rview fs0 \<Longrightarrow> databases_ok rview fs"
  by (induction rule: session.induct) (auto intro: executes_ok)

end

end
