(* ===== verification/Replication.thy ===== *)
theory Replication
  imports Cmd_Fetch
begin

section \<open>Fetching from a served database\<close>

text \<open>
  The server, the client, the token check and the command \<open>fetch\<close> put together: a service
  that fetches from another one. The locale \<open>block_server\<close> is what \<open>fetch\<close> needs of
  the other side, the handlers of \<open>RpcServer\<close> over a database that does not fail provide
  it. Shown: such a fetch succeeds and copies exactly the missing blocks, and a client without
  the token of the server gets nothing and changes nothing.
\<close>

subsection \<open>Sorted lists and ranges\<close>

lemma takeWhile_sorted: "sorted xs \<Longrightarrow> takeWhile (\<lambda>x. x \<le> b) xs = filter (\<lambda>x. x \<le> b) xs"
  by (induction xs) (auto simp: filter_empty_conv eq_commute [of "[]"] dest: order_trans)

lemma filter_sorted_list_of_set: "finite S \<Longrightarrow> filter P (sorted_list_of_set S) = sorted_list_of_set {x \<in> S. P x}"
  by (intro sorted_distinct_set_unique) (auto simp: sorted_wrt_filter)

lemma canonical_interval_within:
  assumes "canonical rs" and "a \<le> b" and "{a .. b} \<subseteq> ranges_set rs"
  shows "\<exists>q \<in> set rs. range_start q \<le> a \<and> b \<le> range_end q"
  using assms(1,3)
proof (induction rs)
  case Nil
  then show ?case using assms(2) by auto
next
  case (Cons r rs)
  have a: "a \<in> ranges_set (r # rs)" using Cons.prems(2) assms(2) by auto
  consider "range_end r < a" | "a \<le> range_end r" "b \<le> range_end r" | "a \<le> range_end r" "range_end r < b" by fastforce
  then show ?case
  proof cases
    case 1
    then have "{a .. b} \<subseteq> ranges_set rs" using Cons.prems(2) by (fastforce simp: range_set_def)
    then show ?thesis using Cons canonical_ConsD(1) by auto
  next
    case 2
    then show ?thesis using canonical_first(2) [OF Cons.prems(1) a] by auto
  next
    case 3
    then have suc: "unat (range_end r + 1) = Suc (unat (range_end r))" by (intro unat_Suc_word) auto
    then have "range_end r + 1 \<in> {a .. b}" "range_end r + 1 \<notin> range_set r"
      using 3 by (auto simp: range_set_def word_nat_order)
    then have "range_end r + 1 \<in> ranges_set rs" using Cons.prems(2) by auto
    from canonical_first(3) [OF Cons.prems(1) this] suc show ?thesis by simp
  qed
qed

lemma canonical_last: "canonical rs \<Longrightarrow> rs \<noteq> [] \<Longrightarrow> range_end (last rs) = Max (ranges_set rs)"
proof (induction rs)
  case (Cons r rs)
  show ?case
  proof (cases "rs = []")
    case True
    then show ?thesis using Cons.prems(1) by (auto simp: canonical_Cons range_set_def intro!: Max_eqI [symmetric])
  next
    case False
    have can: "canonical rs" using Cons.prems(1) by (simp add: canonical_Cons)
    then have ne: "ranges_set rs \<noteq> {}" using False by (cases rs) (auto simp: canonical_Cons range_set_def)
    have "x \<le> Max (ranges_set rs)" if "x \<in> range_set r" for x
    proof -
      have "Max (ranges_set rs) \<in> ranges_set rs" using ne by (intro Max_in) simp_all
      from canonical_first(3) [OF Cons.prems(1) this] that show ?thesis by (simp add: range_set_def word_nat_order)
    qed
    then have "Max (ranges_set (r # rs)) = Max (ranges_set rs)"
      using ne by (intro Max_eqI) auto
    then show ?thesis using Cons.IH [OF can False] False by simp
  qed
qed simp

lemma canonical_sorted_keys: "canonical rs \<Longrightarrow> sorted (map range_key rs)"
  by (induction rs) (fastforce simp: canonical_Cons range_key_def less_eq_prod_def word_nat_order)+

lemma partitioned_cover_cmp:
  assumes "canonical remote" and "q \<in> set remote" and "range_start q \<le> range_start r" and "range_end r \<le> range_end q"
    and "range_start r \<le> range_end r"
  shows "\<exists>i. binary_search_by (cover_cmp r) remote = Inr i"
proof -
  obtain k where k: "k < length remote" "remote ! k = q" using assms(2) by (auto simp: in_set_conv_nth)
  have before: "cover_cmp r (remote ! i) = Less" if "i < k" for i
  proof -
    have "unat (range_end (remote ! i)) + 1 < unat (range_start q)" "range_start (remote ! i) \<le> range_end (remote ! i)"
      using that k assms(1) by (auto simp: canonical_def sorted_wrt_iff_nth_less)
    then show ?thesis using assms(3-5) by (auto simp: cover_cmp_def word_nat_order)
  qed
  have after: "cover_cmp r (remote ! i) = Greater" if "k < i" "i < length remote" for i
  proof -
    have "unat (range_end q) + 1 < unat (range_start (remote ! i))"
      using that k assms(1) by (auto simp: canonical_def sorted_wrt_iff_nth_less)
    then show ?thesis using assms(3-5) by (auto simp: cover_cmp_def word_nat_order)
  qed
  have at: "cover_cmp r (remote ! k) = Equal" using k assms(3,4) by (simp add: cover_cmp_def)
  have "partitioned (cover_cmp r) remote"
    unfolding partitioned_def using before after at by (metis linorder_neqE_nat less_trans ordering.distinct(1,3,5))
  from partitioned_binary_search_by [OF this] at k(1) show ?thesis
    by (cases "binary_search_by (cover_cmp r) remote") (auto simp: not_less, metis le_less_linear ordering.distinct(1,3,5))
qed

lemma find_uncovered_None:
  assumes "canonical remote" and "nonempty_ranges rs" and "ranges_set rs \<subseteq> ranges_set remote"
  shows "find_uncovered rs remote = None"
proof -
  have "\<exists>i. binary_search_by (cover_cmp r) remote = Inr i" if "r \<in> set rs" for r
  proof -
    have r: "range_start r \<le> range_end r" "{range_start r .. range_end r} \<subseteq> ranges_set remote"
      using that assms(2,3) by (auto simp: nonempty_ranges_def ranges_set_def range_set_def)
    from canonical_interval_within [OF assms(1) this] partitioned_cover_cmp [OF assms(1)] r(1) show ?thesis by blast
  qed
  then show ?thesis by (fastforce simp: find_uncovered_def find_None_iff split: sum.split)
qed

subsection \<open>What a fetch needs of a server\<close>

definition stream_blocks :: "(u64 \<rightharpoonup> bytes) \<Rightarrow> u64 \<Rightarrow> u64 \<Rightarrow> encoded_block list" where
  "stream_blocks t a b = map (\<lambda>k. encoded (k, the (t k))) (sorted_list_of_set {k \<in> dom t. a \<le> k \<and> k \<le> b})"

locale block_server =
  fixes client :: rpc_client and c :: u64 and t :: "u64 \<rightharpoonup> bytes"
  assumes list_law: "\<exists>l. client_list client (Some c) = Inr [l] \<and> cl_chain_id l = c \<and>
      canonical (map range_of_proto (cl_block_ranges l)) \<and> ranges_set (map range_of_proto (cl_block_ranges l)) = dom t"
    and stream_law: "a \<le> b \<Longrightarrow> client_get_block_range client c a b = Inr (map Inr (stream_blocks t a b))"
    and invalid_law: "b < a \<Longrightarrow> client_get_block_range client c a b = Inl InvalidArgument"
    and no_max: "u64_max \<notin> dom t"
begin

lemma streams_short: "client_get_block_range client c a b = Inr stream \<Longrightarrow> length stream < 2 ^ 64"
proof -
  assume "client_get_block_range client c a b = Inr stream"
  then have "length stream = card {k \<in> dom t. a \<le> k \<and> k \<le> b}"
    using stream_law [of a b] invalid_law [of b a] by (cases "a \<le> b") (auto simp: stream_blocks_def)
  also have "\<dots> \<le> card (UNIV - {u64_max})" using no_max by (intro card_mono) auto
  also have "\<dots> < 2 ^ 64" by (simp add: card_Diff_singleton card_word)
  finally show ?thesis .
qed

lemma stream_numbers:
  assumes "range_start q \<le> range_end q" and "range_set q \<subseteq> dom t"
  shows "map eb_number (stream_blocks t (range_start q) (range_end q)) = word_seq (range_start q) (Suc (unat (range_end q - range_start q)))"
proof -
  have "{k \<in> dom t. range_start q \<le> k \<and> k \<le> range_end q} = {range_start q .. range_end q}"
    using assms(2) by (auto simp: range_set_def)
  then show ?thesis unfolding word_seq_interval [OF assms(1)] by (simp add: stream_blocks_def encoded_def comp_def)
qed

lemma remote_ranges:
  assumes "dom t \<noteq> {}"
  shows "\<exists>listings rs. client_list client (Some c) = Inr listings \<and> remote_chain_ranges c listings = Inr rs \<and>
    canonical rs \<and> ranges_set rs = dom t \<and> range_end (last rs) = Max (dom t)"
proof -
  obtain l where l: "client_list client (Some c) = Inr [l]" "cl_chain_id l = c"
    "canonical (map range_of_proto (cl_block_ranges l))" "ranges_set (map range_of_proto (cl_block_ranges l)) = dom t" using list_law by blast
  let ?rs = "map range_of_proto (cl_block_ranges l)"
  have "?rs \<noteq> []" using l(4) assms by (metis ranges_set_simps(1))
  then have "range_end (last ?rs) = Max (dom t)" "remote_chain_ranges c [l] = Inr ?rs"
    using canonical_last [OF l(3)] canonical_sorted_keys [OF l(3)] l(2,4) by (simp_all add: remote_chain_ranges_def)
  then show ?thesis using l by blast
qed

end

subsection \<open>A fetch from such a server\<close>

context block_store_live
begin

lemma fetch_stream_live:
  assumes "inv d" and "live d" and "map eb_number bs = word_seq n (length bs)"
  shows "\<exists>d' w'. fetch_stream D d c (map Inr bs) n w = (Inr (n + of_nat (length bs), w'), d') \<and> inv d' \<and> live d'"
  using assms
proof (induction bs arbitrary: d n w)
  case (Cons b bs)
  obtain d1 where d1: "db_put_bytes D d c n (eb_data b) = (Inr (), d1)" "live d1" using put_bytes_live [OF Cons.prems(2,1)] by blast
  moreover have "inv d1" using put_bytes_law [OF Cons.prems(1) d1(1)] by simp
  moreover have "eb_number b = n" "map eb_number bs = word_seq (n + 1) (length bs)" using Cons.prems(3) by simp_all
  ultimately show ?case using Cons.IH [of d1 "n + 1" "w + length (eb_data b)"] by (auto simp: ac_simps)
qed simp

lemma fetch_ranges_live:
  assumes "block_server client c t" and "inv d" and "live d" and "nonempty_ranges rs" and "ranges_set rs \<subseteq> dom t"
  shows "\<exists>cnt' w' d'. fetch_ranges D client c d rs cnt w = (Inr (cnt', w'), d')"
  using assms(2-5)
proof (induction rs arbitrary: d cnt w)
  case (Cons q rs)
  let ?a = "range_start q" and ?b = "range_end q"
  have ab: "?a \<le> ?b" and sub: "range_set q \<subseteq> dom t" using Cons.prems(3,4) by (auto simp: nonempty_ranges_def)
  let ?bs = "stream_blocks t ?a ?b"
  have num: "map eb_number ?bs = word_seq ?a (length ?bs)" and len: "length ?bs = Suc (unat (?b - ?a))"
    using block_server.stream_numbers [OF assms(1) ab sub] by (metis length_map length_word_seq)+
  obtain d1 w1 where d1: "fetch_stream D d c (map Inr ?bs) ?a w = (Inr (?a + of_nat (length ?bs), w1), d1)" "inv d1" "live d1"
    using fetch_stream_live [OF Cons.prems(1,2) num] by blast
  have "?a + of_nat (length ?bs) - 1 = ?b" by (simp add: len)
  then show ?case
    using Cons.IH [OF d1(2,3), of "cnt + unat (?b - ?a + 1)" w1] Cons.prems(3,4) d1(1) block_server.stream_law [OF assms(1) ab]
    by (auto simp: Let_def nonempty_ranges_def)
qed simp

lemma fetch_from_server:
  assumes "inv d" and "live d" and "connect url (get_auth_token cfg) = Inr client" and "block_server client c t" and "dom t \<noteq> {}"
    and "a = (case from_opt of None \<Rightarrow> 0 | Some n \<Rightarrow> n)" and "b = (case to_opt of None \<Rightarrow> Max (dom t) | Some n \<Rightarrow> n)"
    and "a \<le> b" and "b \<noteq> u64_max" and "{a .. b} \<subseteq> stored (abs d) c \<union> dom t"
  shows "\<exists>line d'. fetch D connect cfg d url c from_opt to_opt = (Inr line, d') \<and>
    stored (abs d') c = stored (abs d) c \<union> {a .. b} \<and>
    (\<forall>n. blocks (abs d') c n = (if n \<in> {a .. b} - stored (abs d) c then t n else blocks (abs d) c n))"
proof -
  obtain listings remote where R: "client_list client (Some c) = Inr listings" "remote_chain_ranges c listings = Inr remote"
    "canonical remote" "ranges_set remote = dom t" "range_end (last remote) = Max (dom t)"
    using block_server.remote_ranges [OF assms(4,5)] by blast
  obtain lr where lr: "db_get_ranges_of_chain_id D d c = Inr lr" using ranges_live [OF assms(2,1)] by blast
  have bounds: "fetch_bounds from_opt to_opt remote = BlockRange a b" by (cases to_opt) (simp_all add: fetch_bounds_def R(5) assms(6,7))
  define rs where "rs = subtract_ranges (BlockRange a b) lr"
  have "canonical [BlockRange a b]" using assms(8) by (simp add: canonical_def)
  from canonical_subtract_ranges [OF this] ranges_law [OF assms(1) lr] have rs: "canonical rs" "ranges_set rs = {a .. b} - stored (abs d) c"
    by (auto simp: rs_def subtract_ranges_def nonempty_ranges_def)
  have sub: "ranges_set rs \<subseteq> dom t" "nonempty_ranges rs" using rs assms(10) by (auto simp: canonical_def nonempty_ranges_def)
  have "find_uncovered rs remote = None" using find_uncovered_None [OF R(3) sub(2)] sub(1) R(4) by simp
  moreover obtain cnt w d1 where "fetch_ranges D client c d rs 0 0 = (Inr (cnt, w), d1)"
    using fetch_ranges_live [OF assms(4,1,2) sub(2,1)] by blast
  ultimately have "fetch D connect cfg d url c from_opt to_opt =
      (if rs = [] then (Inr (NothingToFetch c a b), d) else (Inr (Fetched cnt (w div (1024 * 1024))), d1))"
    using assms(3,8) R(1,2) lr by (simp add: fetch_def bounds rs_def Let_def)
  then obtain line d' where run: "fetch D connect cfg d url c from_opt to_opt = (Inr line, d')" by (cases "rs = []") simp_all
  have short: "\<forall>a b stream. client_get_block_range client c a b = Inr stream \<longrightarrow> length stream < 2 ^ 64"
    using block_server.streams_short [OF assms(4)] by blast
  note ok = fetch_ok [OF assms(1) run assms(3) short R(1,2) bounds [symmetric]]
  have new: "blocks (abs d') c n = t n" if n: "n \<in> {a .. b} - stored (abs d) c" for n
  proof -
    obtain q bs b' where q: "b' \<in> set bs" "eb_number b' = n" "blocks (abs d') c n = Some (eb_data b')"
      "client_get_block_range client c (range_start q) (range_end q) = Inr (map Inr bs)"
      using ok(3) [of n] n assms(9) by auto
    have "bs = stream_blocks t (range_start q) (range_end q)"
      using block_server.stream_law [OF assms(4), of "range_start q" "range_end q"] block_server.invalid_law [OF assms(4), of "range_end q" "range_start q"] q(4)
      by (cases "range_start q \<le> range_end q") (auto simp: inj_map_eq_map not_le)
    then show ?thesis using q(1-3) by (auto simp: stream_blocks_def encoded_def)
  qed
  have "blocks (abs d') c n = blocks (abs d) c n" if "n \<notin> {a .. b} - stored (abs d) c" for n
  proof (cases "n \<in> stored (abs d) c")
    case True
    then show ?thesis using ok(2) [of n] assms(9) by simp
  next
    case False
    then have "n \<notin> stored (abs d') c" using ok(1) that assms(9) by simp
    then show ?thesis using False by (simp add: stored_def domIff)
  qed
  then show ?thesis using run new ok(1) assms(9) by auto
qed

end

subsection \<open>The server provides it\<close>

abbreviation server_client :: "('d, 'b) blockdb \<Rightarrow> 'd \<Rightarrow> string option \<Rightarrow> string option \<Rightarrow> rpc_client" where
  "server_client D d auth_token token \<equiv> \<lparr>rc_client = block_rpc_server D d auth_token, rc_auth_token = token\<rparr>"

context block_store_live
begin

lemma served:
  assumes "inv d" and "live d" and "auth_token = None \<or> token = auth_token" and "u64_max \<notin> stored (abs d) c"
    and "\<And>rs. db_get_ranges_of_chain_id D d c = Inr rs \<Longrightarrow> canonical rs"
  shows "block_server (server_client D d auth_token token) c (blocks (abs d) c)"
proof
  have tok: "check_token auth_token \<lparr>req_authorization = token, req_message = m\<rparr> = Inr \<lparr>req_authorization = token, req_message = m\<rparr>" for m :: 'm
    using assms(3) by (auto simp: check_token_Inr)
  obtain rs ru co where rs: "db_get_ranges_of_chain_id D d c = Inr rs" "db_get_rules_update_heights D d c = Inr ru" "db_get_corrections D d c = Inr co"
    using ranges_live [OF assms(2,1)] rules_live [OF assms(2)] corrections_live [OF assms(2)] by blast
  have "map range_of_proto (map proto_of_range rs) = rs" by (simp add: comp_def)
  then show "\<exists>l. client_list (server_client D d auth_token token) (Some c) = Inr [l] \<and> cl_chain_id l = c \<and>
      canonical (map range_of_proto (cl_block_ranges l)) \<and> ranges_set (map range_of_proto (cl_block_ranges l)) = dom (blocks (abs d) c)"
    using rs assms(5) ranges_law [OF assms(1) rs(1)]
    by (auto simp: client_list_def block_rpc_server_def tok server_list_def server_chain_listing_def stored_def)
  show "u64_max \<notin> dom (blocks (abs d) c)" using assms(4) by (simp add: stored_def)
  show "client_get_block_range (server_client D d auth_token token) c a b = Inl InvalidArgument" if "b < a" for a b
    using that by (simp add: client_get_block_range_def block_rpc_server_def tok server_get_block_range_def)
  fix a b :: u64
  assume ab: "a \<le> b"
  have "takeWhile (\<lambda>k. k \<le> b) (sorted_list_of_set {k \<in> stored (abs d) c. a \<le> k}) = sorted_list_of_set {k \<in> stored (abs d) c. a \<le> k \<and> k \<le> b}"
    by (simp add: takeWhile_sorted filter_sorted_list_of_set conj_assoc)
  then have "send_blocks b (db_iterate_bytes D d c a Forward) = map Inr (stream_blocks (blocks (abs d) c) a b)"
    unfolding iterate_bytes_live [OF assms(2,1)] send_blocks_map
    by (simp add: block_entries_def stream_blocks_def takeWhile_map comp_def stored_def)
  then show "client_get_block_range (server_client D d auth_token token) c a b = Inr (map Inr (stream_blocks (blocks (abs d) c) a b))"
    using ab by (simp add: client_get_block_range_def block_rpc_server_def tok server_get_block_range_def not_less [symmetric] del: not_less)
qed

end

context rocks_block_db
begin

lemma canonical_ranges:
  assumes "db_inv (rview (rocks_inner d))" and "db_canonical (rview (rocks_inner d))" and "db_get_ranges_of_chain_id (rocks_blockdb R ho pr) d c = Inr rs"
  shows "canonical rs" and "u64_max \<notin> stored (abs_of (rview (rocks_inner d))) c"
proof -
  have "get_ranges_of_chain_id (rocks_kvdb R) d c = Inr rs" using assms(3) by simp
  from rocks.get_ranges_ok [OF this] rocks.metadata_reads_ok(2) [OF assms(1) this] assms(2)
  show "canonical rs" "u64_max \<notin> stored (abs_of (rview (rocks_inner d))) c" unfolding db_canonical_def by blast+
qed

lemma rocks_served:
  assumes "healthy (rocks_inner d)" and "db_inv (rview (rocks_inner d))" and "db_canonical (rview (rocks_inner d))"
    and "auth_token = None \<or> token = auth_token"
  shows "block_server (server_client (rocks_blockdb R ho pr) d auth_token token) c (blocks (abs_of (rview (rocks_inner d))) c)"
proof -
  obtain rs where "db_get_ranges_of_chain_id (rocks_blockdb R ho pr) d c = Inr rs"
    using block_store_live.ranges_live [OF rocks_block_store_live assms(1,2)] by blast
  from canonical_ranges [OF assms(2,3)] this show ?thesis
    by (intro block_store_live.served [OF rocks_block_store_live assms(2,1,4)]) blast+
qed

end

text \<open>The served example database.\<close>

lemma ex_canonical: "db_canonical (mem_view (rocks_inner ex_db2))"
  using kv_store.db_history_refines [OF mem_store ex_history order_only_rev] by (simp add: ex_batch_def)

interpretation mem_server: block_server "server_client mem_blockdb ex_db2 (Some ''secret'') (Some ''secret'')" 1
  "blocks (abs_of (mem_view (rocks_inner ex_db2))) 1"
  by (rule memdb.rocks_served [OF conjunct2 [OF conjunct2 [OF ex_healthy]] ex_inv ex_canonical]) simp

lemma check_token_wrong:
  "token \<noteq> Some secret \<Longrightarrow> check_token (Some secret) \<lparr>req_authorization = token, req_message = m\<rparr> =
     Inl (Unauthenticated (if token = None then MissingAuthToken else InvalidAuthToken))"
  by (auto simp: check_token_def split: option.split)

subsection \<open>Properties\<close>

text \<open>C4: fetching from another service replicates its blocks. If the other side serves a
  consistent database without block \<open>u64::MAX\<close> over a store that does not fail, and the
  client has its token, a fetch of a range whose blocks are all stored on one of the two sides
  succeeds: the blocks of the range that were missing are those of the server, byte for byte,
  and nothing else changes. Without bounds the range is from 0 to the last block of the server.\<close>

theorem fetch_replicates_server:
  assumes "rocks_block_db R rview wview healthy ho" and "healthy (rocks_inner d)" and "db_inv (rview (rocks_inner d))"
    and "rocks_block_db R2 rview2 wview2 healthy2 ho2" and "healthy2 (rocks_inner d2)" and "db_inv (rview2 (rocks_inner d2))"
    and "db_canonical (rview2 (rocks_inner d2))" and "auth_token = None \<or> token = auth_token"
    and "connect url (get_auth_token cfg) = Inr \<lparr>rc_client = block_rpc_server (rocks_blockdb R2 ho2 pr2) d2 auth_token, rc_auth_token = token\<rparr>"
    and "s = abs_of (rview (rocks_inner d))" and "t = abs_of (rview2 (rocks_inner d2))" and "stored t c \<noteq> {}"
    and "a = (case from_opt of None \<Rightarrow> 0 | Some n \<Rightarrow> n)" and "b = (case to_opt of None \<Rightarrow> Max (stored t c) | Some n \<Rightarrow> n)"
    and "a \<le> b" and "b \<noteq> u64_max" and "{a .. b} \<subseteq> stored s c \<union> stored t c"
  shows "\<exists>line d'. fetch (rocks_blockdb R ho pr) connect cfg d url c from_opt to_opt = (Inr line, d') \<and>
    db_inv (rview (rocks_inner d')) \<and> only_blocks_of c s (abs_of (rview (rocks_inner d'))) \<and>
    (\<forall>n. blocks (abs_of (rview (rocks_inner d'))) c n = (if n \<in> {a .. b} - stored s c then blocks t c n else blocks s c n))"
proof -
  note L = rocks_block_db.rocks_block_store_live [OF assms(1), of pr]
  note S = rocks_block_db.rocks_served [OF assms(4-8), of pr2 c, folded assms(11)]
  have dom: "dom (blocks t c) = stored t c" by (simp add: stored_def)
  from block_store_live.fetch_from_server [where connect = connect and url = url and t = "blocks t c", OF L assms(3,2,9) S, unfolded dom,
      OF assms(12-16) assms(17) [unfolded assms(10)]]
  obtain line d' where "fetch (rocks_blockdb R ho pr) connect cfg d url c from_opt to_opt = (Inr line, d')"
    "\<forall>n. blocks (abs_of (rview (rocks_inner d'))) c n = (if n \<in> {a .. b} - stored s c then blocks t c n else blocks s c n)"
    unfolding assms(10) by blast
  with block_store.fetch_effect [OF rocks_block_db.rocks_block_store [OF assms(1)] assms(3) this(1)] show ?thesis
    unfolding assms(10) by blast
qed

text \<open>C19: a client that does not send the token of the server gets nothing: every request is
  refused as unauthenticated, and the fetch of blocks or of metadata fails and leaves the local
  database as it is.\<close>

theorem wrong_token_refused:
  assumes "token \<noteq> Some secret" and "client = \<lparr>rc_client = block_rpc_server D2 d2 (Some secret), rc_auth_token = token\<rparr>"
    and "connect url (get_auth_token cfg) = Inr client"
    and "reason = (if token = None then MissingAuthToken else InvalidAuthToken)"
  shows "client_list client chain = Inl (Unauthenticated reason) \<and> client_get_metadata client c = Inl (Unauthenticated reason) \<and>
    client_get_block_range client c a b = Inl (Unauthenticated reason) \<and>
    fetch D connect cfg d url c from_opt to_opt = (Inl (RpcErr (Unauthenticated reason)), d) \<and>
    fetch_metadata D connect cfg d url c = (Inl (RpcErr (Unauthenticated reason)), d)"
proof -
  note W = check_token_wrong [OF assms(1), folded assms(4)]
  show ?thesis
    using assms(2,3)
    by (simp add: W client_list_def client_get_metadata_def client_get_block_range_def block_rpc_server_def fetch_def fetch_metadata_def)
qed

definition ex_connect :: "string option \<Rightarrow> string \<Rightarrow> string option \<Rightarrow> string + rpc_client" where
  "ex_connect secret url token = Inr \<lparr>rc_client = block_rpc_server mem_blockdb ex_db2 secret, rc_auth_token = token\<rparr>"

theorem fetch_replicates_server_witness:
  "\<exists>line d'. fetch mem_blockdb (ex_connect None) ex_config ex_db1 ''url'' 1 (Some 5) (Some 6) = (Inr line, d') \<and>
     blocks (abs_of (mem_view (rocks_inner d'))) 1 6 = Some [2]"
proof -
  let ?t = "abs_of (mem_view (rocks_inner ex_db2))" and ?s = "abs_of (mem_view (rocks_inner ex_db1))"
  have inv1: "db_inv (mem_view (rocks_inner ex_db1))" "?s = abs_empty"
    using kv_store.db_history_refines [OF mem_store db_history.created [OF ex_created] order_only_rev] by simp_all
  have t: "?t = abs_op ex_batch abs_empty" using kv_store.db_history_refines [OF mem_store ex_history order_only_rev] by blast
  have "sorted_list_of_set {5 .. 6 :: u64} = word_seq 5 (Suc (unat (6 - 5 :: u64)))" by (rule word_seq_interval [symmetric]) simp
  also have "\<dots> = [5, 6]" by simp
  finally have "set (sorted_list_of_set {5 .. 6 :: u64}) = set [5, 6]" by (simp only:)
  then have range: "{5 .. 6 :: u64} = {5, 6}" by simp
  have six: "blocks ?t 1 6 = Some [2]" "stored ?s 1 = {}" "{5, 6} \<subseteq> stored ?t 1" 
    unfolding t inv1(2) by (auto simp: ex_batch_def abs_put_all_Cons abs_put_def abs_empty_def stored_def)
  have hyps: "stored ?t 1 \<noteq> {}" "{5 .. 6} \<subseteq> stored ?s 1 \<union> stored ?t 1" using six(3) range by blast+
  from fetch_replicates_server [where connect = "ex_connect None" and url = "''url''" and cfg = ex_config and from_opt = "Some 5" and to_opt = "Some 6" and c = 1 and d = ex_db1,
      OF memdb.rocks_block_db_axioms conjunct1 [OF conjunct2 [OF ex_healthy]] inv1(1) memdb.rocks_block_db_axioms
      conjunct2 [OF conjunct2 [OF ex_healthy]] ex_inv ex_canonical disjI1 [OF refl] ex_connect_def refl refl hyps(1) _ _ _ _ hyps(2)] six(1,2)
  show ?thesis by force
qed

theorem wrong_token_refused_witness:
  "fetch mem_blockdb (ex_connect (Some ''secret'')) (ex_config\<lparr>cfg_auth_token := Some ''guess''\<rparr>) ex_db1 ''url'' 1 None None =
     (Inl (RpcErr (Unauthenticated InvalidAuthToken)), ex_db1)"
  using wrong_token_refused [where token = "Some ''guess''" and secret = "''secret''" and connect = "ex_connect (Some ''secret'')" and url = "''url''"
      and cfg = "ex_config\<lparr>cfg_auth_token := Some ''guess''\<rparr>" and D = mem_blockdb and d = ex_db1 and c = 1 and from_opt = None and to_opt = None,
      OF _ refl _ refl, of mem_blockdb ex_db2]
  by (simp add: ex_connect_def get_auth_token_def)

end
