(* ===== verification/Spec2Isabelle.thy ===== *)
theory Spec2Isabelle
  imports Execute Replication
begin

text \<open>
  \<^bold>\<open>Verification of the Bertha block service.\<close>

  \<^bold>\<open>The program.\<close> Bertha stores blocks of EVM chains. The crate bertha-types has the data types
  with their RLP, hexadecimal and JSON encodings; the crate genesis-parser reads genesis files
  (.g) and directories of era files; the crate blockservice keeps blocks in a RocksDB store inside
  an application directory, imports them from those files, fetches them from other block services
  over gRPC or from nodes over JSON-RPC, serves them, verifies the chain of parent hashes and
  deletes ranges. Every command opens the directory, runs and closes it; the server command runs
  until it is stopped.

  \<^bold>\<open>How it is modelled.\<close> Functions are HOL functions over records and datatypes with the fields and
  variants of the Rust types. \<open>u64\<close> and the other integers are words and wrap around, as in a
  release build. A \<open>Result\<close> is a sum with the error on the left. An operation that changes a
  store, a file or a configuration returns the new value next to its result, and on an error it
  returns what was changed before the error. Loops are structural recursion over the list of items
  that an iterator yields, or recursive functions with a termination proof; the only loop that can
  run forever, over the units of a genesis file, is a partial function into \<open>option\<close>, and a
  panic is the value \<open>Panics\<close>. Concurrent tasks are step relations. Crates, files, servers
  and the user are parameters (records such as \<open>rocksdb\<close>, \<open>eth\<close>, \<open>prost\<close>,
  \<open>toml\<close>, \<open>io\<close>, \<open>hex_api\<close>, \<open>http_client\<close>, \<open>world\<close>); what the code relies on
  is stated as locales, and each locale is interpreted on an executable instance, so that the
  properties are not vacuous.

  \<^bold>\<open>Theories, in the order of dependence.\<close>

  \<^item> \<open>Bertha_Prelude\<close>: words, results, vectors, binary search of the standard library, big-endian
    numbers, and their lemmas.
  \<^item> \<open>Ranges\<close> (utils/ranges.rs): lists of block ranges. The loops compute the canonical list of
    the set they denote, except at \<open>u64::MAX\<close>, where the code wraps around.
  \<^item> \<open>Db_Keys\<close> (keys and metadata of db/blockdb.rs): layout and order of the keys, round trips.
  \<^item> \<open>Kv_Store\<close> (trait \<open>KvDb\<close>, db/rocksdb.rs): the contract \<open>kv_store\<close> and its live version;
    the wrapper around RocksDB meets it. \<open>mem_rocksdb\<close> is an in-memory RocksDB that can fail.
  \<^item> \<open>Block_Db\<close>, \<open>Block_Db_Spec\<close> (\<open>KvDbBackedBlockDb\<close>): the operations, the abstract
    database \<open>abs_db\<close>, the invariant \<open>db_inv\<close>, and the refinement of the abstract operations
    for every sequence of operations, failing ones included.
  \<^item> \<open>Chain_Types\<close> (bertha-types), \<open>Proto_Convert\<close> (db/proto.rs), \<open>Block_Store\<close> (trait \<open>BlockDb\<close>):
    data, conversion to protobuf, the contracts \<open>block_store\<close> and \<open>block_store_live\<close> in which
    all commands are proved correct. \<open>Wire_Instance\<close> has an executable stand-in for prost.
  \<^item> \<open>Rlp\<close>, \<open>Rlp_Instance\<close>, \<open>Tx_Codec\<close>, \<open>Header\<close> (rlp_utils.rs, u256.rs, transaction,
    receipts.rs, block_header.rs, block.rs): RLP items, the five kinds of transactions, receipts,
    headers and hashes; round trips and Bloom filters.
  \<^item> \<open>Config_File\<close> (config.rs, app_dir.rs, chain names of cli.rs): configuration and directory.
  \<^item> \<open>Rpc\<close> (grpc), \<open>Cmd_Fetch\<close> (cmd/fetch.rs, fetch_metadata.rs), \<open>Replication\<close>: server,
    client, token check and fetching; \<open>Replication\<close> puts them together over the contract
    \<open>block_server\<close>.
  \<^item> \<open>Cmd_Local\<close>, \<open>Cmd_Verify\<close> (cmd/purge.rs, list.rs, view.rs, view_metadata.rs,
    import_metadata.rs, verify.rs).
  \<^item> \<open>Slice_Reader\<close>, \<open>GFile_Block\<close>, \<open>GFile\<close>, \<open>Era_Dir\<close> (genesis-parser): buffered reading,
    records, unit table and block iterator of genesis files; era files and the conversion of the
    foreign block types.
  \<^item> \<open>Cmd_Import\<close>, \<open>Cmd_Import_Files\<close> (cmd/import.rs): batched import with optional verification,
    and the four import commands over the directory.
  \<^item> \<open>Hex\<close>, \<open>Json\<close> (hex_convert.rs, as_hex.rs and the JSON structs of bertha-types).
  \<^item> \<open>Cmd_Start\<close> (json_rpc, cmd/start.rs): sources, the polling task with its bounded channel, and
    the synchronisation of all chains as an interleaving of steps, with an inductive invariant.
  \<^item> \<open>Execute\<close> (cli.rs, cmd/mod.rs): all commands over the file system.
  \<^item> This theory: properties of the whole program.

  \<^bold>\<open>What is shown.\<close> For the database: refinement of the abstract database, atomicity of failed
  operations, exact iteration, success on a store that does not fail. For the commands: each keeps
  the invariant whatever fails, and does exactly what it reports (fetch, purge, import, verify,
  list). For the composition: any sequence of commands keeps every database consistent; a fetch
  from another service copies the missing blocks; the synchronisation stores consecutive blocks
  in every interleaving and can always go on; an imported genesis file verifies. For the formats:
  round trips of keys, protobuf, RLP, transactions, headers, genesis records and files,
  hexadecimal and JSON. Several theorems pin down where the code departs from its documentation:
  ranges at \<open>u64::MAX\<close>, a fetch that overruns its range, a genesis unit that makes the parser
  loop, JSON that cannot be read back.

  \<^bold>\<open>Bounds and fuel.\<close> The buffer sizes, the batch size, the channel size and the memory limit are
  those of the source. \<open>next_blocks\<close> takes at most \<open>fuel\<close> blocks of a genesis file; the
  properties of imports hold for every fuel above the number of records, for which the source is
  read to its end. RLP lengths are below \<open>2^64\<close>, as the crate requires. Verification counts
  errors in 64 bits, so its property asks for less than \<open>2^63\<close> stored blocks; a fetch asks for
  streams of less than \<open>2^64\<close> messages, which a served database always gives.

  \<^bold>\<open>Not modelled.\<close> Parsing of command lines (clap), progress bars, timing, log lines, console and
  signal handling (main.rs, parts of cmd/mod.rs), because they are calls of crates without a state
  of the program; opening RocksDB files and its tuning options (parts of db/rocksdb.rs), the gRPC
  transport and the listening sockets (parts of grpc/server.rs and client.rs), the catch-up loop
  of the secondary database (part of cmd/start.rs), because they are I/O of crates: they occur as
  parameters of the model. Sleeping tasks are tasks that take no step. A command that only reads
  works on a secondary instance, which is taken as the state of the store when it was opened.
  Printed texts are datatypes with the values that are printed. Test code is not modelled.
\<close>

section \<open>Properties of the composed system\<close>

text \<open>C5: generating a genesis file with the blocks \<open>0\<close> to \<open>n\<close>, importing it into an
  application directory whose store does not fail and whose configured chain is still empty, and
  opening the directory again gives a database that holds exactly these blocks of the chain, on
  which verification ends with the success message; with or without verification during the
  import.\<close>

theorem genesis_import_verifies:
  assumes store: "rocks_block_db (sv_rocksdb V) rview wview healthy (sv_hash_order V)" and prost: "prost_crate (sv_prost V)"
    and headers: "rlp_headers (sv_eth V) H"
    and gz: "\<forall>bs. gunzip \<lparr>src_bytes = gzip bs, src_error = None\<rparr> = \<lparr>src_bytes = bs, src_error = None\<rparr>"
    and bs: "bs = test_chain (sv_eth V) 0 (zero_bytes 32) (Suc (unat n))" and n: "unat n < 2 ^ 62"
    and sizes: "\<forall>b \<in> set bs. \<forall>i. idx_full_block_try_from (sv_eth V) b = Inr i \<longrightarrow>
      length (idx_full_block_encode (sv_eth V) H i) \<le> 134217728"
    and gen: "generate_test_genesis (sv_eth V) H gzip c (Suc (unat n)) [] = Returns data" and short: "length data < 2 ^ 63"
    and gfile: "open_file path = Inr \<lparr>fr_data = data, fr_pos = 0, fr_fault = None\<rparr>" and fuel: "Suc (unat n) < fuel"
    and opened: "open_service_dir V fs app_dir False = Inr (cfg, d)" and reopen: "\<forall>x. sv_rocks_open V False x = Inr x"
    and live: "healthy (rocks_inner d)" and inv: "db_inv (rview (rocks_inner d))"
    and chain: "get_chain_config cfg c \<noteq> None" and s: "s = abs_of (rview (rocks_inner d))"
    and empty: "stored s c = {}" "failed_bundles s c = None" and cancel: "\<forall>i. \<not> cancelled i"
  shows "\<exists>ls fs' d' ls'.
    import_gfile V cancelled H gunzip open_file fuel fs app_dir path check = Some (Returns ((Inr (), ls), fs')) \<and>
    open_service_dir V fs' app_dir False = Inr (cfg, d') \<and> db_inv (rview (rocks_inner d')) \<and>
    stored (abs_of (rview (rocks_inner d'))) c = {0 .. n} \<and>
    (\<forall>b \<in> set bs. blocks (abs_of (rview (rocks_inner d'))) c (b_number b) = Some (encode_block (sv_prost V) b)) \<and>
    verify (rocks_blockdb (sv_rocksdb V) (sv_hash_order V) (sv_prost V)) (sv_eth V) pb cancelled d' c None None = (Inr (), ls') \<and>
    ls' \<noteq> [] \<and> last ls' = BlocksVerified c"
proof -
  note L = rocks_block_db.rocks_block_store_live [OF store, of "sv_prost V"]
  note T = test_chain_source [OF refl refl, of "sv_eth V" n, folded bs]
  have "generated_blocks (sv_eth V) (Suc (unat n)) [] = bs" by (simp only: generated_blocks_def bs append_Nil2)
  note G = rlp_headers.generated_file [OF headers gz, of "[]" "Suc (unat n)" c, unfolded this, OF _ sizes]
  have len: "length bs = Suc (unat n)" using arg_cong [OF T(1), of length] word_seq_interval [of 0 n, symmetric] by simp
  obtain g where g: "gfile_parse (sv_eth V) gunzip \<lparr>fr_data = data, fr_pos = 0, fr_fault = None\<rparr> = Some (Returns (Inr g))"
      "gf_chain_id g = c" "next_blocks (sv_eth V) H fuel (gf_blocks g) = map Inr (rev bs)"
    using G gen short fuel len by auto
  have "n \<noteq> u64_max" using n by auto
  from block_store_live.import_whole_source [OF L live inv chain T(1) this cancel, of check "sv_eth V" "sv_toml V" "sv_io V" "sv_prost V" fs]
  obtain ls d' k where imp: "import (sv_toml V) (sv_io V) (rocks_blockdb (sv_rocksdb V) (sv_hash_order V) (sv_prost V)) (sv_eth V)
        (sv_prost V) cancelled fs cfg d c check (map Inr (rev bs)) = ((Inr (), ls), d', cfg, fs)"
      "healthy (rocks_inner d')" "db_inv (rview (rocks_inner d'))" "{m. m < k} \<subseteq> stored s c"
      "only_blocks_of c s (abs_of (rview (rocks_inner d')))" "stored (abs_of (rview (rocks_inner d'))) c = stored s c \<union> {0 .. n}"
      "\<forall>b \<in> set (rev bs). k \<le> b_number b \<longrightarrow> blocks (abs_of (rview (rocks_inner d'))) c (b_number b) = Some (encode_block (sv_prost V) b)"
    using T(2,3) empty(1) s by blast
  have "\<not> 0 < k" using imp(4) empty(1) by blast
  then have "k = 0" by (simp add: word_gt_0)
  then have st: "stored (abs_of (rview (rocks_inner d'))) c = {0 .. n}"
    "\<forall>b \<in> set (rev bs). blocks (abs_of (rview (rocks_inner d'))) c (b_number b) = Some (encode_block (sv_prost V) b)"
    using imp(6,7) empty(1) by auto
  have "failed_bundles (abs_of (rview (rocks_inner d'))) c = None" using imp(5) empty(2) by (simp add: only_blocks_of_def)
  moreover have "\<forall>b \<in> set (rev bs). blocks (abs_of (rview (rocks_inner d'))) c (b_number b) = Some (encode_block (sv_prost V) b) \<and>
      decode_block (sv_prost V) (encode_block (sv_prost V) b) = Inr b"
    using st(2) prost_crate.decode_encode_block [OF prost] rlp_headers.test_chain_wf [OF headers] unfolding bs set_rev by blast
  ultimately obtain ls' where "verify (rocks_blockdb (sv_rocksdb V) (sv_hash_order V) (sv_prost V)) (sv_eth V) pb cancelled d' c None None = (Inr (), ls')"
      "ls' \<noteq> []" "last ls' = BlocksVerified c"
    using block_store_live.linked_chain_verifies [OF L imp(2,3) _ cancel T(1) st(1) n _ T(2)] by blast
  moreover have "open_service_dir V (put_store (sv_io V) app_dir d' fs) app_dir False = Inr (cfg, d')"
    using open_service_dir_put_store [OF opened] reopen
      kv_store_live.open_db_live [OF rocksdb_crate.rocks_store_live [OF rocks_block_db.axioms(1) [OF store]] imp(2,3)] by blast
  moreover note import_gfile_run [where V = V and open_file = open_file and path = path, OF opened gfile g(1) imp(1) [folded g(2,3)]]
  ultimately show ?thesis using imp(3) st by auto
qed


definition ex_service :: "(string, mem_db, mem_op list) service" where
  "ex_service =
     \<lparr>sv_toml = plain_toml\<lparr>toml_from_str := (\<lambda>_. Inr (8080, Some [chain_config_new 146], None))\<rparr>, sv_api = plain_api, sv_io = plain_io,
      sv_rocks_open = (\<lambda>_ d. Inr d), sv_rocksdb = mem_rocksdb, sv_hash_order = rev, sv_prost = wire_prost, sv_eth = plain_eth\<rparr>"

definition ex_app_fs :: "mem_db rocks_db fs" where
  "ex_app_fs = \<lparr>fs_files = [''a/blockservice.toml'' \<mapsto> ''port''], fs_dirs = {''a''}, fs_stores = [''a/.blockdb'' \<mapsto> ex_db1]\<rparr>"

definition ex_open_genesis :: "string \<Rightarrow> string + file_reader" where
  "ex_open_genesis path =
     (case generate_test_genesis plain_eth plain_header (\<lambda>bs. bs) 146 1 [] of
        Panics \<Rightarrow> Inl ''''
      | Returns data \<Rightarrow> Inr \<lparr>fr_data = data, fr_pos = 0, fr_fault = None\<rparr>)"

lemma ex_service_simps [simp]:
  "sv_rocksdb ex_service = mem_rocksdb" "sv_hash_order ex_service = rev" "sv_prost ex_service = wire_prost"
  "sv_eth ex_service = plain_eth" "sv_rocks_open ex_service ro x = Inr x"
  by (simp_all add: ex_service_def)

lemma ex_db1_empty: "db_inv (mem_view (rocks_inner ex_db1))" "abs_of (mem_view (rocks_inner ex_db1)) = abs_empty"
  using kv_store.create_ok [OF mem.rocks_store ex_created] by (simp_all add: abs_empty_def)

lemma ex_service_opens: "\<exists>cfg. open_service_dir ex_service ex_app_fs ''a'' False = Inr (cfg, ex_db1) \<and> get_chain_config cfg 146 \<noteq> None"
proof -
  have "open_db mem_kvdb ex_db1 = Inr ex_db1"
    using kv_store_live.open_db_live [OF mem.rocks_store_live conjunct1 [OF conjunct2 [OF ex_healthy]] ex_db1_empty(1)] .
  then show ?thesis
    by (simp add: open_service_dir_def open_app_dir_def ex_service_def ex_app_fs_def plain_io_def path_join_def CONFIG_FILE_NAME_def
        BLOCK_DB_NAME_def config_load_def read_to_string_def config_from_str_def deserialize_auth_token_def Let_def
        get_chain_config_def chain_config_new_def)
qed

theorem genesis_import_verifies_witness:
  "\<exists>ls fs' cfg d' ls'.
    import_gfile ex_service (\<lambda>_. False) plain_header (\<lambda>src. src) ex_open_genesis 2 ex_app_fs ''a'' ''g'' True = Some (Returns ((Inr (), ls), fs')) \<and>
    open_service_dir ex_service fs' ''a'' False = Inr (cfg, d') \<and>
    stored (abs_of (mem_view (rocks_inner d'))) 146 = {0} \<and>
    verify mem_blockdb plain_eth (\<lambda>_. Inr []) (\<lambda>_. False) d' 146 None None = (Inr (), ls') \<and> last ls' = BlocksVerified 146"
proof -
  obtain cfg where cfg: "open_service_dir ex_service ex_app_fs ''a'' False = Inr (cfg, ex_db1)" "get_chain_config cfg 146 \<noteq> None"
    using ex_service_opens by blast
  obtain data where data: "generate_test_genesis plain_eth plain_header (\<lambda>bs. bs) 146 1 [] = Returns data" "length data < 2 ^ 63"
    using ex_genesis(3) by blast
  have n: "Suc (unat (0 :: u64)) = 1" by simp
  have bs: "test_chain plain_eth 0 (zero_bytes 32) 1 = [default_sonic]"
    using ex_genesis(1) by (simp only: generated_blocks_def append_Nil2)
  have crates: "rocks_block_db (sv_rocksdb ex_service) mem_view (fold mem_op_view) (\<lambda>db. mem_fault db = None) (sv_hash_order ex_service)"
    "prost_crate (sv_prost ex_service)" "rlp_headers (sv_eth ex_service) plain_header"
    using memdb.rocks_block_db_axioms wire.prost_crate_axioms plain_headers.rlp_headers_axioms by simp_all
  have gz: "\<forall>bs. (\<lambda>src :: source. src) \<lparr>src_bytes = (\<lambda>bs. bs) bs, src_error = None\<rparr> = \<lparr>src_bytes = bs, src_error = None\<rparr>" by simp
  have chain: "[default_sonic] = test_chain (sv_eth ex_service) 0 (zero_bytes 32) (Suc (unat (0 :: u64)))"
    unfolding n ex_service_simps bs by (rule refl)
  have bounds: "unat (0 :: u64) < 2 ^ 62" "Suc (unat (0 :: u64)) < 2" by simp_all
  have sizes: "\<forall>b \<in> set [default_sonic]. \<forall>i. idx_full_block_try_from (sv_eth ex_service) b = Inr i \<longrightarrow>
      length (idx_full_block_encode (sv_eth ex_service) plain_header i) \<le> 134217728" using ex_genesis(2) by simp
  have gen: "generate_test_genesis (sv_eth ex_service) plain_header (\<lambda>bs. bs) 146 (Suc (unat (0 :: u64))) [] = Returns data"
    unfolding n using data(1) by simp
  have gfile: "ex_open_genesis ''g'' = Inr \<lparr>fr_data = data, fr_pos = 0, fr_fault = None\<rparr>" using data(1) by (simp add: ex_open_genesis_def)
  have reopen: "\<forall>x. sv_rocks_open ex_service False x = Inr x" by simp
  have live: "mem_fault (rocks_inner ex_db1) = None" using ex_healthy by blast
  have empty: "stored (abs_of (mem_view (rocks_inner ex_db1))) 146 = {}" "failed_bundles (abs_of (mem_view (rocks_inner ex_db1))) 146 = None"
    unfolding ex_db1_empty(2) by (simp_all add: abs_empty_def stored_def)
  have cancel: "\<forall>i :: nat. \<not> (\<lambda>_. False) i" by simp
  from genesis_import_verifies [where open_file = ex_open_genesis and path = "''g''" and gzip = "\<lambda>bs. bs" and gunzip = "\<lambda>src. src"
      and healthy = "\<lambda>db. mem_fault db = None" and cancelled = "\<lambda>_. False" and check = True and pb = "\<lambda>_. Inr []",
      OF crates gz chain bounds(1) sizes gen data(2) gfile bounds(2) cfg(1) reopen live ex_db1_empty(1) cfg(2) refl empty cancel]
  show ?thesis by auto
qed

text \<open>C2: commands never corrupt a database. After any sequence of commands, among them the
  server, in which each may fail, be cancelled, read malformed files or talk to servers that
  answer anything, every database on disk satisfies its invariant or is one whose creation failed
  and that is still empty; so every database that can be opened is consistent.\<close>

theorem commands_keep_databases_consistent:
  assumes "rocks_block_db (sv_rocksdb V) rview wview healthy (sv_hash_order V)"
    and "\<forall>ro d d'. sv_rocks_open V ro d = Inr d' \<longrightarrow> rview (rocks_inner d') = rview (rocks_inner d)"
    and "databases_ok rview fs0" and "session V (creates_empty rview) fs0 fs"
  shows "databases_ok rview fs \<and>
    (\<forall>dir ro cfg d. open_service_dir V fs dir ro = Inr (cfg, d) \<longrightarrow> db_inv (rview (rocks_inner d)))"
proof -
  have S: "running_service V rview wview healthy" using assms(1,2) by (intro running_service.intro) blast+
  from running_service.session_ok [OF S assms(4,3)] running_service.open_service_dir_inv [OF S] show ?thesis by blast
qed

definition ex_world :: "mem_db rocks_db world" where
  "ex_world =
     \<lparr>wo_cancelled = (\<lambda>_. False), wo_connect = ex_connect None, wo_read_dir = (\<lambda>_. Inr []), wo_era_files = ex_era_files,
      wo_rlp_header = plain_header, wo_gunzip = (\<lambda>src. src), wo_open_file = ex_open_genesis, wo_max_blocks = 2,
      wo_read_file = (\<lambda>_. Inr [123, 125]), wo_to_json = (\<lambda>_. Inl ''''), wo_parse_bundles = (\<lambda>_. Inr []), wo_input = Inr ''n'',
      wo_rocks_create = (\<lambda>_. Inr ex_db0), wo_bind = (\<lambda>_. None), wo_try_new = (\<lambda>_. Inr ()), wo_sources = (\<lambda>_. ex_node)\<rparr>"

interpretation mem_service: running_service ex_service mem_view "fold mem_op_view" "\<lambda>db. mem_fault db = None"
  by (rule running_service.intro) (simp_all add: memdb.rocks_block_db_axioms)

lemma ex_world_creates: "creates_empty mem_view ex_world"
  by (simp add: creates_empty_def ex_world_def ex_db0_def mem_view_def)

theorem commands_keep_databases_consistent_witness:
  "\<exists>fs cfg d. session ex_service (creates_empty mem_view) ex_app_fs fs \<and>
     open_service_dir ex_service fs ''a'' False = Inr (cfg, d) \<and> corrections (abs_of (mem_view (rocks_inner d))) 146 = Some [123, 125] \<and>
     db_inv (mem_view (rocks_inner d))"
proof -
  note live = conjunct1 [OF conjunct2 [OF ex_healthy]]
  note L = memdb.rocks_block_store_live
  obtain cfg where cfg: "open_service_dir ex_service ex_app_fs ''a'' False = Inr (cfg, ex_db1)" using ex_service_opens by blast
  have "fst (db_put_corrections mem_blockdb ex_db1 146 [123, 125]) = Inr ()" "mem_fault (rocks_inner (snd (db_put_corrections mem_blockdb ex_db1 146 [123, 125]))) = None"
    by code_simp+
  then obtain d where d: "db_put_corrections mem_blockdb ex_db1 146 [123, 125] = (Inr (), d)" "mem_fault (rocks_inner d) = None"
    by (metis prod.collapse snd_conv)
  note eff = block_store.put_corrections_law [OF memdb.rocks_block_store ex_db1_empty(1) d(1)]
  let ?fs = "put_store (sv_io ex_service) ''a'' d ex_app_fs"
  have "execute ex_service ex_world ex_app_fs ''a'' (ImportCorrections (ChainId 146) ''c.json'') = Some (Returns ((Inr (), [MetadataImported 146]), ?fs))"
    using cfg d(1) by (simp add: writing_app_dir_def import_corrections_def import_file_def reported_def ex_world_def)
  then have sess: "session ex_service (creates_empty mem_view) ex_app_fs ?fs"
    using session.command [where ok = "creates_empty mem_view", OF session.none ex_world_creates executes.returns] by blast
  have "open_db mem_kvdb d = Inr d" using kv_store_live.open_db_live [OF mem.rocks_store_live d(2)] eff by blast
  then have opened: "open_service_dir ex_service ?fs ''a'' False = Inr (cfg, d)" using open_service_dir_put_store [OF cfg] by simp
  have "databases_ok mem_view ex_app_fs" using ex_db1_empty(1) by (simp add: databases_ok_def ex_app_fs_def consistent_def)
  moreover have "rocks_block_db (sv_rocksdb ex_service) mem_view (fold mem_op_view) (\<lambda>db. mem_fault db = None) (sv_hash_order ex_service)"
    using memdb.rocks_block_db_axioms by simp
  ultimately have "db_inv (mem_view (rocks_inner d))"
    using commands_keep_databases_consistent [OF _ _ _ sess] opened by simp
  moreover have "corrections (abs_of (mem_view (rocks_inner d))) 146 = Some [123, 125]"
    using eff by (simp add: abs_put_corrections_def del: abs_of_sel)
  ultimately show ?thesis using sess opened by blast
qed

end
